(* ===== verification/Prelude.thy ===== *)
theory Prelude
  imports Main "HOL-Library.Finite_Map" "HOL-Library.Char_ord" "HOL-Library.List_Lexorder"
    "HOL-Library.Sublist"
begin

text \<open>
  The prelude of the development: what the Go language and its standard library give to every
  component. Functions that may panic return an \<open>outcome\<close>; errors are values of \<open>go_error\<close>;
  a Go map is a finite map, nil or allocated; the string functions are those of the packages
  \<^verbatim>\<open>fmt\<close>, \<^verbatim>\<open>strings\<close> and \<^verbatim>\<open>sort\<close> that the source calls, on byte strings. The order in which
  \<^verbatim>\<open>range\<close> visits a map is chosen by the run time: it is an argument, constrained by
  \<open>range_orders\<close>.
\<close>

section \<open>Outcomes, errors and named collections\<close>

named_theorems agent_simps \<open>equations of the agent's operations\<close>
named_theorems inv_intros \<open>preservation of the agent's invariant\<close>

text \<open>A Go call either returns or panics; the string is the panic's reason.\<close>

datatype 'a outcome = Ret 'a | Panic string

primrec bindO :: "'a outcome \<Rightarrow> ('a \<Rightarrow> 'b outcome) \<Rightarrow> 'b outcome" where
  "bindO (Ret x) f = f x"
| "bindO (Panic m) f = Panic m"

primrec returns :: "'a outcome \<Rightarrow> bool" where
  "returns (Ret x) = True"
| "returns (Panic m) = False"

text \<open>
  Error values: \<open>Errorf\<close> for \<^verbatim>\<open>fmt.Errorf\<close> without \<^verbatim>\<open>%w\<close>, \<open>Wrapf\<close> for a prefix followed by
  \<^verbatim>\<open>%w\<close>, \<open>Extern\<close> for the errors that code outside the repository returns (an API status
  reason and a message).
\<close>

datatype go_error = Errorf string | Wrapf string go_error | Extern string string

primrec Error_msg :: "go_error \<Rightarrow> string" where
  "Error_msg (Errorf m) = m"
| "Error_msg (Wrapf p e) = p @ Error_msg e"
| "Error_msg (Extern r m) = m"

section \<open>Strings\<close>

text \<open>
  \<open>strings.ToLower\<close> on ASCII bytes, \<open>strings.ReplaceAll\<close> with a one-byte pattern,
  \<open>strings.HasPrefix\<close>, \<open>strings.Contains\<close>.
\<close>

definition to_lower_char :: "char \<Rightarrow> char" where
  "to_lower_char c = (if CHR ''A'' \<le> c \<and> c \<le> CHR ''Z'' then char_of (of_char c + (32 :: nat)) else c)"

definition strings_ToLower :: "string \<Rightarrow> string" where
  "strings_ToLower s = map to_lower_char s"

definition strings_ReplaceAll :: "string \<Rightarrow> char \<Rightarrow> string \<Rightarrow> string" where
  "strings_ReplaceAll s old new = concat (map (\<lambda>c. if c = old then new else [c]) s)"

definition strings_HasPrefix :: "string \<Rightarrow> string \<Rightarrow> bool" where
  "strings_HasPrefix s p = (take (length p) s = p)"

fun strings_Contains :: "string \<Rightarrow> string \<Rightarrow> bool" where
  "strings_Contains [] sub = (sub = [])"
| "strings_Contains (c # s) sub = (strings_HasPrefix (c # s) sub \<or> strings_Contains s sub)"

section \<open>Go maps\<close>

text \<open>A map variable is nil (\<open>None\<close>) or refers to a table; reading nil is allowed, writing panics.\<close>

type_synonym 'v gomap = "(string, 'v) fmap option"

definition gomap_get :: "'v gomap \<Rightarrow> string \<Rightarrow> 'v option" where
  "gomap_get m k = (case m of None \<Rightarrow> None | Some t \<Rightarrow> fmlookup t k)"

definition gomap_set :: "'v gomap \<Rightarrow> string \<Rightarrow> 'v \<Rightarrow> 'v gomap outcome" where
  "gomap_set m k v =
     (case m of None \<Rightarrow> Panic ''assignment to entry in nil map'' | Some t \<Rightarrow> Ret (Some (fmupd k v t)))"

definition gomap_delete :: "'v gomap \<Rightarrow> string \<Rightarrow> 'v gomap" where
  "gomap_delete m k = map_option (fmdrop k) m"

definition gomap_keys :: "'v gomap \<Rightarrow> string set" where
  "gomap_keys m = (case m of None \<Rightarrow> {} | Some t \<Rightarrow> fmdom' t)"

text \<open>
  The iteration order of \<^verbatim>\<open>range\<close> over a map: any enumeration of its set of keys without
  repetition. \<open>sorted_order\<close> is one of them.
\<close>

type_synonym range_fun = "string fset \<Rightarrow> string list"

definition range_orders :: "range_fun \<Rightarrow> bool" where
  "range_orders ord \<longleftrightarrow> (\<forall>ks. distinct (ord ks) \<and> set (ord ks) = fset ks)"

definition sorted_order :: range_fun where
  "sorted_order ks = sorted_list_of_fset ks"

section \<open>Generic lemmas\<close>

lemma bindO_assoc: "bindO (bindO m f) g = bindO m (\<lambda>x. bindO (f x) g)"
  by (cases m) auto

lemma bindO_Ret_right [simp]: "bindO m Ret = m"
  by (cases m) auto

lemma bindO_eq_Ret: "bindO m f = Ret y \<longleftrightarrow> (\<exists>x. m = Ret x \<and> f x = Ret y)"
  by (cases m) auto

lemma bindO_returns: "returns (bindO m f) \<longleftrightarrow> (\<exists>x. m = Ret x \<and> returns (f x))"
  by (cases m) auto

lemma returns_iff: "returns m \<longleftrightarrow> (\<exists>x. m = Ret x)"
  by (cases m) auto

lemma sorted_order_range: "range_orders sorted_order"
  by (simp add: range_orders_def sorted_order_def sorted_list_of_fset.rep_eq)

lemma range_orders_distinct: "range_orders ord \<Longrightarrow> distinct (ord ks)"
  by (simp add: range_orders_def)

lemma range_orders_set: "range_orders ord \<Longrightarrow> set (ord ks) = fset ks"
  by (simp add: range_orders_def)

lemmas range_orders_simps = range_orders_distinct range_orders_set

lemma HasPrefix_iff_prefix: "strings_HasPrefix s p \<longleftrightarrow> prefix p s"
  by (auto simp: strings_HasPrefix_def prefix_def) (metis append_take_drop_id)

lemma Contains_iff_sublist: "strings_Contains s sub \<longleftrightarrow> sublist sub s"
  by (induction s) (auto simp: HasPrefix_iff_prefix sublist_Cons_right)

lemma Contains_append_left: "strings_Contains (p @ s) p"
  by (simp add: Contains_iff_sublist)

lemma ToLower_length [simp]: "length (strings_ToLower s) = length s"
  by (simp add: strings_ToLower_def)

lemma ToLower_append: "strings_ToLower (s @ t) = strings_ToLower s @ strings_ToLower t"
  by (simp add: strings_ToLower_def)

lemma ReplaceAll_remove: "strings_ReplaceAll s old [] = filter (\<lambda>c. c \<noteq> old) s"
  by (induction s) (auto simp: strings_ReplaceAll_def)

lemma map_of_rev_distinct: "distinct (map fst xs) \<Longrightarrow> map_of (rev xs) = map_of xs"
  by (simp add: map_of_inject_set rev_map [symmetric])

lemma append_sep_neq: "c \<notin> set ys \<Longrightarrow> xs @ c # us \<noteq> ys" "c \<notin> set ys \<Longrightarrow> ys \<noteq> xs @ c # us"
  by auto

lemma append_sep_inject:
  assumes "c \<notin> set xs" and "c \<notin> set ys"
  shows "xs @ c # us = ys @ c # vs \<longleftrightarrow> xs = ys \<and> us = vs"
proof
  assume eq: "xs @ c # us = ys @ c # vs"
  have "takeWhile (\<lambda>x. x \<noteq> c) (xs @ c # us) = xs" and "takeWhile (\<lambda>x. x \<noteq> c) (ys @ c # vs) = ys"
    using assms by (auto simp: takeWhile_append takeWhile_eq_all_conv)
  with eq have "xs = ys" by simp
  with eq show "xs = ys \<and> us = vs" by simp
qed simp

lemma append_sep_inject_last:
  assumes "c \<notin> set us" and "c \<notin> set vs"
  shows "xs @ c # us = ys @ c # vs \<longleftrightarrow> xs = ys \<and> us = vs"
  using append_sep_inject [of c "rev us" "rev vs" "rev xs" "rev ys"] assms
  by (metis append.assoc append_Cons append_Nil rev.simps(2) rev_append rev_rev_ident set_rev)

end
