(* ===== verification/K8s.thy ===== *)
theory K8s
  imports Prelude
begin

text \<open>
  The data the program works on, and the code outside the repository it calls.

  The data: group/version/kind and group/version/resource triples, object metadata, objects as
  the informers deliver them (\<^verbatim>\<open>*unstructured.Unstructured\<close>, a map of top-level fields, or a
  typed struct), the OCM types \<^verbatim>\<open>AppliedManifestWork\<close> and \<^verbatim>\<open>ManifestWork\<close>, and the
  repository's own \<^verbatim>\<open>WorkStatus\<close> (api/v1alpha1).

  The record \<open>k8slib\<close> holds the functions of client-go, apimachinery and controller-runtime
  that the program calls and that depend on their arguments only. They are parameters: a
  definition that calls one takes the record as an argument. What the program relies on is
  stated by the predicates at the end of the theory, from the documentation of those functions.
\<close>

section \<open>API data\<close>

record GroupVersionKind =
  gvk_Group :: string
  gvk_Version :: string
  gvk_Kind :: string

record GroupVersionResource =
  gvr_Group :: string
  gvr_Version :: string
  gvr_Resource :: string

datatype json = JNull | JBool bool | JNumber string | JString string | JArray "json list"
  | JObject "(string \<times> json) list"

datatype gotime = ZeroTime | Unix int

record OwnerReference =
  or_APIVersion :: string
  or_Kind :: string
  or_Name :: string
  or_UID :: string
  or_Controller :: bool

record ObjectMeta =
  om_Name :: string
  om_Namespace :: string
  om_UID :: string
  om_ResourceVersion :: string
  om_Generation :: int
  om_CreationTimestamp :: gotime
  om_DeletionTimestamp :: "gotime option"
  om_Labels :: "string gomap"
  om_Annotations :: "string gomap"
  om_OwnerReferences :: "OwnerReference list"
  om_ManagedFields :: "string list"

text \<open>The zero value of \<^verbatim>\<open>metav1.ObjectMeta\<close>, with a name and a namespace.\<close>

definition new_meta :: "string \<Rightarrow> string \<Rightarrow> ObjectMeta" where
  "new_meta ns name =
     \<lparr>om_Name = name, om_Namespace = ns, om_UID = '''', om_ResourceVersion = '''',
      om_Generation = 0, om_CreationTimestamp = ZeroTime, om_DeletionTimestamp = None,
      om_Labels = None, om_Annotations = None, om_OwnerReferences = [], om_ManagedFields = []\<rparr>"

text \<open>
  An object behind the interface \<^verbatim>\<open>runtime.Object\<close>: the dynamic informers deliver
  \<^verbatim>\<open>*unstructured.Unstructured\<close>, whose only struct field is the map \<^verbatim>\<open>Object\<close> of the top-level
  fields (here without apiVersion, kind and metadata, which the accessors read); a typed
  object is a struct with named fields, each zero or set.
\<close>

datatype field_value = FZero | FVal json

datatype runtime_object =
    Unstructured GroupVersionKind ObjectMeta "(string, json) fmap"
  | Struct GroupVersionKind ObjectMeta "(string, field_value) fmap"

primrec obj_gvk :: "runtime_object \<Rightarrow> GroupVersionKind" where
  "obj_gvk (Unstructured g m c) = g"
| "obj_gvk (Struct g m f) = g"

primrec obj_meta :: "runtime_object \<Rightarrow> ObjectMeta" where
  "obj_meta (Unstructured g m c) = m"
| "obj_meta (Struct g m f) = m"

primrec obj_set_meta :: "ObjectMeta \<Rightarrow> runtime_object \<Rightarrow> runtime_object" where
  "obj_set_meta m' (Unstructured g m c) = Unstructured g m' c"
| "obj_set_meta m' (Struct g m f) = Struct g m' f"

text \<open>
  A value of type \<^verbatim>\<open>any\<close> handed to an event handler or a type test: an object, an
  \<^verbatim>\<open>unstructured.Unstructured\<close> by value, the tombstone an informer delivers for a missed
  deletion, or anything else.
\<close>

datatype go_any = AnyObject runtime_object
  | AnyUnstructured GroupVersionKind ObjectMeta
  | DeletedFinalStateUnknown string go_any
  | AnyOther string

section \<open>Open Cluster Management types\<close>

record AppliedManifestResourceMeta =
  ar_Group :: string
  ar_Version :: string
  ar_Resource :: string
  ar_Namespace :: string
  ar_Name :: string
  ar_UID :: string

record AppliedManifestWork =
  amw_ObjectMeta :: ObjectMeta
  amw_ManifestWorkName :: string
  amw_AppliedResources :: "AppliedManifestResourceMeta list"

record ManifestWork =
  mw_ObjectMeta :: ObjectMeta

text \<open>\<^verbatim>\<open>workv1.GroupVersion\<close>.\<close>

definition workv1_Group :: string where
  "workv1_Group = ''work.open-cluster-management.io''"

definition workv1_Version :: string where
  "workv1_Version = ''v1''"

section \<open>WorkStatus (api/v1alpha1/workstatus_types.go)\<close>

record SourceRef =
  sr_Group :: string
  sr_Version :: string
  sr_Resource :: string
  sr_Kind :: string
  sr_Name :: string
  sr_Namespace :: string

record StatusDetails =
  LastGeneration :: int
  LastGenerationIsApplied :: bool
  LastCurrencyUpdateTime :: gotime

record WorkStatusSpec =
  ws_SourceRef :: SourceRef

record RawStatus =
  Raw :: string

record WorkStatus =
  ws_ObjectMeta :: ObjectMeta
  ws_Spec :: WorkStatusSpec
  ws_Status :: RawStatus
  ws_StatusDetails :: StatusDetails

definition zero_SourceRef :: SourceRef where
  "zero_SourceRef = \<lparr>sr_Group = '''', sr_Version = '''', sr_Resource = '''', sr_Kind = '''',
     sr_Name = '''', sr_Namespace = ''''\<rparr>"

definition zero_StatusDetails :: StatusDetails where
  "zero_StatusDetails = \<lparr>LastGeneration = 0, LastGenerationIsApplied = False,
     LastCurrencyUpdateTime = ZeroTime\<rparr>"

definition new_WorkStatus :: "string \<Rightarrow> string \<Rightarrow> WorkStatus" where
  "new_WorkStatus ns name =
     \<lparr>ws_ObjectMeta = new_meta ns name, ws_Spec = \<lparr>ws_SourceRef = zero_SourceRef\<rparr>,
      ws_Status = \<lparr>Raw = ''''\<rparr>, ws_StatusDetails = zero_StatusDetails\<rparr>"

section \<open>Functions of the Kubernetes libraries, as parameters\<close>

record k8slib =
  GroupVersion_String :: "string \<Rightarrow> string \<Rightarrow> string"
  GroupVersionKind_String :: "GroupVersionKind \<Rightarrow> string"
  MetaNamespaceKeyFunc :: "go_any \<Rightarrow> go_error + string"
  SplitMetaNamespaceKey :: "string \<Rightarrow> go_error + string \<times> string"
  IsNotFound :: "go_error \<Rightarrow> bool"
  FromUnstructured :: "runtime_object \<Rightarrow> go_error + AppliedManifestWork"
  NestedFieldNoCopy :: "(string, json) fmap \<Rightarrow> string \<Rightarrow> go_error + json option"
  ToUnstructured :: "json \<Rightarrow> go_error + json"
  ToUnstructured_object :: "runtime_object \<Rightarrow> go_error + GroupVersionKind \<times> ObjectMeta \<times> (string, json) fmap"
  json_Marshal :: "json \<Rightarrow> go_error + string"
  SetControllerReference :: "ObjectMeta \<Rightarrow> ObjectMeta \<Rightarrow> go_error + ObjectMeta"

subsection \<open>Documented behaviour the program relies on\<close>

text \<open>
  \<^verbatim>\<open>GroupVersion.String\<close>: group and version joined by a slash, the version alone for the legacy
  group. \<^verbatim>\<open>GroupVersionKind.String\<close>: the form the excluded kinds are written in.
\<close>

definition gv_string_doc :: "'x k8slib_scheme \<Rightarrow> bool" where
  "gv_string_doc L \<longleftrightarrow>
     (\<forall>g v. GroupVersion_String L g v = (if g = '''' then v else g @ ''/'' @ v))"

definition gvk_string_doc :: "'x k8slib_scheme \<Rightarrow> bool" where
  "gvk_string_doc L \<longleftrightarrow>
     (\<forall>k. GroupVersionKind_String L k = gvk_Group k @ ''/'' @ gvk_Version k @ '', Kind='' @ gvk_Kind k)"

text \<open>
  \<^verbatim>\<open>MetaNamespaceKeyFunc\<close> gives \<open>namespace/name\<close>, or the name alone for an object without a
  namespace; \<^verbatim>\<open>SplitMetaNamespaceKey\<close> gives back what it encoded.
\<close>

definition meta_key_doc :: "'x k8slib_scheme \<Rightarrow> bool" where
  "meta_key_doc L \<longleftrightarrow>
     (\<forall>obj. MetaNamespaceKeyFunc L (AnyObject obj) =
        Inr (if om_Namespace (obj_meta obj) = '''' then om_Name (obj_meta obj)
             else om_Namespace (obj_meta obj) @ ''/'' @ om_Name (obj_meta obj)))"

definition split_key_doc :: "'x k8slib_scheme \<Rightarrow> bool" where
  "split_key_doc L \<longleftrightarrow>
     (\<forall>ns name. CHR ''/'' \<notin> set ns \<longrightarrow> CHR ''/'' \<notin> set name \<longrightarrow>
        SplitMetaNamespaceKey L name = Inr ('''', name) \<and>
        SplitMetaNamespaceKey L (ns @ ''/'' @ name) = Inr (ns, name))"

text \<open>\<^verbatim>\<open>NestedFieldNoCopy\<close> reads a top-level field, and reports whether it was found.\<close>

definition nested_field_doc :: "'x k8slib_scheme \<Rightarrow> bool" where
  "nested_field_doc L \<longleftrightarrow> (\<forall>c f. NestedFieldNoCopy L c f = Inr (fmlookup c f))"

text \<open>\<^verbatim>\<open>IsNotFound\<close> is false of an error that carries no API status.\<close>

definition not_found_doc :: "'x k8slib_scheme \<Rightarrow> bool" where
  "not_found_doc L \<longleftrightarrow> (\<forall>m. \<not> IsNotFound L (Errorf m))"

text \<open>
  One choice of these functions that behaves as documented; it shows that the hypotheses can hold
  together and serves the concrete examples.
\<close>

definition doc_split_key :: "string \<Rightarrow> go_error + string \<times> string" where
  "doc_split_key k =
     (let a = takeWhile (\<lambda>c. c \<noteq> CHR ''/'') k; b = dropWhile (\<lambda>c. c \<noteq> CHR ''/'') k in
      if b = '''' then Inr ('''', k)
      else if CHR ''/'' \<in> set (tl b) then Inl (Errorf (''unexpected key format: '' @ k))
      else Inr (a, tl b))"

definition doc_meta_key :: "go_any \<Rightarrow> go_error + string" where
  "doc_meta_key x =
     (case x of
        AnyObject obj \<Rightarrow> Inr (if om_Namespace (obj_meta obj) = '''' then om_Name (obj_meta obj)
          else om_Namespace (obj_meta obj) @ ''/'' @ om_Name (obj_meta obj))
      | _ \<Rightarrow> Inl (Errorf ''object has no meta''))"

definition doc_lib :: k8slib where
  "doc_lib = \<lparr>
     GroupVersion_String = (\<lambda>g v. if g = '''' then v else g @ ''/'' @ v),
     GroupVersionKind_String = (\<lambda>k. gvk_Group k @ ''/'' @ gvk_Version k @ '', Kind='' @ gvk_Kind k),
     MetaNamespaceKeyFunc = doc_meta_key,
     SplitMetaNamespaceKey = doc_split_key,
     IsNotFound = (\<lambda>e. case e of Extern r m \<Rightarrow> r = ''NotFound'' | _ \<Rightarrow> False),
     FromUnstructured = (\<lambda>obj. Inr \<lparr>amw_ObjectMeta = obj_meta obj, amw_ManifestWorkName = ''work'',
        amw_AppliedResources = []\<rparr>),
     NestedFieldNoCopy = (\<lambda>c f. Inr (fmlookup c f)),
     ToUnstructured = Inr,
     ToUnstructured_object = (\<lambda>obj. Inr (obj_gvk obj, obj_meta obj, fmempty)),
     json_Marshal = (\<lambda>j. Inr ''{}''),
     SetControllerReference = (\<lambda>owner m. Inr (m\<lparr>om_OwnerReferences :=
        [\<lparr>or_APIVersion = ''work.open-cluster-management.io/v1'', or_Kind = ''ManifestWork'',
          or_Name = om_Name owner, or_UID = om_UID owner, or_Controller = True\<rparr>]\<rparr>))\<rparr>"

section \<open>Lemmas\<close>

lemma obj_meta_set [simp]: "obj_meta (obj_set_meta m o') = m"
  by (cases o') auto

lemma obj_gvk_set [simp]: "obj_gvk (obj_set_meta m o') = obj_gvk o'"
  by (cases o') auto

lemma doc_split_key_plain:
  assumes "CHR ''/'' \<notin> set ns" and "CHR ''/'' \<notin> set name"
  shows "doc_split_key name = Inr ('''', name)" "doc_split_key (ns @ ''/'' @ name) = Inr (ns, name)"
proof -
  have "dropWhile (\<lambda>c. c \<noteq> CHR ''/'') name = []"
    using assms(2) by (auto simp: dropWhile_eq_Nil_conv)
  then show "doc_split_key name = Inr ('''', name)"
    by (simp add: doc_split_key_def Let_def)
  have "takeWhile (\<lambda>c. c \<noteq> CHR ''/'') (ns @ CHR ''/'' # name) = ns"
    "dropWhile (\<lambda>c. c \<noteq> CHR ''/'') (ns @ CHR ''/'' # name) = CHR ''/'' # name"
    using assms(1) by (auto simp: takeWhile_append dropWhile_append)
  then show "doc_split_key (ns @ ''/'' @ name) = Inr (ns, name)"
    using assms(2) by (simp add: doc_split_key_def Let_def)
qed

lemma doc_lib_laws:
  "gv_string_doc doc_lib" "gvk_string_doc doc_lib" "meta_key_doc doc_lib" "split_key_doc doc_lib"
  "nested_field_doc doc_lib" "not_found_doc doc_lib"
  by (simp_all add: gv_string_doc_def gvk_string_doc_def meta_key_doc_def split_key_doc_def
      nested_field_doc_def not_found_doc_def doc_lib_def doc_meta_key_def doc_split_key_plain [simplified])

end
