(* ===== verification/Safemaps.thy ===== *)
theory Safemaps
  imports K8s
begin

text \<open>
  pkg/util/safemaps.go: the thread-safe maps of the agent. Every method holds the mutex from its
  first to its last statement, so each is one atomic operation on the table: the mutex itself
  has no other effect and is not part of the state. \<open>SafeMap\<close> maps a string to a value;
  \<open>SafeUIDMap\<close> maps a key to a set of UIDs, kept as a table from UID to true.

  Two contracts follow as locales: \<open>keyed_store\<close> (a map seen through its lookups) and
  \<open>uid_index\<close> (a family of finite sets with counts), with the lemmas their clients use, and
  both are interpreted on the two types.
\<close>

section \<open>Definitions\<close>

record 'a SafeMap =
  sm_v :: "(string, 'a) fmap"

definition NewSafeMap :: "'a SafeMap" where
  "NewSafeMap = \<lparr>sm_v = fmempty\<rparr>"

definition SafeMap_Set :: "string \<Rightarrow> 'a \<Rightarrow> 'a SafeMap \<Rightarrow> 'a SafeMap" where
  "SafeMap_Set key value s = s\<lparr>sm_v := fmupd key value (sm_v s)\<rparr>"

definition SafeMap_Delete :: "string \<Rightarrow> 'a SafeMap \<Rightarrow> 'a SafeMap" where
  "SafeMap_Delete key s = s\<lparr>sm_v := fmdrop key (sm_v s)\<rparr>"

definition SafeMap_Get :: "'a SafeMap \<Rightarrow> string \<Rightarrow> 'a option" where
  "SafeMap_Get s key = fmlookup (sm_v s) key"

definition SafeMap_ListValues :: "range_fun \<Rightarrow> 'a SafeMap \<Rightarrow> 'a list" where
  "SafeMap_ListValues ord s = List.map_filter (fmlookup (sm_v s)) (ord (fmdom (sm_v s)))"

record SafeUIDMap =
  uid_v :: "(string, (string, bool) fmap) fmap"

definition NewSafeUIDMap :: SafeUIDMap where
  "NewSafeUIDMap = \<lparr>uid_v = fmempty\<rparr>"

definition AddUID :: "string \<Rightarrow> string \<Rightarrow> SafeUIDMap \<Rightarrow> SafeUIDMap" where
  "AddUID key uid s =
     (let t = (case fmlookup (uid_v s) key of None \<Rightarrow> fmempty | Some k \<Rightarrow> k)
      in s\<lparr>uid_v := fmupd key (fmupd uid True t) (uid_v s)\<rparr>)"

definition DeleteUID :: "string \<Rightarrow> string \<Rightarrow> SafeUIDMap \<Rightarrow> SafeUIDMap" where
  "DeleteUID key uid s =
     (case fmlookup (uid_v s) key of
        None \<Rightarrow> s
      | Some k \<Rightarrow> s\<lparr>uid_v := fmupd key (fmdrop uid k) (uid_v s)\<rparr>)"

definition GetUIDCount :: "SafeUIDMap \<Rightarrow> string \<Rightarrow> nat" where
  "GetUIDCount s key =
     (case fmlookup (uid_v s) key of None \<Rightarrow> 0 | Some k \<Rightarrow> fcard (fmdom k))"

text \<open>The abstraction of the table: the UIDs recorded under a key.\<close>

definition uids_of :: "SafeUIDMap \<Rightarrow> string \<Rightarrow> string set" where
  "uids_of s key = (case fmlookup (uid_v s) key of None \<Rightarrow> {} | Some k \<Rightarrow> fmdom' k)"

record AppliedManifestInfo =
  ObjectUIDs :: "string list"
  GVRs :: "GroupVersionResource list"

record Names =
  ManifestName :: string
  WorkStatusName :: string

fun HasPrefixInMap_loop :: "string list \<Rightarrow> string \<Rightarrow> bool" where
  "HasPrefixInMap_loop [] p = False"
| "HasPrefixInMap_loop (key # ks) p =
     (if strings_HasPrefix key p then True else HasPrefixInMap_loop ks p)"

definition HasPrefixInMap :: "range_fun \<Rightarrow> string gomap \<Rightarrow> string \<Rightarrow> bool" where
  "HasPrefixInMap ord m p =
     (case m of None \<Rightarrow> False | Some t \<Rightarrow> HasPrefixInMap_loop (ord (fmdom t)) p)"

section \<open>The contract of a keyed store\<close>

locale keyed_store =
  fixes empty :: 's
    and put :: "string \<Rightarrow> 'a \<Rightarrow> 's \<Rightarrow> 's"
    and del :: "string \<Rightarrow> 's \<Rightarrow> 's"
    and get :: "'s \<Rightarrow> string \<Rightarrow> 'a option"
  assumes get_empty: "get empty k = None"
    and get_put: "get (put k x s) k' = (if k' = k then Some x else get s k')"
    and get_del: "get (del k s) k' = (if k' = k then None else get s k')"
begin

lemma dom_put: "dom (get (put k x s)) = insert k (dom (get s))"
  by (auto simp: get_put split: if_splits)

lemma dom_del: "dom (get (del k s)) = dom (get s) - {k}"
  by (auto simp: get_del split: if_splits)

lemma dom_empty: "dom (get empty) = {}"
  by (auto simp: get_empty)

lemma del_put_same: "get (del k (put k x s)) = (get s)(k := None)"
  by (auto simp: get_put get_del fun_eq_iff)

lemma put_commute: "k \<noteq> k' \<Longrightarrow> get (put k x (put k' y s)) = get (put k' y (put k x s))"
  by (auto simp: get_put fun_eq_iff)

end

text \<open>
  Two stores that a client writes under the same keys keep the same keys: the informers, the
  listers and the stoppers of the agent are such stores.
\<close>

locale store_pair =
  left: keyed_store empty1 put1 del1 get1 + right: keyed_store empty2 put2 del2 get2
  for empty1 :: 's and put1 :: "string \<Rightarrow> 'a \<Rightarrow> 's \<Rightarrow> 's" and del1 get1
    and empty2 :: 't and put2 :: "string \<Rightarrow> 'b \<Rightarrow> 't \<Rightarrow> 't" and del2 get2
begin

lemma sync_put: "dom (get1 s) = dom (get2 t) \<Longrightarrow> dom (get1 (put1 k x s)) = dom (get2 (put2 k y t))"
  by (simp add: left.dom_put right.dom_put)

lemma sync_del: "dom (get1 s) = dom (get2 t) \<Longrightarrow> dom (get1 (del1 k s)) = dom (get2 (del2 k t))"
  by (simp add: left.dom_del right.dom_del)

lemma sync_empty: "dom (get1 empty1) = dom (get2 empty2)"
  by (simp add: left.dom_empty right.dom_empty)

end

section \<open>The contract of an index of UIDs\<close>

locale uid_index =
  fixes new :: 's
    and add :: "string \<Rightarrow> string \<Rightarrow> 's \<Rightarrow> 's"
    and del :: "string \<Rightarrow> string \<Rightarrow> 's \<Rightarrow> 's"
    and members :: "'s \<Rightarrow> string \<Rightarrow> string set"
    and count :: "'s \<Rightarrow> string \<Rightarrow> nat"
  assumes members_new: "members new k = {}"
    and members_add: "members (add k u s) k' = (if k' = k then insert u (members s k) else members s k')"
    and members_del: "members (del k u s) k' = (if k' = k then members s k - {u} else members s k')"
    and members_finite: "finite (members s k)"
    and count_card: "count s k = card (members s k)"
begin

lemma count_zero_iff: "count s k = 0 \<longleftrightarrow> members s k = {}"
  by (simp add: count_card members_finite)

lemma count_add_one_iff: "count (add k u s) k = 1 \<longleftrightarrow> members s k \<subseteq> {u}"
  by (auto simp: count_card members_add card_1_singleton_iff)

lemma count_add_other: "k' \<noteq> k \<Longrightarrow> count (add k u s) k' = count s k'"
  by (simp add: count_card members_add)

lemma count_add_fresh: "u \<notin> members s k \<Longrightarrow> count (add k u s) k = Suc (count s k)"
  by (simp add: count_card members_add members_finite)

lemma count_del_zero_iff: "count (del k u s) k = 0 \<longleftrightarrow> members s k \<subseteq> {u}"
  by (auto simp: count_zero_iff members_del)

lemma add_del_fresh: "u \<notin> members s k \<Longrightarrow> members (del k u (add k u s)) = members s"
  by (auto simp: fun_eq_iff members_add members_del)

lemma add_idem: "members (add k u (add k u s)) = members (add k u s)"
  by (auto simp: fun_eq_iff members_add)

end

section \<open>Both contracts hold of the agent's maps\<close>

interpretation sm: keyed_store NewSafeMap SafeMap_Set SafeMap_Delete SafeMap_Get
  by unfold_locales (auto simp: NewSafeMap_def SafeMap_Set_def SafeMap_Delete_def SafeMap_Get_def)

interpretation sp: store_pair NewSafeMap SafeMap_Set SafeMap_Delete SafeMap_Get
    NewSafeMap SafeMap_Set SafeMap_Delete SafeMap_Get
  by unfold_locales

lemma uids_of_add: "uids_of (AddUID key uid s) k =
    (if k = key then insert uid (uids_of s key) else uids_of s k)"
  by (auto simp: uids_of_def AddUID_def Let_def fmdom'_alt_def split: option.splits if_splits)

lemma uids_of_delete: "uids_of (DeleteUID key uid s) k =
    (if k = key then uids_of s key - {uid} else uids_of s k)"
  by (auto simp: uids_of_def DeleteUID_def fmdom'_alt_def split: option.splits)

interpretation uid: uid_index NewSafeUIDMap AddUID DeleteUID uids_of GetUIDCount
proof unfold_locales
  fix k show "uids_of NewSafeUIDMap k = {}"
    by (simp add: uids_of_def NewSafeUIDMap_def)
next
  fix s k show "finite (uids_of s k)"
    by (simp add: uids_of_def fmdom'_alt_def split: option.split)
next
  fix s k show "GetUIDCount s k = card (uids_of s k)"
    by (simp add: uids_of_def GetUIDCount_def fmdom'_alt_def fcard.rep_eq split: option.split)
qed (rule uids_of_add uids_of_delete)+

lemmas sm_simps [agent_simps, simp] = sm.get_empty sm.get_put sm.get_del

lemmas uid_simps [agent_simps, simp] = uid.members_new uid.members_add uid.members_del

section \<open>Listing values and prefixes\<close>

lemma map_filter_image: "set (List.map_filter f xs) = {y. \<exists>x \<in> set xs. f x = Some y}"
  by (auto simp: List.map_filter_def image_iff) (metis option.sel option.distinct(1))

lemma set_ListValues: "range_orders ord \<Longrightarrow> set (SafeMap_ListValues ord s) = {x. \<exists>k. SafeMap_Get s k = Some x}"
  by (auto simp: SafeMap_ListValues_def SafeMap_Get_def map_filter_image range_orders_set fmlookup_dom_iff)

lemma HasPrefixInMap_loop_iff: "HasPrefixInMap_loop ks p \<longleftrightarrow> (\<exists>k \<in> set ks. strings_HasPrefix k p)"
  by (induction ks) auto

lemma HasPrefixInMap_iff:
  assumes "range_orders ord"
  shows "HasPrefixInMap ord m p \<longleftrightarrow> (\<exists>k v. gomap_get m k = Some v \<and> strings_HasPrefix k p)"
  using assms
  by (auto simp: HasPrefixInMap_def HasPrefixInMap_loop_iff gomap_get_def range_orders_set
      fmlookup_dom_iff split: option.splits)

end
