(* ===== verification/Keys.thy ===== *)
theory Keys
  imports Safemaps
begin

text \<open>
  pkg/util/keys.go: the keys of the work queue and of the registries. A queue key names the kind
  of an object (as the listers are indexed) and its namespace and name; for a deleted object it
  also carries a copy. The theory shows that the two ways the code computes the kind's key
  agree, and that different kinds get different keys (locale \<open>kind_registry\<close>, interpreted on
  the agent's maps and the code's key function).
\<close>

section \<open>Definitions\<close>

record Key =
  GvkKey :: string
  NamespaceNameKey :: string
  DeletedObject :: "runtime_object option"

text \<open>The unchecked type assertion \<^verbatim>\<open>obj.(runtime.Object)\<close> (and \<^verbatim>\<open>obj.(metav1.Object)\<close>).\<close>

fun as_runtime_object :: "go_any \<Rightarrow> runtime_object outcome" where
  "as_runtime_object (AnyObject obj) = Ret obj"
| "as_runtime_object _ = Panic ''interface conversion''"

definition KeyForGroupVersionKindNamespaceName ::
    "'x k8slib_scheme \<Rightarrow> go_any \<Rightarrow> (go_error + Key) outcome" where
  "KeyForGroupVersionKindNamespaceName L obj =
     bindO (as_runtime_object obj) (\<lambda>rObj.
       let gvk = obj_gvk rObj in
       case MetaNamespaceKeyFunc L obj of
         Inl err \<Rightarrow> Ret (Inl err)
       | Inr namespaceName \<Rightarrow>
           Ret (Inr \<lparr>GvkKey = GroupVersion_String L (gvk_Group gvk) (gvk_Version gvk) @ ''/'' @ gvk_Kind gvk,
                     NamespaceNameKey = namespaceName, DeletedObject = None\<rparr>))"

definition KeyForGroupVersionKind :: "string \<Rightarrow> string \<Rightarrow> string \<Rightarrow> string" where
  "KeyForGroupVersionKind grp version kind =
     (if grp = '''' then version @ ''/'' @ kind else grp @ ''/'' @ version @ ''/'' @ kind)"

definition GenerateObjectInfoString :: "runtime_object \<Rightarrow> string" where
  "GenerateObjectInfoString obj =
     (let grp = gvk_Group (obj_gvk obj);
          kind = strings_ToLower (gvk_Kind (obj_gvk obj));
          p = (if grp \<noteq> '''' then kind @ ''.'' @ grp else kind)
      in ''['' @ om_Namespace (obj_meta obj) @ ''] '' @ p @ ''/'' @ om_Name (obj_meta obj))"

text \<open>The key of a kind, as the registries are indexed; a kind is plain if its version and kind have no slash.\<close>

definition gvk_key :: "GroupVersionKind \<Rightarrow> string" where
  "gvk_key g = KeyForGroupVersionKind (gvk_Group g) (gvk_Version g) (gvk_Kind g)"

definition plain_gvk :: "GroupVersionKind \<Rightarrow> bool" where
  "plain_gvk g \<longleftrightarrow> CHR ''/'' \<notin> set (gvk_Version g) \<and> CHR ''/'' \<notin> set (gvk_Kind g)"

section \<open>Registries indexed by kind\<close>

locale kind_registry = keyed_store +
  fixes enc :: "GroupVersionKind \<Rightarrow> string" and wf :: "GroupVersionKind \<Rightarrow> bool"
  assumes enc_inject: "wf a \<Longrightarrow> wf b \<Longrightarrow> enc a = enc b \<Longrightarrow> a = b"
begin

lemma get_put_kind: "wf a \<Longrightarrow> wf b \<Longrightarrow> get (put (enc a) x s) (enc b) = (if b = a then Some x else get s (enc b))"
  by (auto simp: get_put dest: enc_inject)

lemma get_del_kind: "wf a \<Longrightarrow> wf b \<Longrightarrow> get (del (enc a) s) (enc b) = (if b = a then None else get s (enc b))"
  by (auto simp: get_del dest: enc_inject)

end

section \<open>Keys of kinds\<close>

lemma key_with_group: "g \<noteq> '''' \<Longrightarrow> KeyForGroupVersionKind g v k = (g @ ''/'' @ v) @ CHR ''/'' # k"
  by (simp add: KeyForGroupVersionKind_def)

lemma key_without_group: "KeyForGroupVersionKind '''' v k = v @ CHR ''/'' # k"
  by (simp add: KeyForGroupVersionKind_def)

lemma gvk_key_inject:
  assumes "plain_gvk a" and "plain_gvk b" and eq: "gvk_key a = gvk_key b"
  shows "a = b"
proof -
  let ?prefix = "\<lambda>g. if gvk_Group g = '''' then gvk_Version g else gvk_Group g @ CHR ''/'' # gvk_Version g"
  have shape: "gvk_key g = ?prefix g @ CHR ''/'' # gvk_Kind g" for g
    by (simp add: gvk_key_def KeyForGroupVersionKind_def)
  have "?prefix a = ?prefix b" and kind: "gvk_Kind a = gvk_Kind b"
    using eq assms append_sep_inject_last [of "CHR ''/''" "gvk_Kind a" "gvk_Kind b" "?prefix a" "?prefix b"]
    unfolding shape plain_gvk_def by blast+
  then have "gvk_Group a = gvk_Group b \<and> gvk_Version a = gvk_Version b"
    using assms append_sep_inject_last [of "CHR ''/''" "gvk_Version a" "gvk_Version b" "gvk_Group a" "gvk_Group b"]
    by (auto simp: plain_gvk_def append_sep_neq split: if_splits)
  with kind show ?thesis by simp
qed

interpretation reg: kind_registry NewSafeMap SafeMap_Set SafeMap_Delete SafeMap_Get gvk_key plain_gvk
  by unfold_locales (rule gvk_key_inject)

lemma KeyForNN_object:
  "KeyForGroupVersionKindNamespaceName L (AnyObject obj) =
     Ret (map_sum id (\<lambda>n. \<lparr>GvkKey = GroupVersion_String L (gvk_Group (obj_gvk obj)) (gvk_Version (obj_gvk obj))
            @ ''/'' @ gvk_Kind (obj_gvk obj), NamespaceNameKey = n, DeletedObject = None\<rparr>)
          (MetaNamespaceKeyFunc L (AnyObject obj)))"
  by (simp add: KeyForGroupVersionKindNamespaceName_def Let_def split: sum.split)

lemma gv_string_key:
  "gv_string_doc L \<Longrightarrow> GroupVersion_String L g v @ ''/'' @ k = KeyForGroupVersionKind g v k"
  by (simp add: gv_string_doc_def KeyForGroupVersionKind_def)

lemma KeyForNN_documented:
  assumes "gv_string_doc L" and "meta_key_doc L"
  shows "KeyForGroupVersionKindNamespaceName L (AnyObject obj) =
    Ret (Inr \<lparr>GvkKey = gvk_key (obj_gvk obj),
              NamespaceNameKey = (if om_Namespace (obj_meta obj) = '''' then om_Name (obj_meta obj)
                else om_Namespace (obj_meta obj) @ ''/'' @ om_Name (obj_meta obj)),
              DeletedObject = None\<rparr>)"
  using assms gv_string_key [OF assms(1)]
  by (simp add: KeyForNN_object meta_key_doc_def gvk_key_def)

end
