(* ===== verification/Unstructured_Objects.thy ===== *)
theory Unstructured_Objects
  imports Keys
begin

text \<open>
  pkg/util/unstructured.go: tests on the kind of an object, the reduced copy kept for a deleted
  object, the lookup of an object from a queue key, the status of an object as bytes, and the
  resource of a kind. Listers are handles; reading a lister at some moment is a \<open>lister_view\<close>,
  a parameter (client-go's caches).
\<close>

section \<open>Definitions\<close>

definition CRDKind :: string where "CRDKind = ''CustomResourceDefinition''"
definition CRDGroup :: string where "CRDGroup = ''apiextensions.k8s.io''"
definition CRDVersion :: string where "CRDVersion = ''v1''"
definition AppliedManifestWorkKind :: string where "AppliedManifestWorkKind = ''AppliedManifestWork''"
definition AppliedManifestWorkResource :: string where "AppliedManifestWorkResource = ''appliedmanifestworks''"

fun getObjectGVK :: "go_any \<Rightarrow> go_error + GroupVersionKind" where
  "getObjectGVK (AnyObject obj) = Inr (obj_gvk obj)"
| "getObjectGVK (AnyUnstructured g m) = Inr g"
| "getObjectGVK (DeletedFinalStateUnknown k x) = Inl (Errorf ''object is of wrong type: '')"
| "getObjectGVK (AnyOther d) = Inl (Errorf (''object is of wrong type: '' @ d))"

definition matchesGVK :: "go_any \<Rightarrow> string \<Rightarrow> string \<Rightarrow> string \<Rightarrow> bool" where
  "matchesGVK x grp version kind =
     (case getObjectGVK x of
        Inl err \<Rightarrow> False
      | Inr gvk \<Rightarrow> gvk_Group gvk = grp \<and> gvk_Version gvk = version \<and> gvk_Kind gvk = kind)"

definition IsCRD :: "go_any \<Rightarrow> bool" where
  "IsCRD x = matchesGVK x CRDGroup CRDVersion CRDKind"

definition IsAppliedManifestWork :: "go_any \<Rightarrow> bool" where
  "IsAppliedManifestWork x = matchesGVK x workv1_Group workv1_Version AppliedManifestWorkKind"

definition last_applied_annotation :: string where
  "last_applied_annotation = ''kubectl.kubernetes.io/last-applied-configuration''"

definition ZeroFields :: "runtime_object \<Rightarrow> runtime_object" where
  "ZeroFields obj =
     obj_set_meta
       ((obj_meta obj)\<lparr>om_ManagedFields := [], om_CreationTimestamp := ZeroTime, om_Generation := 0,
          om_ResourceVersion := '''', om_UID := '''',
          om_Annotations := gomap_delete (om_Annotations (obj_meta obj)) last_applied_annotation\<rparr>)
       obj"

text \<open>
  \<^verbatim>\<open>reflect.Value.FieldByName\<close> followed by \<^verbatim>\<open>Set(Zero)\<close> when the field is valid. The struct
  \<^verbatim>\<open>unstructured.Unstructured\<close> has the single field \<^verbatim>\<open>Object\<close>.
\<close>

fun zero_struct_field :: "string \<Rightarrow> runtime_object \<Rightarrow> runtime_object" where
  "zero_struct_field name (Struct g m f) =
     (if fmlookup f name \<noteq> None then Struct g m (fmupd name FZero f) else Struct g m f)"
| "zero_struct_field name (Unstructured g m c) = Unstructured g m c"

definition CopyObjectMetaAndType :: "runtime_object \<Rightarrow> runtime_object" where
  "CopyObjectMetaAndType obj =
     (let dest = ZeroFields obj;
          dest = zero_struct_field ''Spec'' dest;
          dest = zero_struct_field ''Status'' dest
      in dest)"

definition IsBeingDeleted :: "runtime_object \<Rightarrow> bool" where
  "IsBeingDeleted obj = (om_DeletionTimestamp (obj_meta obj) \<noteq> None)"

record 'l lister_view =
  lister_Get :: "'l \<Rightarrow> string \<Rightarrow> go_error + runtime_object"
  lister_ByNamespace_Get :: "'l \<Rightarrow> string \<Rightarrow> string \<Rightarrow> go_error + runtime_object"

definition getObject :: "'l lister_view \<Rightarrow> 'l \<Rightarrow> string \<Rightarrow> string \<Rightarrow> go_error + runtime_object" where
  "getObject V lister namespace name =
     (if namespace \<noteq> '''' then lister_ByNamespace_Get V lister namespace name
      else lister_Get V lister name)"

definition lister_missing :: "string \<Rightarrow> go_error" where
  "lister_missing k = Errorf (''could not get lister for key: '' @ k)"

definition GetObjectFromKey ::
    "'x k8slib_scheme \<Rightarrow> 'l lister_view \<Rightarrow> 'l SafeMap \<Rightarrow> Key \<Rightarrow> go_error + runtime_object" where
  "GetObjectFromKey L V listers key =
     (case SafeMap_Get listers (GvkKey key) of
        None \<Rightarrow> Inl (lister_missing (GvkKey key))
      | Some lister \<Rightarrow>
          (case SplitMetaNamespaceKey L (NamespaceNameKey key) of
             Inl err \<Rightarrow> Inl (Errorf (''invalid resource key: '' @ NamespaceNameKey key @ '' '' @ Error_msg err))
           | Inr (namespace, name) \<Rightarrow> getObject V lister namespace name))"

definition GetObjectStatusAsBytes :: "'x k8slib_scheme \<Rightarrow> runtime_object \<Rightarrow> go_error + string" where
  "GetObjectStatusAsBytes L obj =
     (case obj of
        Struct g m f \<Rightarrow> Inl (Errorf ''object is not a *unstructured.Unstructured'')
      | Unstructured g m c \<Rightarrow>
          (case NestedFieldNoCopy L c ''status'' of
             Inl err \<Rightarrow> Inl (Errorf (''error getting status: '' @ Error_msg err))
           | Inr None \<Rightarrow> Inl (Errorf ''status field not found'')
           | Inr (Some status) \<Rightarrow>
               (case ToUnstructured L status of
                  Inl err \<Rightarrow> Inl (Errorf (''error converting status to unstructured: '' @ Error_msg err))
                | Inr rawStatus \<Rightarrow> json_Marshal L rawStatus)))"

definition ConvertRuntimeObjectToUnstructured ::
    "'x k8slib_scheme \<Rightarrow> runtime_object \<Rightarrow> go_error + runtime_object" where
  "ConvertRuntimeObjectToUnstructured L obj =
     (case ToUnstructured_object L obj of
        Inl err \<Rightarrow> Inl (Errorf (''error converting runtime.Object to Unstructured: '' @ Error_msg err))
      | Inr (g, m, c) \<Rightarrow> Inr (Unstructured g m c))"

text \<open>\<^verbatim>\<open>GetGVR\<close>: the mapper is an interface value, nil or a mapper; \<open>RM\<close> is its method \<^verbatim>\<open>RESTMapping\<close>.\<close>

definition GetGVR ::
    "'x k8slib_scheme \<Rightarrow> ('m \<Rightarrow> string \<Rightarrow> string \<Rightarrow> string \<Rightarrow> go_error + GroupVersionResource) \<Rightarrow> 'm option \<Rightarrow>
     GroupVersionKind \<Rightarrow> (go_error + GroupVersionResource) outcome" where
  "GetGVR L RM mapper gvk =
     (case mapper of
        None \<Rightarrow> Panic ''nil pointer dereference''
      | Some m \<Rightarrow>
          (case RM m (gvk_Group gvk) (gvk_Kind gvk) (gvk_Version gvk) of
             Inl err \<Rightarrow> Ret (Inl (Wrapf (''could not get REST mapping for GVK '' @ GroupVersionKind_String L gvk @ '': '') err))
           | Inr gvr \<Rightarrow> Ret (Inr gvr)))"

section \<open>Lemmas\<close>

lemma IsAppliedManifestWork_iff:
  "IsAppliedManifestWork (AnyObject obj) \<longleftrightarrow>
     obj_gvk obj = \<lparr>gvk_Group = workv1_Group, gvk_Version = workv1_Version, gvk_Kind = AppliedManifestWorkKind\<rparr>"
  by (auto simp: IsAppliedManifestWork_def matchesGVK_def)

lemma zero_struct_field_meta [simp]: "obj_meta (zero_struct_field n o') = obj_meta o'"
  by (cases o') auto

lemma zero_struct_field_gvk [simp]: "obj_gvk (zero_struct_field n o') = obj_gvk o'"
  by (cases o') auto

lemma CopyObject_gvk [simp]: "obj_gvk (CopyObjectMetaAndType obj) = obj_gvk obj"
  by (simp add: CopyObjectMetaAndType_def ZeroFields_def Let_def)

lemma CopyObject_meta:
  "obj_meta (CopyObjectMetaAndType obj) = obj_meta (ZeroFields obj)"
  by (simp add: CopyObjectMetaAndType_def Let_def)

lemma CopyObject_kept [simp]:
  "om_Name (obj_meta (CopyObjectMetaAndType obj)) = om_Name (obj_meta obj)"
  "om_Namespace (obj_meta (CopyObjectMetaAndType obj)) = om_Namespace (obj_meta obj)"
  "om_OwnerReferences (obj_meta (CopyObjectMetaAndType obj)) = om_OwnerReferences (obj_meta obj)"
  "om_Labels (obj_meta (CopyObjectMetaAndType obj)) = om_Labels (obj_meta obj)"
  by (simp_all add: CopyObject_meta ZeroFields_def)

lemma GetObjectFromKey_missing:
  "SafeMap_Get listers (GvkKey key) = None \<Longrightarrow>
     GetObjectFromKey L V listers key = Inl (lister_missing (GvkKey key))"
  by (simp add: GetObjectFromKey_def)

text \<open>The lookup of the key made for an object asks the kind's lister for its namespace and name.\<close>

lemma GetObjectFromKey_of_object:
  assumes "gv_string_doc L" "meta_key_doc L" "split_key_doc L"
    and "CHR ''/'' \<notin> set (om_Namespace (obj_meta obj))" "CHR ''/'' \<notin> set (om_Name (obj_meta obj))"
    and "SafeMap_Get listers (gvk_key (obj_gvk obj)) = Some lister"
    and key: "KeyForGroupVersionKindNamespaceName L (AnyObject obj) = Ret (Inr key)"
  shows "GetObjectFromKey L V listers key =
    getObject V lister (om_Namespace (obj_meta obj)) (om_Name (obj_meta obj))"
proof -
  have k: "key = \<lparr>GvkKey = gvk_key (obj_gvk obj),
      NamespaceNameKey = (if om_Namespace (obj_meta obj) = '''' then om_Name (obj_meta obj)
        else om_Namespace (obj_meta obj) @ ''/'' @ om_Name (obj_meta obj)), DeletedObject = None\<rparr>"
    using KeyForNN_documented [OF assms(1,2), of obj] key by simp
  have "SplitMetaNamespaceKey L (NamespaceNameKey key) =
      Inr (om_Namespace (obj_meta obj), om_Name (obj_meta obj))"
    using assms(3-5) unfolding k split_key_doc_def by auto
  then show ?thesis
    using assms(6) by (simp add: GetObjectFromKey_def k)
qed

end
