(* ===== verification/Utils.thy ===== *)
theory Utils
  imports Unstructured_Objects
begin

text \<open>
  pkg/util/utils.go: the difference of two lists of tracked objects, the name of a WorkStatus, and
  the test for a missing lister. \<open>info_map\<close> is the abstract view of an \<open>AppliedManifestInfo\<close>: the
  resource of each UID, the last occurrence winning as in the code's tables; the difference is
  specified over it.
\<close>

section \<open>Definitions\<close>

text \<open>\<^verbatim>\<open>for i, val := range uids { m[val] = gvrs[i] }\<close>; an index past the end of \<open>gvrs\<close> panics.\<close>

fun index_by_uid :: "nat \<Rightarrow> string list \<Rightarrow> GroupVersionResource list \<Rightarrow>
    (string, GroupVersionResource) fmap \<Rightarrow> (string, GroupVersionResource) fmap outcome" where
  "index_by_uid i [] gvrs m = Ret m"
| "index_by_uid i (val # uids) gvrs m =
     (if i < length gvrs then index_by_uid (Suc i) uids gvrs (fmupd val (gvrs ! i) m)
      else Panic ''index out of range'')"

text \<open>The entries of a map in the order \<^verbatim>\<open>range\<close> visits them.\<close>

definition range_entries :: "range_fun \<Rightarrow> (string, 'v) fmap \<Rightarrow> (string \<times> 'v) list" where
  "range_entries ord m = List.map_filter (\<lambda>k. map_option (Pair k) (fmlookup m k)) (ord (fmdom m))"

definition no_info :: AppliedManifestInfo where
  "no_info = \<lparr>ObjectUIDs = [], GVRs = []\<rparr>"

definition append_info :: "AppliedManifestInfo \<Rightarrow> string \<Rightarrow> GroupVersionResource \<Rightarrow> AppliedManifestInfo" where
  "append_info info key gvr = info\<lparr>ObjectUIDs := ObjectUIDs info @ [key], GVRs := GVRs info @ [gvr]\<rparr>"

fun removed_loop :: "(string \<times> GroupVersionResource) list \<Rightarrow> (string, GroupVersionResource) fmap \<Rightarrow>
    AppliedManifestInfo \<Rightarrow> AppliedManifestInfo \<times> (string, GroupVersionResource) fmap" where
  "removed_loop [] mapUpdated removed = (removed, mapUpdated)"
| "removed_loop ((key, gvr) # es) mapUpdated removed =
     (case fmlookup mapUpdated key of
        None \<Rightarrow> removed_loop es mapUpdated (append_info removed key gvr)
      | Some _ \<Rightarrow> removed_loop es (fmdrop key mapUpdated) removed)"

fun added_loop :: "(string \<times> GroupVersionResource) list \<Rightarrow> AppliedManifestInfo \<Rightarrow> AppliedManifestInfo" where
  "added_loop [] added = added"
| "added_loop ((key, gvr) # es) added = added_loop es (append_info added key gvr)"

definition GetAddedRemovedInfo :: "range_fun \<Rightarrow> AppliedManifestInfo \<Rightarrow> AppliedManifestInfo \<Rightarrow>
    (AppliedManifestInfo \<times> AppliedManifestInfo) outcome" where
  "GetAddedRemovedInfo ord base updated =
     (if length (ObjectUIDs base) = 0 then Ret (updated, no_info)
      else if length (ObjectUIDs updated) = 0 then Ret (no_info, base)
      else
        bindO (index_by_uid 0 (ObjectUIDs base) (GVRs base) fmempty) (\<lambda>mapBase.
        bindO (index_by_uid 0 (ObjectUIDs updated) (GVRs updated) fmempty) (\<lambda>mapUpdated.
          let (removed, mapUpdated) = removed_loop (range_entries ord mapBase) mapUpdated no_info;
              added = added_loop (range_entries ord mapUpdated) no_info
          in Ret (added, removed))))"

definition truncateString :: "string \<Rightarrow> nat \<Rightarrow> string" where
  "truncateString s maxLen = (if length s > maxLen then take maxLen s else s)"

definition workstatus_long_name :: "'x k8slib_scheme \<Rightarrow> AppliedManifestWork \<Rightarrow> runtime_object \<Rightarrow> string" where
  "workstatus_long_name L aw obj =
     (let gvk = obj_gvk obj in
      om_UID (amw_ObjectMeta aw) @ ''-'' @
      strings_ToLower (strings_ReplaceAll (GroupVersion_String L (gvk_Group gvk) (gvk_Version gvk)) (CHR ''/'') '''') @ ''-'' @
      strings_ToLower (gvk_Kind gvk) @ ''-'' @
      om_Namespace (obj_meta obj) @ ''-'' @
      om_Name (obj_meta obj))"

definition BuildWorkstatusName :: "'x k8slib_scheme \<Rightarrow> AppliedManifestWork \<Rightarrow> runtime_object \<Rightarrow> string" where
  "BuildWorkstatusName L aw obj = truncateString (workstatus_long_name L aw obj) 253"

definition IsListerNotFound :: "go_error \<Rightarrow> bool" where
  "IsListerNotFound err = strings_Contains (Error_msg err) ''could not get lister for key''"

text \<open>Specification: pairs of UID and resource, well-formed lists, and the view as a map.\<close>

definition info_pairs :: "AppliedManifestInfo \<Rightarrow> (string \<times> GroupVersionResource) list" where
  "info_pairs info = zip (ObjectUIDs info) (GVRs info)"

definition wf_info :: "AppliedManifestInfo \<Rightarrow> bool" where
  "wf_info info \<longleftrightarrow> length (ObjectUIDs info) = length (GVRs info)"

definition info_map :: "AppliedManifestInfo \<Rightarrow> string \<rightharpoonup> GroupVersionResource" where
  "info_map info = map_of (rev (info_pairs info))"

section \<open>The two tables\<close>

lemma index_by_uid_zip:
  "length uids + i \<le> length gvrs \<Longrightarrow>
     \<exists>t. index_by_uid i uids gvrs m = Ret t \<and> fmlookup t = fmlookup m ++ map_of (rev (zip uids (drop i gvrs)))"
proof (induction i uids gvrs m rule: index_by_uid.induct)
  case (2 i val uids gvrs m)
  then have i: "i < length gvrs" by simp
  then have "drop i gvrs = gvrs ! i # drop (Suc i) gvrs" by (simp add: Cons_nth_drop_Suc)
  then have "map_of (rev (zip (val # uids) (drop i gvrs))) =
      [val \<mapsto> gvrs ! i] ++ map_of (rev (zip uids (drop (Suc i) gvrs)))"
    by (simp add: map_add_def fun_eq_iff split: option.split)
  moreover have "length uids + Suc i \<le> length gvrs" using 2(2) by simp
  with 2(1) [OF i] obtain t where "index_by_uid (Suc i) uids gvrs (fmupd val (gvrs ! i) m) = Ret t"
    and "fmlookup t = fmlookup (fmupd val (gvrs ! i) m) ++ map_of (rev (zip uids (drop (Suc i) gvrs)))"
    by blast
  ultimately show ?case using i by (simp add: map_add_def fun_eq_iff split: option.split)
qed simp

lemma fmempty_add [simp]: "fmlookup fmempty ++ f = f"
  by (simp add: map_add_def fun_eq_iff split: option.split)

lemma index_by_uid_info:
  assumes "wf_info info"
  obtains t where "index_by_uid 0 (ObjectUIDs info) (GVRs info) fmempty = Ret t" and "fmlookup t = info_map info"
  using assms index_by_uid_zip [of "ObjectUIDs info" 0 "GVRs info" fmempty]
  by (auto simp: wf_info_def info_map_def info_pairs_def)

lemma dom_info_map: "wf_info info \<Longrightarrow> dom (info_map info) = set (ObjectUIDs info)"
  by (simp add: info_map_def info_pairs_def wf_info_def dom_map_of_conv_image_fst set_zip_leftD
      flip: set_map)

lemma map_filter_Nil [simp]: "List.map_filter f [] = []"
  by (simp add: List.map_filter_def)

lemma map_filter_Cons [simp]:
  "List.map_filter f (x # xs) = (case f x of None \<Rightarrow> List.map_filter f xs | Some y \<Rightarrow> y # List.map_filter f xs)"
  by (simp add: List.map_filter_def split: option.split)

lemma fst_map_filter_pairs:
  "map fst (List.map_filter (\<lambda>k. map_option (Pair k) (f k)) ks) = filter (\<lambda>k. f k \<noteq> None) ks"
  by (induction ks) (auto split: option.split)

lemma range_entries_spec:
  assumes "range_orders ord"
  shows "distinct (map fst (range_entries ord m))" "map_of (range_entries ord m) = fmlookup m"
proof -
  show d: "distinct (map fst (range_entries ord m))"
    by (simp add: range_entries_def fst_map_filter_pairs range_orders_distinct [OF assms])
  have mem: "(k, g) \<in> set (range_entries ord m) \<longleftrightarrow> fmlookup m k = Some g" for k g
    by (auto simp: range_entries_def map_filter_image range_orders_set [OF assms] fmlookup_dom_iff)
  show "map_of (range_entries ord m) = fmlookup m"
  proof (rule ext)
    fix k show "map_of (range_entries ord m) k = fmlookup m k"
      using mem [of k] d by (cases "fmlookup m k") (auto simp: map_of_eq_None_iff image_iff)
  qed
qed

section \<open>The loops\<close>

definition info_ext :: "AppliedManifestInfo \<Rightarrow> (string \<times> GroupVersionResource) list \<Rightarrow> AppliedManifestInfo" where
  "info_ext info es = \<lparr>ObjectUIDs = ObjectUIDs info @ map fst es, GVRs = GVRs info @ map snd es\<rparr>"

lemma added_loop_eq: "added_loop es a = info_ext a es"
  by (induction es a rule: added_loop.induct) (simp_all add: info_ext_def append_info_def)

lemma removed_loop_eq:
  "distinct (map fst es) \<Longrightarrow>
   removed_loop es u r = (info_ext r (filter (\<lambda>(k, g). fmlookup u k = None) es), fmdrop_set (fst ` set es) u)"
proof (induction es u r rule: removed_loop.induct)
  case (1 u r)
  show ?case by (simp add: info_ext_def)
next
  case (2 key gvr es u r)
  show ?case
  proof (cases "fmlookup u key")
    case None
    then have "fmdrop_set (insert key S) u = fmdrop_set S u" for S
      by (auto intro: fmap_ext)
    with 2 None show ?thesis by (auto simp: info_ext_def append_info_def)
  next
    case (Some g)
    have "filter (\<lambda>(k, g). fmlookup (fmdrop key u) k = None) es = filter (\<lambda>(k, g). fmlookup u k = None) es"
      using 2(3) by (intro filter_cong refl) (auto simp: image_iff)
    moreover have "fmdrop_set S (fmdrop key u) = fmdrop_set (insert key S) u" for S
      by (auto intro: fmap_ext)
    ultimately show ?thesis using 2 Some by auto
  qed
qed

lemma info_map_ext_pairs:
  "distinct (map fst es) \<Longrightarrow> info_map (info_ext no_info es) = map_of es"
  by (simp add: info_map_def info_pairs_def info_ext_def no_info_def zip_map_fst_snd map_of_rev_distinct)

lemma wf_info_ext [simp]: "wf_info (info_ext no_info es)"
  by (simp add: wf_info_def info_ext_def no_info_def)

lemma info_map_no_info [simp]: "info_map no_info = Map.empty"
  by (simp add: info_map_def info_pairs_def no_info_def)

lemma wf_no_info [simp]: "wf_info no_info"
  by (simp add: wf_info_def no_info_def)

section \<open>The difference of two lists of tracked objects\<close>

lemma map_of_filter_key:
  "distinct (map fst es) \<Longrightarrow> map_of (filter (\<lambda>(k, g). P k) es) = (\<lambda>k. if P k then map_of es k else None)"
  by (induction es) (auto simp: fun_eq_iff)

lemma distinct_fst_filter: "distinct (map fst es) \<Longrightarrow> distinct (map fst (filter P es))"
  by (induction es) auto

lemma GetAddedRemovedInfo_tables:
  assumes "range_orders ord" "wf_info base" "wf_info updated"
    and "ObjectUIDs base \<noteq> []" "ObjectUIDs updated \<noteq> []"
  obtains eb eu where "GetAddedRemovedInfo ord base updated = Ret (info_ext no_info eu, info_ext no_info eb)"
    and "distinct (map fst eb)" and "distinct (map fst eu)"
    and "map_of eb = (\<lambda>u. if info_map updated u = None then info_map base u else None)"
    and "map_of eu = (\<lambda>u. if info_map base u = None then info_map updated u else None)"
proof -
  obtain tb where tb: "index_by_uid 0 (ObjectUIDs base) (GVRs base) fmempty = Ret tb" "fmlookup tb = info_map base"
    using assms(2) by (rule index_by_uid_info)
  obtain tu where tu: "index_by_uid 0 (ObjectUIDs updated) (GVRs updated) fmempty = Ret tu" "fmlookup tu = info_map updated"
    using assms(3) by (rule index_by_uid_info)
  note es = range_entries_spec [OF assms(1)]
  let ?eb = "filter (\<lambda>(k, g). fmlookup tu k = None) (range_entries ord tb)"
  let ?rest = "fmdrop_set (fst ` set (range_entries ord tb)) tu"
  have "fst ` set (range_entries ord tb) = dom (info_map base)"
    using es(2) [of tb] tb(2) by (metis dom_map_of_conv_image_fst)
  then have rest: "fmlookup ?rest = (\<lambda>u. if info_map base u = None then info_map updated u else None)"
    by (auto simp: fun_eq_iff tu(2) dom_def)
  have res: "GetAddedRemovedInfo ord base updated =
      Ret (info_ext no_info (range_entries ord ?rest), info_ext no_info ?eb)"
    using assms(4,5) by (simp add: GetAddedRemovedInfo_def tb tu removed_loop_eq [OF es(1)] added_loop_eq)
  have eb: "map_of ?eb = (\<lambda>u. if info_map updated u = None then info_map base u else None)"
    using map_of_filter_key [OF es(1) [of tb], of "\<lambda>k. fmlookup tu k = None"]
    by (auto simp: fun_eq_iff es(2) tb(2) tu(2))
  show thesis
    using res distinct_fst_filter [OF es(1)] es(1) eb by (rule that) (simp add: es(2) rest)
qed

lemma GetAddedRemovedInfo_spec:
  assumes "range_orders ord" "wf_info base" "wf_info updated"
  obtains added removed where "GetAddedRemovedInfo ord base updated = Ret (added, removed)"
    and "wf_info added" "wf_info removed"
    and "info_map added = info_map updated |` (- set (ObjectUIDs base))"
    and "info_map removed = info_map base |` (- set (ObjectUIDs updated))"
proof (cases "ObjectUIDs base = [] \<or> ObjectUIDs updated = []")
  case True
  have e: "wf_info i \<Longrightarrow> ObjectUIDs i = [] \<Longrightarrow> info_map i = Map.empty" for i
    by (simp add: info_map_def info_pairs_def)
  from True show thesis
    using assms(2,3) e that by (cases "ObjectUIDs base = []") (auto simp: GetAddedRemovedInfo_def restrict_map_def)
next
  case False
  then obtain eb eu where r: "GetAddedRemovedInfo ord base updated = Ret (info_ext no_info eu, info_ext no_info eb)"
    and d: "distinct (map fst eb)" "distinct (map fst eu)"
    and m: "map_of eb = (\<lambda>u. if info_map updated u = None then info_map base u else None)"
      "map_of eu = (\<lambda>u. if info_map base u = None then info_map updated u else None)"
    using GetAddedRemovedInfo_tables [OF assms] by blast
  have n: "u \<in> set (ObjectUIDs i) \<longleftrightarrow> info_map i u \<noteq> None" if "wf_info i" for u i
    using dom_info_map [OF that] by (auto simp: dom_def)
  show thesis
    using r by (rule that) (auto simp: info_map_ext_pairs d m restrict_map_def fun_eq_iff n assms(2,3))
qed

lemma GetAddedRemovedInfo_distinct:
  assumes "range_orders ord" "wf_info base" "wf_info updated" "distinct (ObjectUIDs base)" "distinct (ObjectUIDs updated)"
    and "GetAddedRemovedInfo ord base updated = Ret (added, removed)"
  shows "distinct (ObjectUIDs added) \<and> distinct (ObjectUIDs removed)"
proof (cases "ObjectUIDs base = [] \<or> ObjectUIDs updated = []")
  case True
  then show ?thesis
    using assms(4-6) by (cases "ObjectUIDs base = []") (auto simp: GetAddedRemovedInfo_def no_info_def)
next
  case False
  then obtain eb eu where "GetAddedRemovedInfo ord base updated = Ret (info_ext no_info eu, info_ext no_info eb)"
    "distinct (map fst eb)" "distinct (map fst eu)"
    using GetAddedRemovedInfo_tables [OF assms(1-3)] by blast
  then show ?thesis using assms(6) by (auto simp: info_ext_def no_info_def)
qed

lemma info_pairs_distinct:
  "wf_info i \<Longrightarrow> distinct (ObjectUIDs i) \<Longrightarrow> (u, g) \<in> set (info_pairs i) \<longleftrightarrow> info_map i u = Some g"
  by (simp add: info_map_def map_of_rev_distinct info_pairs_def wf_info_def)

lemma dom_info_restrict:
  "wf_info i \<Longrightarrow> wf_info j \<Longrightarrow> info_map i = info_map j |` S \<Longrightarrow> set (ObjectUIDs i) = set (ObjectUIDs j) \<inter> S"
  by (metis dom_info_map dom_restrict)

section \<open>Names of WorkStatus objects\<close>

lemma truncateString_length: "length (truncateString s n) \<le> n"
  by (simp add: truncateString_def)

lemma truncateString_id: "length s \<le> n \<Longrightarrow> truncateString s n = s"
  by (simp add: truncateString_def)

lemma take_truncateString: "m \<le> n \<Longrightarrow> take m (truncateString s n) = take m s"
  by (simp add: truncateString_def)

lemma IsListerNotFound_missing: "IsListerNotFound (lister_missing k)"
proof -
  have "''could not get lister for key: '' @ k = ''could not get lister for key'' @ '': '' @ k"
    by simp
  then show ?thesis
    unfolding IsListerNotFound_def lister_missing_def Error_msg.simps by (metis Contains_append_left)
qed

lemma workstatus_long_name_uid:
  "take (length (om_UID (amw_ObjectMeta aw))) (workstatus_long_name L aw obj) = om_UID (amw_ObjectMeta aw)"
  by (simp add: workstatus_long_name_def Let_def)

lemma workstatus_long_name_same_kind:
  "obj_gvk a = obj_gvk b \<Longrightarrow> workstatus_long_name L aw a = workstatus_long_name L aw b \<longleftrightarrow>
     om_Namespace (obj_meta a) @ ''-'' @ om_Name (obj_meta a) = om_Namespace (obj_meta b) @ ''-'' @ om_Name (obj_meta b)"
  by (simp add: workstatus_long_name_def Let_def)

section \<open>Properties\<close>

definition ex_gvr :: "string \<Rightarrow> GroupVersionResource" where
  "ex_gvr r = \<lparr>gvr_Group = ''apps'', gvr_Version = ''v1'', gvr_Resource = r\<rparr>"

definition ex_base :: AppliedManifestInfo where
  "ex_base = \<lparr>ObjectUIDs = [''u1'', ''u2''], GVRs = [ex_gvr ''deployments'', ex_gvr ''daemonsets'']\<rparr>"

definition ex_updated :: AppliedManifestInfo where
  "ex_updated = \<lparr>ObjectUIDs = [''u2'', ''u3''], GVRs = [ex_gvr ''daemonsets'', ex_gvr ''statefulsets'']\<rparr>"

definition ex_amw :: "string \<Rightarrow> AppliedManifestWork" where
  "ex_amw uid = \<lparr>amw_ObjectMeta = (new_meta '''' ''work'')\<lparr>om_UID := uid\<rparr>, amw_ManifestWorkName = ''work'',
     amw_AppliedResources = []\<rparr>"

definition ex_object :: "string \<Rightarrow> string \<Rightarrow> runtime_object" where
  "ex_object ns name = Unstructured \<lparr>gvk_Group = ''apps'', gvk_Version = ''v1'', gvk_Kind = ''Deployment''\<rparr>
     (new_meta ns name) (fmupd ''status'' (JObject []) fmempty)"

text \<open>
  Property C19: \<^verbatim>\<open>GetAddedRemovedInfo\<close> never panics on lists of equal length, whatever order the run
  time ranges over its tables in, and it computes the difference: the added pairs are the updated
  ones whose UID the base does not have, the removed pairs are the base ones whose UID the update
  does not have, so that base minus removed plus added has the UIDs of the update.
\<close>

theorem GetAddedRemovedInfo_correct:
  assumes "range_orders ord" "wf_info base" "wf_info updated"
  shows "\<exists>added removed. GetAddedRemovedInfo ord base updated = Ret (added, removed) \<and>
    wf_info added \<and> wf_info removed \<and>
    info_map added = info_map updated |` (- set (ObjectUIDs base)) \<and>
    info_map removed = info_map base |` (- set (ObjectUIDs updated)) \<and>
    set (ObjectUIDs base) - set (ObjectUIDs removed) \<union> set (ObjectUIDs added) = set (ObjectUIDs updated)"
proof -
  obtain a r where r: "GetAddedRemovedInfo ord base updated = Ret (a, r)" "wf_info a" "wf_info r"
    "info_map a = info_map updated |` (- set (ObjectUIDs base))"
    "info_map r = info_map base |` (- set (ObjectUIDs updated))"
    using GetAddedRemovedInfo_spec [OF assms] .
  have "set (ObjectUIDs base) - set (ObjectUIDs r) \<union> set (ObjectUIDs a) = set (ObjectUIDs updated)"
    using dom_info_restrict [OF r(2) assms(3) r(4)] dom_info_restrict [OF r(3) assms(2) r(5)] by blast
  with r show ?thesis by blast
qed

theorem GetAddedRemovedInfo_correct_witness:
  "\<exists>added removed. GetAddedRemovedInfo sorted_order ex_base ex_updated = Ret (added, removed) \<and>
     info_map added ''u3'' = Some (ex_gvr ''statefulsets'') \<and> info_map removed ''u1'' = Some (ex_gvr ''deployments'')"
  using GetAddedRemovedInfo_correct [OF sorted_order_range, of ex_base ex_updated]
  by (auto simp: wf_info_def ex_base_def ex_updated_def info_map_def info_pairs_def)

text \<open>
  A limit: an update that keeps the UIDs and changes resources (an object whose served version
  changed keeps its UID) is reported as no change at all: nothing is added and nothing removed.
\<close>

lemma GetAddedRemovedInfo_same_uids:
  assumes "range_orders ord" "wf_info base" "wf_info updated"
    and "set (ObjectUIDs base) = set (ObjectUIDs updated)"
  shows "GetAddedRemovedInfo ord base updated = Ret (no_info, no_info)"
proof -
  obtain a r where r: "GetAddedRemovedInfo ord base updated = Ret (a, r)" "wf_info a" "wf_info r"
    "info_map a = info_map updated |` (- set (ObjectUIDs base))"
    "info_map r = info_map base |` (- set (ObjectUIDs updated))"
    using GetAddedRemovedInfo_spec [OF assms(1-3)] .
  have "set (ObjectUIDs a) = {}" "set (ObjectUIDs r) = {}"
    using dom_info_restrict [OF r(2) assms(3) r(4)] dom_info_restrict [OF r(3) assms(2) r(5)] assms(4) by auto
  then have "a = no_info" "r = no_info"
    using r(2,3) by (simp_all add: wf_info_def no_info_def)
  with r(1) show ?thesis by simp
qed

text \<open>Property C29: the name of a WorkStatus never exceeds the 253 bytes Kubernetes allows for a name.\<close>

theorem BuildWorkstatusName_length: "length (BuildWorkstatusName L aw obj) \<le> 253"
  by (simp add: BuildWorkstatusName_def truncateString_length)

text \<open>
  Property C27: two applied manifest works with different UIDs of the same length, at most 253 bytes,
  never give the same WorkStatus name, whatever their objects are, truncation included.
\<close>

theorem BuildWorkstatusName_other_work:
  assumes "length (om_UID (amw_ObjectMeta aw)) = length (om_UID (amw_ObjectMeta aw'))"
    and "length (om_UID (amw_ObjectMeta aw)) \<le> 253"
    and "om_UID (amw_ObjectMeta aw) \<noteq> om_UID (amw_ObjectMeta aw')"
  shows "BuildWorkstatusName L aw obj \<noteq> BuildWorkstatusName L aw' obj'"
proof
  assume eq: "BuildWorkstatusName L aw obj = BuildWorkstatusName L aw' obj'"
  let ?n = "length (om_UID (amw_ObjectMeta aw))"
  have "take ?n (workstatus_long_name L aw obj) = take ?n (workstatus_long_name L aw' obj')"
    using arg_cong [OF eq, of "take ?n"] assms(2) by (simp add: BuildWorkstatusName_def take_truncateString)
  then show False
    using workstatus_long_name_uid [of aw L obj] workstatus_long_name_uid [of aw' L obj'] assms(1,3) by simp
qed

theorem BuildWorkstatusName_other_work_witness:
  "BuildWorkstatusName doc_lib (ex_amw ''u1'') (ex_object ''a'' ''b'') \<noteq>
   BuildWorkstatusName doc_lib (ex_amw ''u2'') (ex_object ''a'' ''b'')"
  by (rule BuildWorkstatusName_other_work) (simp_all add: ex_amw_def)

text \<open>
  Property C28: within one applied manifest work, two different objects of one kind whose names fit in
  253 bytes get different WorkStatus names, provided they are in one namespace or their namespaces
  have no hyphen.
\<close>

theorem BuildWorkstatusName_inject:
  assumes "obj_gvk a = obj_gvk b"
    and "length (workstatus_long_name L aw a) \<le> 253" "length (workstatus_long_name L aw b) \<le> 253"
    and "om_Namespace (obj_meta a) = om_Namespace (obj_meta b) \<or>
         CHR ''-'' \<notin> set (om_Namespace (obj_meta a)) \<union> set (om_Namespace (obj_meta b))"
    and "(om_Namespace (obj_meta a), om_Name (obj_meta a)) \<noteq> (om_Namespace (obj_meta b), om_Name (obj_meta b))"
  shows "BuildWorkstatusName L aw a \<noteq> BuildWorkstatusName L aw b"
proof
  assume "BuildWorkstatusName L aw a = BuildWorkstatusName L aw b"
  then have "om_Namespace (obj_meta a) @ CHR ''-'' # om_Name (obj_meta a) =
      om_Namespace (obj_meta b) @ CHR ''-'' # om_Name (obj_meta b)"
    using assms(2,3) workstatus_long_name_same_kind [OF assms(1), of L aw]
    by (simp add: BuildWorkstatusName_def truncateString_id)
  with assms(4,5) show False
    by (auto simp: append_sep_inject)
qed

theorem BuildWorkstatusName_inject_witness:
  "BuildWorkstatusName doc_lib (ex_amw ''u1'') (ex_object ''a'' ''b-c'') \<noteq>
   BuildWorkstatusName doc_lib (ex_amw ''u1'') (ex_object ''a'' ''b'')"
proof -
  have "length (workstatus_long_name doc_lib (ex_amw ''u1'') (ex_object ''a'' ''b-c'')) \<le> 253"
    "length (workstatus_long_name doc_lib (ex_amw ''u1'') (ex_object ''a'' ''b'')) \<le> 253"
    by code_simp+
  then show ?thesis by (intro BuildWorkstatusName_inject) (simp_all add: ex_object_def new_meta_def)
qed

text \<open>
  The condition on namespaces is needed: the objects x-y/z and x/y-z of a kind have the same WorkStatus name in every work.
\<close>

lemma BuildWorkstatusName_collision:
  "BuildWorkstatusName L aw (Unstructured g (new_meta (x @ ''-'' @ y) z) c) =
   BuildWorkstatusName L aw (Unstructured g (new_meta x (y @ ''-'' @ z)) c')"
  by (simp add: BuildWorkstatusName_def workstatus_long_name_def new_meta_def Let_def)

end
