(* ===== verification/Ocm.thy ===== *)
theory Ocm
  imports Utils
begin

text \<open>
  pkg/ocm/ocm.go, and the client of the hub it is used with. The hub's API server is outside the
  repository: its calls are the fields of \<open>hub_client\<close>, each a function of the state of the world
  that returns an error or not and a new state, so nothing is assumed of the server or of the
  other clients that write between two calls. A call that decodes the response into its argument
  returns the argument's new value. The functions \<open>hub_\<dots>\<close> make the call and append it to a log.
\<close>

section \<open>The hub client\<close>

datatype hub_call =
    Get_WorkStatus string string
  | Get_ManifestWork string string
  | Create_WorkStatus WorkStatus
  | Delete_WorkStatus string string
  | Patch_WorkStatus string string string
  | Update_WorkStatus_status WorkStatus

record 'w hub_client =
  hc_Get :: "string \<Rightarrow> string \<Rightarrow> WorkStatus \<Rightarrow> 'w \<Rightarrow> go_error option \<times> WorkStatus \<times> 'w"
  hc_GetManifestWork :: "string \<Rightarrow> string \<Rightarrow> 'w \<Rightarrow> (go_error + ManifestWork) \<times> 'w"
  hc_Create :: "WorkStatus \<Rightarrow> 'w \<Rightarrow> go_error option \<times> WorkStatus \<times> 'w"
  hc_Delete :: "WorkStatus \<Rightarrow> 'w \<Rightarrow> go_error option \<times> 'w"
  hc_Patch :: "WorkStatus \<Rightarrow> string \<Rightarrow> 'w \<Rightarrow> go_error option \<times> WorkStatus \<times> 'w"
  hc_StatusUpdate :: "WorkStatus \<Rightarrow> 'w \<Rightarrow> go_error option \<times> WorkStatus \<times> 'w"

type_synonym 'w hub_io = "'w \<times> hub_call list"

abbreviation ws_name :: "WorkStatus \<Rightarrow> string" where
  "ws_name ws \<equiv> om_Name (ws_ObjectMeta ws)"

abbreviation ws_namespace :: "WorkStatus \<Rightarrow> string" where
  "ws_namespace ws \<equiv> om_Namespace (ws_ObjectMeta ws)"

definition hub_Get :: "'w hub_client \<Rightarrow> WorkStatus \<Rightarrow> 'w hub_io \<Rightarrow> go_error option \<times> WorkStatus \<times> 'w hub_io" where
  "hub_Get H ws io =
     (case hc_Get H (ws_namespace ws) (ws_name ws) ws (fst io) of
        (err, ws', w) \<Rightarrow> (err, ws', w, snd io @ [Get_WorkStatus (ws_namespace ws) (ws_name ws)]))"

definition hub_Create :: "'w hub_client \<Rightarrow> WorkStatus \<Rightarrow> 'w hub_io \<Rightarrow> go_error option \<times> WorkStatus \<times> 'w hub_io" where
  "hub_Create H ws io =
     (case hc_Create H ws (fst io) of (err, ws', w) \<Rightarrow> (err, ws', w, snd io @ [Create_WorkStatus ws]))"

definition hub_Delete :: "'w hub_client \<Rightarrow> WorkStatus \<Rightarrow> 'w hub_io \<Rightarrow> go_error option \<times> 'w hub_io" where
  "hub_Delete H ws io =
     (case hc_Delete H ws (fst io) of
        (err, w) \<Rightarrow> (err, w, snd io @ [Delete_WorkStatus (ws_namespace ws) (ws_name ws)]))"

definition hub_Patch :: "'w hub_client \<Rightarrow> WorkStatus \<Rightarrow> string \<Rightarrow> 'w hub_io \<Rightarrow> go_error option \<times> WorkStatus \<times> 'w hub_io" where
  "hub_Patch H ws p io =
     (case hc_Patch H ws p (fst io) of
        (err, ws', w) \<Rightarrow> (err, ws', w, snd io @ [Patch_WorkStatus (ws_namespace ws) (ws_name ws) p]))"

definition hub_StatusUpdate :: "'w hub_client \<Rightarrow> WorkStatus \<Rightarrow> 'w hub_io \<Rightarrow> go_error option \<times> WorkStatus \<times> 'w hub_io" where
  "hub_StatusUpdate H ws io =
     (case hc_StatusUpdate H ws (fst io) of
        (err, ws', w) \<Rightarrow> (err, ws', w, snd io @ [Update_WorkStatus_status ws]))"

section \<open>pkg/ocm/ocm.go\<close>

definition ToAppliedManifestWork :: "'x k8slib_scheme \<Rightarrow> runtime_object \<Rightarrow> go_error + AppliedManifestWork" where
  "ToAppliedManifestWork L obj =
     (case FromUnstructured L obj of Inl err \<Rightarrow> Inl err | Inr aWork \<Rightarrow> Inr aWork)"

fun ListGVRs_loop :: "AppliedManifestResourceMeta list \<Rightarrow> GroupVersionResource list \<Rightarrow> GroupVersionResource list" where
  "ListGVRs_loop [] gvrs = gvrs"
| "ListGVRs_loop (r # rs) gvrs =
     ListGVRs_loop rs (gvrs @ [\<lparr>gvr_Group = ar_Group r, gvr_Version = ar_Version r, gvr_Resource = ar_Resource r\<rparr>])"

definition ListGVRs :: "AppliedManifestWork \<Rightarrow> GroupVersionResource list" where
  "ListGVRs aWork = ListGVRs_loop (amw_AppliedResources aWork) []"

fun GetTrackedObjectsUID_loop :: "AppliedManifestResourceMeta list \<Rightarrow> string list \<Rightarrow> string list" where
  "GetTrackedObjectsUID_loop [] uids = uids"
| "GetTrackedObjectsUID_loop (r # rs) uids = GetTrackedObjectsUID_loop rs (uids @ [ar_UID r])"

definition GetTrackedObjectsUID :: "AppliedManifestWork \<Rightarrow> string list" where
  "GetTrackedObjectsUID aWork = GetTrackedObjectsUID_loop (amw_AppliedResources aWork) []"

definition GetManifestWork :: "'w hub_client \<Rightarrow> string \<Rightarrow> string \<Rightarrow> 'w hub_io \<Rightarrow> (go_error + ManifestWork) \<times> 'w hub_io" where
  "GetManifestWork H name namespace io =
     (case hc_GetManifestWork H namespace name (fst io) of
        (r, w) \<Rightarrow> (r, w, snd io @ [Get_ManifestWork namespace name]))"

definition workv1_apiVersion :: string where
  "workv1_apiVersion = workv1_Group @ ''/'' @ workv1_Version"

fun owner_name_loop :: "OwnerReference list \<Rightarrow> string" where
  "owner_name_loop [] = ''''"
| "owner_name_loop (ref # refs) =
     (if or_APIVersion ref = workv1_apiVersion \<and> or_Kind ref = AppliedManifestWorkKind then or_Name ref
      else owner_name_loop refs)"

definition GetAppliedManifestWorkName :: "runtime_object \<Rightarrow> string" where
  "GetAppliedManifestWorkName obj = owner_name_loop (om_OwnerReferences (obj_meta obj))"

definition IsManagedByAppliedManifestWork :: "runtime_object \<Rightarrow> bool" where
  "IsManagedByAppliedManifestWork obj = (GetAppliedManifestWorkName obj \<noteq> '''')"

text \<open>The key under which the lister of applied manifest works is registered.\<close>

definition amw_gvk :: GroupVersionKind where
  "amw_gvk = \<lparr>gvk_Group = workv1_Group, gvk_Version = workv1_Version, gvk_Kind = AppliedManifestWorkKind\<rparr>"

definition amw_key :: string where
  "amw_key = KeyForGroupVersionKind workv1_Group workv1_Version AppliedManifestWorkKind"

definition GetAppliedManifestWork ::
    "'x k8slib_scheme \<Rightarrow> 'l lister_view \<Rightarrow> runtime_object \<Rightarrow> 'l SafeMap \<Rightarrow> (go_error + AppliedManifestWork) outcome" where
  "GetAppliedManifestWork L V obj listers =
     (let aName = GetAppliedManifestWorkName obj in
      if aName = '''' then Ret (Inl (Errorf ''not managed by AppliedManifestWork''))
      else case SafeMap_Get listers amw_key of
          None \<Rightarrow> Ret (Inl (Errorf (''could not get lister for key '' @ amw_key)))
        | Some lister \<Rightarrow>
            (case lister_Get V lister aName of
               Inl err \<Rightarrow> Ret (Inl (Errorf (''could not find applied manifest '' @ aName @ '': '' @ Error_msg err)))
             | Inr (Struct g m f) \<Rightarrow> Panic ''interface conversion''
             | Inr (Unstructured g m c) \<Rightarrow>
                 (case ToAppliedManifestWork L (Unstructured g m c) of
                    Inl err \<Rightarrow> Ret (Inl (Errorf (''could not convert object to applied manifest '' @ aName @ '': '' @ Error_msg err)))
                  | Inr aWork \<Rightarrow> Ret (Inr aWork))))"

subsection \<open>pkg/ocm/client.go\<close>

text \<open>
  \<open>NewClient\<close>: the constructors it calls are those of client-go and controller-runtime, each giving an
  error or not; \<^verbatim>\<open>utilruntime.Must\<close> panics on an error.
\<close>

fun utilruntime_Must :: "go_error option \<Rightarrow> unit outcome" where
  "utilruntime_Must None = Ret ()"
| "utilruntime_Must (Some err) = Panic (Error_msg err)"

definition NewClient :: "go_error option \<Rightarrow> go_error option \<Rightarrow> go_error option \<Rightarrow> go_error option \<Rightarrow> go_error option \<Rightarrow>
    go_error option \<Rightarrow> go_error option outcome" where
  "NewClient HTTPClientFor NewDynamicRESTMapper addClientGo addWork addV1alpha1 client_New =
     (case HTTPClientFor of
        Some err \<Rightarrow> Ret (Some err)
      | None \<Rightarrow>
          (case NewDynamicRESTMapper of
             Some err \<Rightarrow> Ret (Some err)
           | None \<Rightarrow>
               bindO (utilruntime_Must addClientGo) (\<lambda>_.
               bindO (utilruntime_Must addWork) (\<lambda>_.
               bindO (utilruntime_Must addV1alpha1) (\<lambda>_.
               Ret client_New)))))"

section \<open>Lemmas\<close>

lemma ListGVRs_eq:
  "ListGVRs aWork = map (\<lambda>r. \<lparr>gvr_Group = ar_Group r, gvr_Version = ar_Version r, gvr_Resource = ar_Resource r\<rparr>)
     (amw_AppliedResources aWork)"
proof -
  have "ListGVRs_loop rs gs = gs @ map (\<lambda>r. \<lparr>gvr_Group = ar_Group r, gvr_Version = ar_Version r, gvr_Resource = ar_Resource r\<rparr>) rs" for rs gs
    by (induction rs gs rule: ListGVRs_loop.induct) simp_all
  then show ?thesis by (simp add: ListGVRs_def)
qed

lemma GetTrackedObjectsUID_eq: "GetTrackedObjectsUID aWork = map ar_UID (amw_AppliedResources aWork)"
proof -
  have "GetTrackedObjectsUID_loop rs us = us @ map ar_UID rs" for rs us
    by (induction rs us rule: GetTrackedObjectsUID_loop.induct) simp_all
  then show ?thesis by (simp add: GetTrackedObjectsUID_def)
qed

lemma tracked_info_wf: "wf_info \<lparr>ObjectUIDs = GetTrackedObjectsUID aWork, GVRs = ListGVRs aWork\<rparr>"
  by (simp add: wf_info_def ListGVRs_eq GetTrackedObjectsUID_eq)

lemma ListGVRs_empty_iff: "ListGVRs aWork = [] \<longleftrightarrow> GetTrackedObjectsUID aWork = []"
  by (simp add: ListGVRs_eq GetTrackedObjectsUID_eq)

lemma amw_key_eq: "amw_key = gvk_key amw_gvk"
  by (simp add: amw_key_def gvk_key_def amw_gvk_def)

lemma owner_name_loop_nonempty:
  "owner_name_loop refs \<noteq> '''' \<Longrightarrow>
   \<exists>ref \<in> set refs. or_APIVersion ref = workv1_apiVersion \<and> or_Kind ref = AppliedManifestWorkKind
     \<and> or_Name ref = owner_name_loop refs"
  by (induction refs) auto

lemma Copy_AppliedManifestWorkName [simp]:
  "GetAppliedManifestWorkName (CopyObjectMetaAndType obj) = GetAppliedManifestWorkName obj"
  by (simp add: GetAppliedManifestWorkName_def)

lemma Copy_managed [simp]:
  "IsManagedByAppliedManifestWork (CopyObjectMetaAndType obj) = IsManagedByAppliedManifestWork obj"
  by (simp add: IsManagedByAppliedManifestWork_def)

end
