(* ===== verification/Informers.thy ===== *)
theory Informers
  imports Ocm
begin

text \<open>
  pkg/agent/informers.go and the agent's state (pkg/agent/agent.go). The record \<open>Agent\<close> has the
  fields of the Go struct; \<open>sys\<close> extends it by the run-time state its operations act on: channels
  (numbered in the order \<^verbatim>\<open>make\<close> creates them, with those closed), informer factories, the informers
  handed to \<^verbatim>\<open>go informer.Run(stopper)\<close>, the goroutines \<^verbatim>\<open>go a.startInformers(...)\<close> not yet run, the
  calls made on the work queue, the world outside and the log of the calls to the hub.

  \<open>env\<close> extends the library functions by those that read or change the world: API discovery, the
  REST mapper it gives, the contents of the informers' caches, the hub, and the order \<^verbatim>\<open>range\<close>
  visits a map in.
\<close>

section \<open>State\<close>

text \<open>An informer is named by the factory that made it (0 is the agent's shared one) and its resource.\<close>

datatype informer = Informer (inf_factory: nat) (inf_gvr: GroupVersionResource)

record lister =
  lst_informer :: informer
  lst_Group :: string
  lst_Resource :: string

record 'm Agent =
  agentName :: string
  clusterName :: string
  restMapper :: "'m option"
  listers :: "lister SafeMap"
  informers :: "informer SafeMap"
  trackedAppliedManifests :: "AppliedManifestInfo SafeMap"
  objectsCount :: SafeUIDMap
  stoppers :: "nat SafeMap"

datatype wq_item = ItemKey Key | ItemOther string

datatype wq_call = WQ_Add Key | WQ_AddRateLimited wq_item | WQ_Get wq_item | WQ_Forget wq_item | WQ_Done wq_item | WQ_ShutDown

record ('m, 'w) sys = "'m Agent" +
  workqueue :: "wq_call list"
  next_chan :: nat
  closed_chans :: "nat list"
  next_factory :: nat
  handlers :: "informer list"
  running :: "(string \<times> informer \<times> nat) list"
  spawned :: "(GroupVersionResource list \<times> string list) list"
  world :: 'w
  hub_log :: "hub_call list"

record ('w, 'm, 'g) env = k8slib +
  GetAPIGroupResources :: "'w \<Rightarrow> (go_error + 'g) \<times> 'w"
  NewDiscoveryRESTMapper :: "'g \<Rightarrow> 'm"
  KindFor :: "'m \<Rightarrow> GroupVersionResource \<Rightarrow> go_error + GroupVersionKind"
  RESTMapping :: "'m \<Rightarrow> string \<Rightarrow> string \<Rightarrow> string \<Rightarrow> go_error + GroupVersionResource"
  cache_view :: "'w \<Rightarrow> lister lister_view"
  hub :: "'w hub_client"
  go_range :: range_fun

section \<open>Operations\<close>

definition excludedGVKs :: "string list" where
  "excludedGVKs = [
     ''rbac.authorization.k8s.io/v1, Kind=ClusterRoleBinding'',
     ''rbac.authorization.k8s.io/v1, Kind=ClusterRole'',
     ''rbac.authorization.k8s.io/v1, Kind=Role'',
     ''rbac.authorization.k8s.io/v1, Kind=RoleBinding'',
     ''/v1, Kind=Secret'',
     ''/v1, Kind=ConfigMap'',
     ''/v1, Kind=ServiceAccount'']"

definition getRestMapper :: "('w, 'm, 'g) env \<Rightarrow> 'w \<Rightarrow> (go_error + 'm) \<times> 'w" where
  "getRestMapper E w =
     (case GetAPIGroupResources E w of
        (Inl err, w') \<Rightarrow> (Inl err, w')
      | (Inr groupResources, w') \<Rightarrow> (Inr (NewDiscoveryRESTMapper E groupResources), w'))"

text \<open>\<^verbatim>\<open>a.restMapper, err = getRestMapper(...)\<close>, where an error is only logged: the field becomes nil.\<close>

definition update_restMapper :: "('w, 'm, 'g) env \<Rightarrow> ('m, 'w) sys \<Rightarrow> ('m, 'w) sys" where
  "update_restMapper E s =
     (case getRestMapper E (world s) of
        (Inl err, w) \<Rightarrow> s\<lparr>restMapper := None, world := w\<rparr>
      | (Inr m, w) \<Rightarrow> s\<lparr>restMapper := Some m, world := w\<rparr>)"

definition startInformer :: "GroupVersionResource \<Rightarrow> GroupVersionKind \<Rightarrow> nat \<Rightarrow> bool \<Rightarrow> ('m, 'w) sys \<Rightarrow> ('m, 'w) sys" where
  "startInformer gvr gvk stopper restartable s =
     (let key = KeyForGroupVersionKind (gvk_Group gvk) (gvk_Version gvk) (gvk_Kind gvk);
          factory = (if restartable then next_factory s else 0);
          s = (if restartable then s\<lparr>next_factory := Suc (next_factory s)\<rparr> else s);
          informer = Informer factory gvr;
          lister = \<lparr>lst_informer = informer, lst_Group = gvr_Group gvr, lst_Resource = gvr_Resource gvr\<rparr>
      in s\<lparr>informers := SafeMap_Set key informer (informers s),
           handlers := handlers s @ [informer],
           listers := SafeMap_Set key lister (listers s),
           stoppers := SafeMap_Set key stopper (stoppers s),
           running := running s @ [(key, informer, stopper)]\<rparr>)"

definition startAppliedManifestWorkInformer :: "nat \<Rightarrow> ('m, 'w) sys \<Rightarrow> ('m, 'w) sys" where
  "startAppliedManifestWorkInformer stopper s =
     (let gvr = \<lparr>gvr_Group = workv1_Group, gvr_Version = workv1_Version, gvr_Resource = AppliedManifestWorkResource\<rparr>;
          gvk = \<lparr>gvk_Group = gvr_Group gvr, gvk_Version = gvr_Version gvr, gvk_Kind = AppliedManifestWorkKind\<rparr>
      in startInformer gvr gvk stopper False s)"

text \<open>The body of the loop of \<^verbatim>\<open>startInformers\<close> for an object whose kind is not excluded.\<close>

definition track_object :: "GroupVersionResource \<Rightarrow> GroupVersionKind \<Rightarrow> string \<Rightarrow> ('m, 'w) sys \<Rightarrow> ('m, 'w) sys" where
  "track_object gvr gvk uid s =
     (let key = KeyForGroupVersionKind (gvk_Group gvk) (gvk_Version gvk) (gvk_Kind gvk);
          s = s\<lparr>objectsCount := AddUID key uid (objectsCount s)\<rparr>
      in if GetUIDCount (objectsCount s) key = 1
         then startInformer gvr gvk (next_chan s) True (s\<lparr>next_chan := Suc (next_chan s)\<rparr>)
         else s)"

fun startInformers_loop :: "('w, 'm, 'g) env \<Rightarrow> nat \<Rightarrow> GroupVersionResource list \<Rightarrow> string list \<Rightarrow>
    ('m, 'w) sys \<Rightarrow> ('m, 'w) sys outcome" where
  "startInformers_loop E i [] uids s = Ret s"
| "startInformers_loop E i (gvr # gvrs) uids s =
     (case restMapper s of
        None \<Rightarrow> Panic ''nil pointer dereference''
      | Some m \<Rightarrow>
          (case KindFor E m gvr of
             Inl err \<Rightarrow> Ret s
           | Inr gvk \<Rightarrow>
               if GroupVersionKind_String E gvk \<in> set excludedGVKs then startInformers_loop E (Suc i) gvrs uids s
               else if i < length uids then startInformers_loop E (Suc i) gvrs uids (track_object gvr gvk (uids ! i) s)
               else Panic ''index out of range''))"

definition startInformers :: "('w, 'm, 'g) env \<Rightarrow> GroupVersionResource list \<Rightarrow> string list \<Rightarrow>
    ('m, 'w) sys \<Rightarrow> ('m, 'w) sys outcome" where
  "startInformers E gvrs uids s = startInformers_loop E 0 gvrs uids (update_restMapper E s)"

definition stopInformer :: "string \<Rightarrow> ('m, 'w) sys \<Rightarrow> ('m, 'w) sys outcome" where
  "stopInformer key s =
     (case SafeMap_Get (stoppers s) key of
        None \<Rightarrow> Panic ''interface conversion: interface is nil''
      | Some stopper \<Rightarrow>
          if stopper \<in> set (closed_chans s) then Panic ''close of closed channel''
          else Ret (s\<lparr>closed_chans := stopper # closed_chans s,
                      informers := SafeMap_Delete key (informers s),
                      listers := SafeMap_Delete key (listers s),
                      stoppers := SafeMap_Delete key (stoppers s)\<rparr>))"

text \<open>The body of the loop of \<^verbatim>\<open>stopInformers\<close> for an object whose kind has an informer.\<close>

definition untrack_object :: "string \<Rightarrow> string \<Rightarrow> ('m, 'w) sys \<Rightarrow> ('m, 'w) sys outcome" where
  "untrack_object key uid s =
     (let s = s\<lparr>objectsCount := DeleteUID key uid (objectsCount s)\<rparr>
      in if GetUIDCount (objectsCount s) key = 0 then stopInformer key s else Ret s)"

text \<open>The loop of \<^verbatim>\<open>stopInformers\<close>; the result says whether it ran to its end or returned early.\<close>

fun stopInformers_loop :: "('w, 'm, 'g) env \<Rightarrow> nat \<Rightarrow> GroupVersionResource list \<Rightarrow> string list \<Rightarrow>
    ('m, 'w) sys \<Rightarrow> (bool \<times> ('m, 'w) sys) outcome" where
  "stopInformers_loop E i [] uids s = Ret (True, s)"
| "stopInformers_loop E i (gvr # gvrs) uids s =
     (case restMapper s of
        None \<Rightarrow> Panic ''nil pointer dereference''
      | Some m \<Rightarrow>
          (case KindFor E m gvr of
             Inl err \<Rightarrow> Ret (False, s)
           | Inr gvk \<Rightarrow>
               let key = KeyForGroupVersionKind (gvk_Group gvk) (gvk_Version gvk) (gvk_Kind gvk) in
               case SafeMap_Get (informers s) key of
                 None \<Rightarrow> stopInformers_loop E (Suc i) gvrs uids s
               | Some _ \<Rightarrow>
                   if i < length uids
                   then bindO (untrack_object key (uids ! i) s) (stopInformers_loop E (Suc i) gvrs uids)
                   else Panic ''index out of range''))"

definition stopInformers :: "('w, 'm, 'g) env \<Rightarrow> AppliedManifestInfo \<Rightarrow> ('m, 'w) sys \<Rightarrow> ('m, 'w) sys outcome" where
  "stopInformers E info s =
     bindO (stopInformers_loop E 0 (GVRs info) (ObjectUIDs info) s)
       (\<lambda>(finished, s). Ret (if finished then update_restMapper E s else s))"

section \<open>Invariants\<close>

text \<open>
  The three registries have the same keys; the stopper of a key is an open channel that no other
  key has, and the informer of the key was started with it; the lister of a key reads the cache of
  the key's informer.
\<close>

definition registry_inv :: "('m, 'w) sys \<Rightarrow> bool" where
  "registry_inv s \<longleftrightarrow>
     dom (SafeMap_Get (informers s)) = dom (SafeMap_Get (stoppers s)) \<and>
     dom (SafeMap_Get (listers s)) = dom (SafeMap_Get (stoppers s)) \<and>
     (\<forall>k c. SafeMap_Get (stoppers s) k = Some c \<longrightarrow> c < next_chan s \<and> c \<notin> set (closed_chans s)) \<and>
     (\<forall>k k' c. SafeMap_Get (stoppers s) k = Some c \<longrightarrow> SafeMap_Get (stoppers s) k' = Some c \<longrightarrow> k = k') \<and>
     (\<forall>k i c. SafeMap_Get (informers s) k = Some i \<longrightarrow> SafeMap_Get (stoppers s) k = Some c \<longrightarrow>
        (k, i, c) \<in> set (running s)) \<and>
     (\<forall>k i l. SafeMap_Get (informers s) k = Some i \<longrightarrow> SafeMap_Get (listers s) k = Some l \<longrightarrow> lst_informer l = i) \<and>
     (\<forall>c \<in> set (closed_chans s). c < next_chan s) \<and>
     (\<forall>(k, i, c) \<in> set (running s). c < next_chan s)"

text \<open>A kind with a recorded object has an informer.\<close>

definition count_inv :: "('m, 'w) sys \<Rightarrow> bool" where
  "count_inv s \<longleftrightarrow> (\<forall>k. uids_of (objectsCount s) k \<noteq> {} \<longrightarrow> SafeMap_Get (informers s) k \<noteq> None)"

definition agent_inv :: "('m, 'w) sys \<Rightarrow> bool" where
  "agent_inv s \<longleftrightarrow> registry_inv s \<and> count_inv s"

text \<open>The informers of a key that run: started, and their stopper not closed.\<close>

definition live :: "('m, 'w) sys \<Rightarrow> string \<Rightarrow> (string \<times> informer \<times> nat) list" where
  "live s k = filter (\<lambda>(k', i, c). k' = k \<and> c \<notin> set (closed_chans s)) (running s)"

text \<open>
  One informer runs per registered key, the registered one, and none for another key; only a kind
  with a recorded object, or the kind of the applied manifest works, has one.
\<close>

definition registered :: "('m, 'w) sys \<Rightarrow> string \<Rightarrow> (string \<times> informer \<times> nat) list" where
  "registered s k = (case (SafeMap_Get (informers s) k, SafeMap_Get (stoppers s) k) of
     (Some i, Some c) \<Rightarrow> [(k, i, c)] | _ \<Rightarrow> [])"

definition single_inv :: "('m, 'w) sys \<Rightarrow> bool" where
  "single_inv s \<longleftrightarrow>
     (\<forall>k. live s k = registered s k) \<and>
     (\<forall>k. k \<noteq> amw_key \<longrightarrow> SafeMap_Get (informers s) k \<noteq> None \<longrightarrow> uids_of (objectsCount s) k \<noteq> {})"

section \<open>The registries\<close>

lemma gvk_key_fold [simp]: "KeyForGroupVersionKind (gvk_Group g) (gvk_Version g) (gvk_Kind g) = gvk_key g"
  by (simp add: gvk_key_def)

lemma registry_invI:
  assumes "dom (SafeMap_Get (informers s)) = dom (SafeMap_Get (stoppers s))"
    and "dom (SafeMap_Get (listers s)) = dom (SafeMap_Get (stoppers s))"
    and "\<And>k c. SafeMap_Get (stoppers s) k = Some c \<Longrightarrow> c < next_chan s \<and> c \<notin> set (closed_chans s)"
    and "\<And>k k' c. SafeMap_Get (stoppers s) k = Some c \<Longrightarrow> SafeMap_Get (stoppers s) k' = Some c \<Longrightarrow> k = k'"
    and "\<And>k i c. SafeMap_Get (informers s) k = Some i \<Longrightarrow> SafeMap_Get (stoppers s) k = Some c \<Longrightarrow> (k, i, c) \<in> set (running s)"
    and "\<And>k i l. SafeMap_Get (informers s) k = Some i \<Longrightarrow> SafeMap_Get (listers s) k = Some l \<Longrightarrow> lst_informer l = i"
    and "\<And>c. c \<in> set (closed_chans s) \<Longrightarrow> c < next_chan s"
    and "\<And>k i c. (k, i, c) \<in> set (running s) \<Longrightarrow> c < next_chan s"
  shows "registry_inv s"
  unfolding registry_inv_def by (intro conjI allI impI ballI) (use assms in \<open>auto\<close>)

lemma registry_invD:
  assumes "registry_inv s"
  shows "dom (SafeMap_Get (informers s)) = dom (SafeMap_Get (stoppers s))"
    and "dom (SafeMap_Get (listers s)) = dom (SafeMap_Get (stoppers s))"
    and "SafeMap_Get (stoppers s) k = Some c \<Longrightarrow> c < next_chan s"
    and "SafeMap_Get (stoppers s) k = Some c \<Longrightarrow> c \<notin> set (closed_chans s)"
    and "SafeMap_Get (stoppers s) k = Some c \<Longrightarrow> SafeMap_Get (stoppers s) k' = Some c \<Longrightarrow> k = k'"
    and "SafeMap_Get (informers s) k = Some i \<Longrightarrow> SafeMap_Get (stoppers s) k = Some c \<Longrightarrow> (k, i, c) \<in> set (running s)"
    and "SafeMap_Get (informers s) k = Some i \<Longrightarrow> SafeMap_Get (listers s) k = Some l \<Longrightarrow> lst_informer l = i"
    and "c \<in> set (closed_chans s) \<Longrightarrow> c < next_chan s"
    and "(k, i, c) \<in> set (running s) \<Longrightarrow> c < next_chan s"
  using assms unfolding registry_inv_def by (blast, blast, blast, blast, blast, blast, blast, blast, fast)

text \<open>The fields the two invariants read.\<close>

definition same_registry :: "('m, 'w) sys \<Rightarrow> ('m, 'v) sys \<Rightarrow> bool" where
  "same_registry s t \<longleftrightarrow> informers t = informers s \<and> listers t = listers s \<and> stoppers t = stoppers s \<and>
     next_chan t = next_chan s \<and> closed_chans t = closed_chans s \<and> running t = running s \<and>
     objectsCount t = objectsCount s"

lemma agent_inv_same: "same_registry s t \<Longrightarrow> agent_inv t = agent_inv s"
  by (simp add: same_registry_def agent_inv_def registry_inv_def count_inv_def)

lemma single_inv_same: "same_registry s t \<Longrightarrow> single_inv t = single_inv s"
  by (simp add: same_registry_def single_inv_def live_def registered_def)

lemma update_restMapper_same [simp]: "same_registry s (update_restMapper E s)"
  by (simp add: same_registry_def update_restMapper_def split: prod.split sum.split)

lemma update_restMapper_frame [simp]:
  "trackedAppliedManifests (update_restMapper E s) = trackedAppliedManifests s"
  "objectsCount (update_restMapper E s) = objectsCount s"
  "informers (update_restMapper E s) = informers s"
  "spawned (update_restMapper E s) = spawned s"
  "workqueue (update_restMapper E s) = workqueue s"
  "hub_log (update_restMapper E s) = hub_log s"
  "clusterName (update_restMapper E s) = clusterName s"
  by (simp_all add: update_restMapper_def split: prod.split sum.split)

lemma startInformer_fields [simp]:
  "informers (startInformer gvr gvk c r s) =
     SafeMap_Set (gvk_key gvk) (Informer (if r then next_factory s else 0) gvr) (informers s)"
  "listers (startInformer gvr gvk c r s) = SafeMap_Set (gvk_key gvk)
     \<lparr>lst_informer = Informer (if r then next_factory s else 0) gvr, lst_Group = gvr_Group gvr, lst_Resource = gvr_Resource gvr\<rparr>
     (listers s)"
  "stoppers (startInformer gvr gvk c r s) = SafeMap_Set (gvk_key gvk) c (stoppers s)"
  "running (startInformer gvr gvk c r s) =
     running s @ [(gvk_key gvk, Informer (if r then next_factory s else 0) gvr, c)]"
  "next_chan (startInformer gvr gvk c r s) = next_chan s"
  "closed_chans (startInformer gvr gvk c r s) = closed_chans s"
  "objectsCount (startInformer gvr gvk c r s) = objectsCount s"
  "restMapper (startInformer gvr gvk c r s) = restMapper s"
  "trackedAppliedManifests (startInformer gvr gvk c r s) = trackedAppliedManifests s"
  "spawned (startInformer gvr gvk c r s) = spawned s"
  "workqueue (startInformer gvr gvk c r s) = workqueue s"
  "hub_log (startInformer gvr gvk c r s) = hub_log s"
  "world (startInformer gvr gvk c r s) = world s"
  "clusterName (startInformer gvr gvk c r s) = clusterName s"
  by (simp_all add: startInformer_def Let_def)

lemma startInformer_registry:
  assumes "registry_inv s" and t: "t = startInformer gvr gvk (next_chan s) r (s\<lparr>next_chan := Suc (next_chan s)\<rparr>)"
  shows "registry_inv t"
proof (rule registry_invI)
  note inv = registry_invD [OF assms(1)]
  show "dom (SafeMap_Get (informers t)) = dom (SafeMap_Get (stoppers t))"
    using sp.sync_put [OF inv(1)] by (simp add: t)
  show "dom (SafeMap_Get (listers t)) = dom (SafeMap_Get (stoppers t))"
    using sp.sync_put [OF inv(2)] by (simp add: t)
  show "c < next_chan t \<and> c \<notin> set (closed_chans t)" if "SafeMap_Get (stoppers t) k = Some c" for k c
    using that inv(3,4,8) by (fastforce simp: t split: if_splits)
  show "k = k'" if "SafeMap_Get (stoppers t) k = Some c" "SafeMap_Get (stoppers t) k' = Some c" for k k' c
    using that inv(3,5) by (fastforce simp: t split: if_splits)
  show "(k, i, c) \<in> set (running t)" if "SafeMap_Get (informers t) k = Some i" "SafeMap_Get (stoppers t) k = Some c" for k i c
    using that inv(6) by (auto simp: t split: if_splits)
  show "lst_informer l = i" if "SafeMap_Get (informers t) k = Some i" "SafeMap_Get (listers t) k = Some l" for k i l
    using that inv(7) by (auto simp: t split: if_splits)
  show "c < next_chan t" if "c \<in> set (closed_chans t)" for c
    using that inv(8) by (auto simp: t less_Suc_eq)
  show "c < next_chan t" if "(k, i, c) \<in> set (running t)" for k i c
    using that inv(9) by (auto simp: t less_Suc_eq)
qed

lemma stopInformer_eq:
  assumes "registry_inv s" and "SafeMap_Get (informers s) key = Some i"
  obtains c where "SafeMap_Get (stoppers s) key = Some c"
    and "stopInformer key s = Ret (s\<lparr>closed_chans := c # closed_chans s,
       informers := SafeMap_Delete key (informers s), listers := SafeMap_Delete key (listers s),
       stoppers := SafeMap_Delete key (stoppers s)\<rparr>)"
proof -
  have "key \<in> dom (SafeMap_Get (stoppers s))"
    using registry_invD(1) [OF assms(1)] assms(2) by auto
  then obtain c where c: "SafeMap_Get (stoppers s) key = Some c" by auto
  show thesis
    by (rule that [OF c]) (simp add: stopInformer_def c registry_invD(4) [OF assms(1) c])
qed

lemma stopInformer_registry:
  assumes "registry_inv s" and "SafeMap_Get (stoppers s) key = Some c"
    and t: "t = s\<lparr>closed_chans := c # closed_chans s,
       informers := SafeMap_Delete key (informers s), listers := SafeMap_Delete key (listers s),
       stoppers := SafeMap_Delete key (stoppers s)\<rparr>"
  shows "registry_inv t"
proof (rule registry_invI)
  note inv = registry_invD [OF assms(1)]
  show "dom (SafeMap_Get (informers t)) = dom (SafeMap_Get (stoppers t))"
    using sp.sync_del [OF inv(1)] by (simp add: t)
  show "dom (SafeMap_Get (listers t)) = dom (SafeMap_Get (stoppers t))"
    using sp.sync_del [OF inv(2)] by (simp add: t)
  show "c' < next_chan t \<and> c' \<notin> set (closed_chans t)" if "SafeMap_Get (stoppers t) k = Some c'" for k c'
    using that inv(3-5) assms(2) by (fastforce simp: t split: if_splits)
  show "k = k'" if "SafeMap_Get (stoppers t) k = Some c'" "SafeMap_Get (stoppers t) k' = Some c'" for k k' c'
    using that inv(5) by (fastforce simp: t split: if_splits)
  show "(k, i, c') \<in> set (running t)" if "SafeMap_Get (informers t) k = Some i" "SafeMap_Get (stoppers t) k = Some c'" for k i c'
    using that inv(6) by (auto simp: t split: if_splits)
  show "lst_informer l = i" if "SafeMap_Get (informers t) k = Some i" "SafeMap_Get (listers t) k = Some l" for k i l
    using that inv(7) by (auto simp: t split: if_splits)
  show "c' < next_chan t" if "c' \<in> set (closed_chans t)" for c'
    using that inv(3) [OF assms(2)] inv(8) by (auto simp: t)
  show "c' < next_chan t" if "(k, i, c') \<in> set (running t)" for k i c'
    using that inv(9) by (auto simp: t)
qed

section \<open>Tracking and untracking one object\<close>

lemma track_object_fields [simp]:
  "objectsCount (track_object gvr gvk uid s) = AddUID (gvk_key gvk) uid (objectsCount s)"
  "restMapper (track_object gvr gvk uid s) = restMapper s"
  "trackedAppliedManifests (track_object gvr gvk uid s) = trackedAppliedManifests s"
  "spawned (track_object gvr gvk uid s) = spawned s"
  "workqueue (track_object gvr gvk uid s) = workqueue s"
  "hub_log (track_object gvr gvk uid s) = hub_log s"
  "world (track_object gvr gvk uid s) = world s"
  "clusterName (track_object gvr gvk uid s) = clusterName s"
  by (simp_all add: track_object_def Let_def)

lemma registry_inv_count [simp]: "registry_inv (s\<lparr>objectsCount := x\<rparr>) = registry_inv s"
  by (simp add: registry_inv_def)

lemma live_count [simp]: "live (s\<lparr>objectsCount := x\<rparr>) k = live s k"
  by (simp add: live_def)

lemma registered_count [simp]: "registered (s\<lparr>objectsCount := x\<rparr>) k = registered s k"
  by (simp add: registered_def)

text \<open>The informer is started exactly when no other object of the kind is recorded.\<close>

lemma track_object_cases:
  obtains (start) "uids_of (objectsCount s) (gvk_key gvk) \<subseteq> {uid}"
    "track_object gvr gvk uid s = startInformer gvr gvk (next_chan s) True
       (s\<lparr>objectsCount := AddUID (gvk_key gvk) uid (objectsCount s), next_chan := Suc (next_chan s)\<rparr>)"
  | (keep) "\<not> uids_of (objectsCount s) (gvk_key gvk) \<subseteq> {uid}"
    "track_object gvr gvk uid s = s\<lparr>objectsCount := AddUID (gvk_key gvk) uid (objectsCount s)\<rparr>"
  using uid.count_add_one_iff [of "gvk_key gvk" uid "objectsCount s"]
  by (cases "uids_of (objectsCount s) (gvk_key gvk) \<subseteq> {uid}") (auto simp: track_object_def Let_def)

lemma track_object_agent_inv [inv_intros]:
  assumes "agent_inv s" shows "agent_inv (track_object gvr gvk uid s)"
proof (cases rule: track_object_cases [of s gvk uid gvr])
  case start
  let ?s = "s\<lparr>objectsCount := AddUID (gvk_key gvk) uid (objectsCount s)\<rparr>"
  have "registry_inv ?s" using assms by (simp add: agent_inv_def)
  then have "registry_inv (track_object gvr gvk uid s)"
    by (rule startInformer_registry) (simp add: start(2))
  moreover have "count_inv (track_object gvr gvk uid s)"
    using assms by (auto simp: start(2) agent_inv_def count_inv_def)
  ultimately show ?thesis by (simp add: agent_inv_def)
next
  case keep
  then have "uids_of (objectsCount s) (gvk_key gvk) \<noteq> {}" by blast
  with assms show ?thesis
    by (auto simp: keep(2) agent_inv_def count_inv_def)
qed

text \<open>
  Untracking an object of a registered kind always returns: the stopper is there and open. It stops
  the informer exactly when no other object of the kind is recorded.
\<close>

lemma untrack_object_cases:
  assumes "agent_inv s" and "SafeMap_Get (informers s) key = Some i"
  obtains (stop) c where "uids_of (objectsCount s) key \<subseteq> {uid}" "SafeMap_Get (stoppers s) key = Some c"
    "untrack_object key uid s = Ret (s\<lparr>objectsCount := DeleteUID key uid (objectsCount s),
       closed_chans := c # closed_chans s, informers := SafeMap_Delete key (informers s),
       listers := SafeMap_Delete key (listers s), stoppers := SafeMap_Delete key (stoppers s)\<rparr>)"
  | (keep) "\<not> uids_of (objectsCount s) key \<subseteq> {uid}"
    "untrack_object key uid s = Ret (s\<lparr>objectsCount := DeleteUID key uid (objectsCount s)\<rparr>)"
proof (cases "uids_of (objectsCount s) key \<subseteq> {uid}")
  case True
  let ?s = "s\<lparr>objectsCount := DeleteUID key uid (objectsCount s)\<rparr>"
  have "registry_inv ?s" using assms(1) by (simp add: agent_inv_def)
  moreover have "SafeMap_Get (informers ?s) key = Some i" using assms(2) by simp
  ultimately obtain c where c: "SafeMap_Get (stoppers ?s) key = Some c"
    and st: "stopInformer key ?s = Ret (?s\<lparr>closed_chans := c # closed_chans ?s,
       informers := SafeMap_Delete key (informers ?s), listers := SafeMap_Delete key (listers ?s),
       stoppers := SafeMap_Delete key (stoppers ?s)\<rparr>)"
    by (rule stopInformer_eq)
  have "untrack_object key uid s = stopInformer key ?s"
    using True uid.count_del_zero_iff [of key uid "objectsCount s"] by (simp add: untrack_object_def Let_def)
  with st have "untrack_object key uid s = Ret (s\<lparr>objectsCount := DeleteUID key uid (objectsCount s),
       closed_chans := c # closed_chans s, informers := SafeMap_Delete key (informers s),
       listers := SafeMap_Delete key (listers s), stoppers := SafeMap_Delete key (stoppers s)\<rparr>)"
    by simp
  with True c show thesis using stop by simp
next
  case False
  then show thesis
    using keep uid.count_del_zero_iff [of key uid "objectsCount s"] by (simp add: untrack_object_def Let_def)
qed

lemma untrack_object_returns:
  assumes "agent_inv s" and "SafeMap_Get (informers s) key = Some i"
  obtains t where "untrack_object key uid s = Ret t" and "restMapper t = restMapper s"
    and "objectsCount t = DeleteUID key uid (objectsCount s)" and "trackedAppliedManifests t = trackedAppliedManifests s"
    and "spawned t = spawned s" and "workqueue t = workqueue s" and "hub_log t = hub_log s" and "world t = world s"
    and "clusterName t = clusterName s"
  using assms
proof (cases rule: untrack_object_cases [where uid = uid])
  case (stop c) then show thesis using that by simp
next
  case keep then show thesis using that by simp
qed

lemma untrack_object_agent_inv [inv_intros]:
  assumes "agent_inv s" and i: "SafeMap_Get (informers s) key = Some i" and t: "untrack_object key uid s = Ret t"
  shows "agent_inv t"
  using assms(1) i
proof (cases rule: untrack_object_cases [where uid = uid])
  case (stop c)
  let ?s = "s\<lparr>objectsCount := DeleteUID key uid (objectsCount s)\<rparr>"
  have "registry_inv ?s" "SafeMap_Get (stoppers ?s) key = Some c"
    using assms(1) stop(2) by (simp_all add: agent_inv_def)
  then have "registry_inv t"
    by (rule stopInformer_registry) (use t stop(3) in simp)
  moreover have "count_inv t"
    using assms(1) stop(1) t by (fastforce simp: stop(3) agent_inv_def count_inv_def split: if_splits)
  ultimately show ?thesis by (simp add: agent_inv_def)
next
  case keep
  with assms(1) t show ?thesis by (fastforce simp: agent_inv_def count_inv_def split: if_splits)
qed

section \<open>At most one informer per kind\<close>

lemma live_startInformer:
  assumes "c \<notin> set (closed_chans s)"
  shows "live (startInformer gvr gvk c r s) k =
    live s k @ (if k = gvk_key gvk then [(k, Informer (if r then next_factory s else 0) gvr, c)] else [])"
  using assms by (simp add: live_def)

lemma track_object_single_inv:
  assumes "agent_inv s" "single_inv s" and fresh: "uid \<notin> uids_of (objectsCount s) (gvk_key gvk)"
    and other: "gvk_key gvk \<noteq> amw_key"
  shows "single_inv (track_object gvr gvk uid s)"
proof (cases rule: track_object_cases [of s gvk uid gvr])
  case start
  have reg: "registry_inv s" using assms(1) by (simp add: agent_inv_def)
  have c: "next_chan s \<notin> set (closed_chans s)" using registry_invD(8) [OF reg] by blast
  have none: "SafeMap_Get (informers s) (gvk_key gvk) = None"
    using start(1) fresh other assms(2) unfolding single_inv_def by blast
  then have "SafeMap_Get (stoppers s) (gvk_key gvk) = None"
    using registry_invD(1) [OF reg] by (metis domIff)
  with none c assms(2) show ?thesis
    unfolding single_inv_def start(2) by (auto simp: live_startInformer live_def registered_def split: option.splits)
next
  case keep
  with assms(2) show ?thesis by (auto simp: single_inv_def)
qed

lemma untrack_object_single_inv:
  assumes "agent_inv s" "single_inv s" and i: "SafeMap_Get (informers s) key = Some i"
    and t: "untrack_object key uid s = Ret t"
  shows "single_inv t"
  using assms(1) i
proof (cases rule: untrack_object_cases [where uid = uid])
  case (stop c)
  have reg: "registry_inv s" using assms(1) by (simp add: agent_inv_def)
  have "live t k = filter (\<lambda>(k', i, c'). c' \<noteq> c) (live s k)" for k
    using t by (auto simp: stop(3) live_def intro!: filter_cong)
  moreover have "live s k = registered s k" for k
    using assms(2) by (simp add: single_inv_def)
  moreover have "filter (\<lambda>(k', i, c'). c' \<noteq> c) (registered s k) = registered t k" for k
    using t stop(2) registry_invD(5) [OF reg, of key c k]
    by (cases "k = key") (auto simp: stop(3) registered_def split: option.split)
  ultimately show ?thesis
    using assms(2) t by (auto simp: stop(3) single_inv_def split: if_splits)
next
  case keep
  with assms(2) t show ?thesis by (fastforce simp: single_inv_def split: if_splits)
qed

section \<open>The loops\<close>

text \<open>The fields neither loop touches.\<close>

definition same_rest :: "('m, 'w) sys \<Rightarrow> ('m, 'w) sys \<Rightarrow> bool" where
  "same_rest s t \<longleftrightarrow> restMapper t = restMapper s \<and> trackedAppliedManifests t = trackedAppliedManifests s \<and>
     spawned t = spawned s \<and> workqueue t = workqueue s \<and> hub_log t = hub_log s \<and> world t = world s \<and>
     clusterName t = clusterName s"

lemma same_rest_refl [simp]: "same_rest s s"
  by (simp add: same_rest_def)

lemma same_rest_trans: "same_rest s t \<Longrightarrow> same_rest t u \<Longrightarrow> same_rest s u"
  by (simp add: same_rest_def)

lemma track_object_same_rest [simp]: "same_rest s (track_object gvr gvk uid s)"
  by (simp add: same_rest_def)

lemma untrack_object_same_rest:
  "agent_inv s \<Longrightarrow> SafeMap_Get (informers s) key = Some i \<Longrightarrow> untrack_object key uid s = Ret t \<Longrightarrow> same_rest s t"
  by (erule untrack_object_returns [of s key i uid]) (auto simp: same_rest_def)

lemma startInformers_loop_same_rest:
  "startInformers_loop E i gvrs uids s = Ret t \<Longrightarrow> same_rest s t"
proof (induction gvrs arbitrary: i s)
  case (Cons gvr gvrs)
  from Cons.prems show ?case
    by (auto split: option.splits sum.splits if_splits dest!: Cons.IH
        intro: same_rest_trans [OF track_object_same_rest])
qed simp

lemma startInformers_loop_inv:
  "agent_inv s \<Longrightarrow> startInformers_loop E i gvrs uids s = Ret t \<Longrightarrow> agent_inv t"
proof (induction gvrs arbitrary: i s)
  case (Cons gvr gvrs)
  from Cons.prems show ?case
    by (auto split: option.splits sum.splits if_splits intro: Cons.IH inv_intros)
qed simp

lemma startInformers_loop_returns:
  "restMapper s \<noteq> None \<Longrightarrow> length gvrs + i \<le> length uids \<Longrightarrow> \<exists>t. startInformers_loop E i gvrs uids s = Ret t"
  by (induction gvrs arbitrary: i s) (auto split: sum.split)

lemma stopInformers_loop_inv:
  "agent_inv s \<Longrightarrow> stopInformers_loop E i gvrs uids s = Ret (b, t) \<Longrightarrow> agent_inv t \<and> same_rest s t"
proof (induction gvrs arbitrary: i s)
  case (Cons gvr gvrs)
  have step: "agent_inv t \<and> same_rest s t"
    if "SafeMap_Get (informers s) key = Some inf" "untrack_object key uid s = Ret u"
      "stopInformers_loop E (Suc i) gvrs uids u = Ret (b, t)" for key inf uid u
    using Cons.IH [OF untrack_object_agent_inv [OF Cons.prems(1) that(1,2)] that(3)]
      untrack_object_same_rest [OF Cons.prems(1) that(1,2)] same_rest_trans by blast
  from Cons.prems show ?case
    by (auto simp: bindO_eq_Ret Let_def split: option.splits sum.splits if_splits dest: Cons.IH step)
qed simp

lemma stopInformers_loop_single_inv:
  "agent_inv s \<Longrightarrow> single_inv s \<Longrightarrow> stopInformers_loop E i gvrs uids s = Ret (b, t) \<Longrightarrow> single_inv t"
proof (induction gvrs arbitrary: i s)
  case (Cons gvr gvrs)
  have step: "single_inv t"
    if "SafeMap_Get (informers s) key = Some inf" "untrack_object key uid s = Ret u"
      "stopInformers_loop E (Suc i) gvrs uids u = Ret (b, t)" for key inf uid u
    using Cons.IH [OF untrack_object_agent_inv untrack_object_single_inv that(3)] Cons.prems(1,2) that(1,2) by blast
  from Cons.prems show ?case
    by (auto simp: bindO_eq_Ret Let_def split: option.splits sum.splits if_splits dest: Cons.IH step)
qed simp

lemma stopInformers_loop_returns:
  "agent_inv s \<Longrightarrow> restMapper s \<noteq> None \<Longrightarrow> length gvrs + i \<le> length uids \<Longrightarrow>
   \<exists>r. stopInformers_loop E i gvrs uids s = Ret r"
proof (induction gvrs arbitrary: i s)
  case (Cons gvr gvrs)
  from Cons.prems(2) obtain m where m: "restMapper s = Some m" by auto
  have step: "\<exists>r. bindO (untrack_object key uid s) (stopInformers_loop E (Suc i) gvrs uids) = Ret r"
    if some: "SafeMap_Get (informers s) key = Some inf" for key inf uid
  proof -
    obtain u where u: "untrack_object key uid s = Ret u" "restMapper u = restMapper s"
      using untrack_object_returns [OF Cons.prems(1) some] by metis
    have "agent_inv u" using untrack_object_agent_inv [OF Cons.prems(1) some u(1)] .
    with Cons.IH [of u "Suc i"] u Cons.prems(2,3) show ?thesis by simp
  qed
  have skip: "\<exists>r. stopInformers_loop E (Suc i) gvrs uids s = Ret r"
    using Cons.IH [of s "Suc i"] Cons.prems by simp
  show ?case
    using Cons.prems(3) m step skip by (auto simp: Let_def split: option.split sum.split)
qed auto

lemma startInformers_inv [inv_intros]:
  "agent_inv s \<Longrightarrow> startInformers E gvrs uids s = Ret t \<Longrightarrow> agent_inv t"
  unfolding startInformers_def
  by (erule startInformers_loop_inv [rotated]) (simp add: agent_inv_same [OF update_restMapper_same])

lemma stopInformers_inv [inv_intros]:
  "agent_inv s \<Longrightarrow> stopInformers E info s = Ret t \<Longrightarrow> agent_inv t"
  by (auto simp: stopInformers_def bindO_eq_Ret agent_inv_same [OF update_restMapper_same] dest: stopInformers_loop_inv)

lemma stopInformers_single_inv:
  "agent_inv s \<Longrightarrow> single_inv s \<Longrightarrow> stopInformers E info s = Ret t \<Longrightarrow> single_inv t"
  by (auto simp: stopInformers_def bindO_eq_Ret single_inv_same [OF update_restMapper_same] dest: stopInformers_loop_single_inv)

lemma stopInformers_returns:
  "agent_inv s \<Longrightarrow> restMapper s \<noteq> None \<Longrightarrow> wf_info info \<Longrightarrow> \<exists>t. stopInformers E info s = Ret t"
  using stopInformers_loop_returns [of s "GVRs info" 0 "ObjectUIDs info" E]
  by (auto simp: stopInformers_def wf_info_def)

text \<open>What both leave alone, for the invariants of their callers.\<close>

lemma startInformers_frame:
  "startInformers E gvrs uids s = Ret t \<Longrightarrow>
     trackedAppliedManifests t = trackedAppliedManifests s \<and> spawned t = spawned s \<and>
     workqueue t = workqueue s \<and> hub_log t = hub_log s \<and> clusterName t = clusterName s"
  using startInformers_loop_same_rest [of E 0 gvrs uids "update_restMapper E s" t]
  by (simp add: startInformers_def same_rest_def)

lemma stopInformers_frame:
  "agent_inv s \<Longrightarrow> stopInformers E info s = Ret t \<Longrightarrow>
     trackedAppliedManifests t = trackedAppliedManifests s \<and> spawned t = spawned s \<and>
     workqueue t = workqueue s \<and> hub_log t = hub_log s \<and> clusterName t = clusterName s"
  using stopInformers_loop_inv [of s E 0 "GVRs info" "ObjectUIDs info"]
  by (fastforce simp: stopInformers_def bindO_eq_Ret same_rest_def)

section \<open>Which objects are recorded\<close>

text \<open>The kind an object is recorded under, and the UIDs of a list of objects recorded under a key.\<close>

definition tracked_kind :: "('w, 'm, 'g) env \<Rightarrow> 'm \<Rightarrow> GroupVersionResource \<Rightarrow> GroupVersionKind option" where
  "tracked_kind E m gvr =
     (case KindFor E m gvr of
        Inl err \<Rightarrow> None
      | Inr gvk \<Rightarrow> if GroupVersionKind_String E gvk \<in> set excludedGVKs then None else Some gvk)"

definition uids_for :: "('w, 'm, 'g) env \<Rightarrow> 'm \<Rightarrow> (string \<times> GroupVersionResource) list \<Rightarrow> string \<Rightarrow> string set" where
  "uids_for E m ps k = {u. \<exists>g gvk. (u, g) \<in> set ps \<and> tracked_kind E m g = Some gvk \<and> gvk_key gvk = k}"

definition uids_at :: "('w, 'm, 'g) env \<Rightarrow> 'm \<Rightarrow> (string \<times> GroupVersionResource) list \<Rightarrow> string \<Rightarrow> string set" where
  "uids_at E m ps k = {u. \<exists>g gvk. (u, g) \<in> set ps \<and> KindFor E m g = Inr gvk \<and> gvk_key gvk = k}"

text \<open>Discovery succeeds and its mapper knows every resource.\<close>

definition knows :: "('w, 'm, 'g) env \<Rightarrow> 'm \<Rightarrow> GroupVersionResource list \<Rightarrow> bool" where
  "knows E m gvrs \<longleftrightarrow> (\<forall>g \<in> set gvrs. \<exists>gvk. KindFor E m g = Inr gvk)"

lemma uids_for_Nil [simp]: "uids_for E m [] k = {}"
  by (simp add: uids_for_def)

lemma uids_for_Cons:
  "uids_for E m ((u, g) # ps) k =
     (case tracked_kind E m g of Some gvk \<Rightarrow> (if gvk_key gvk = k then {u} else {}) | None \<Rightarrow> {}) \<union> uids_for E m ps k"
  by (auto simp: uids_for_def split: option.split)

lemma uids_at_Nil [simp]: "uids_at E m [] k = {}"
  by (simp add: uids_at_def)

lemma uids_at_Cons:
  "uids_at E m ((u, g) # ps) k =
     (case KindFor E m g of Inr gvk \<Rightarrow> (if gvk_key gvk = k then {u} else {}) | Inl e \<Rightarrow> {}) \<union> uids_at E m ps k"
  by (auto simp: uids_at_def split: sum.split)

lemma drop_zip_Cons:
  "i < length uids \<Longrightarrow> zip (drop i uids) (g # gs) = (uids ! i, g) # zip (drop (Suc i) uids) gs"
  by (simp add: Cons_nth_drop_Suc [symmetric])

lemma startInformers_loop_uids:
  "restMapper s = Some m \<Longrightarrow> knows E m gvrs \<Longrightarrow> length gvrs + i \<le> length uids \<Longrightarrow>
   startInformers_loop E i gvrs uids s = Ret t \<Longrightarrow>
   uids_of (objectsCount t) k = uids_of (objectsCount s) k \<union> uids_for E m (zip (drop i uids) gvrs) k"
proof (induction gvrs arbitrary: i s)
  case (Cons gvr gvrs)
  obtain gvk where gvk: "KindFor E m gvr = Inr gvk" and kn: "knows E m gvrs"
    using Cons.prems(2) by (auto simp: knows_def)
  have i: "i < length uids" "length gvrs + Suc i \<le> length uids" using Cons.prems(3) by auto
  note IH = Cons.IH [OF _ kn i(2)]
  show ?case
    using Cons.prems(1,4) gvk i(1) IH [of s] IH [of "track_object gvr gvk (uids ! i) s"]
    by (auto simp: drop_zip_Cons uids_for_Cons tracked_kind_def split: if_splits)
qed simp

lemma stopInformers_loop_uids:
  "agent_inv s \<Longrightarrow> restMapper s = Some m \<Longrightarrow> knows E m gvrs \<Longrightarrow> length gvrs + i \<le> length uids \<Longrightarrow>
   stopInformers_loop E i gvrs uids s = Ret (b, t) \<Longrightarrow>
   b \<and> uids_of (objectsCount t) k = uids_of (objectsCount s) k - uids_at E m (zip (drop i uids) gvrs) k"
proof (induction gvrs arbitrary: i s)
  case (Cons gvr gvrs)
  obtain gvk where gvk: "KindFor E m gvr = Inr gvk" and kn: "knows E m gvrs"
    using Cons.prems(3) by (auto simp: knows_def)
  have i: "i < length uids" "length gvrs + Suc i \<le> length uids" using Cons.prems(4) by auto
  note IH = Cons.IH [OF _ _ kn i(2)]
  show ?case
  proof (cases "SafeMap_Get (informers s) (gvk_key gvk)")
    case None
    then have "uids_of (objectsCount s) (gvk_key gvk) = {}"
      using Cons.prems(1) by (auto simp: agent_inv_def count_inv_def)
    then show ?thesis
      using IH [OF Cons.prems(1,2)] Cons.prems(2,5) gvk i None by (auto simp: drop_zip_Cons uids_at_Cons)
  next
    case (Some inf)
    obtain u where u: "untrack_object (gvk_key gvk) (uids ! i) s = Ret u" "restMapper u = restMapper s"
      "objectsCount u = DeleteUID (gvk_key gvk) (uids ! i) (objectsCount s)"
      using untrack_object_returns [OF Cons.prems(1) Some] by metis
    have "agent_inv u" using untrack_object_agent_inv [OF Cons.prems(1) Some u(1)] .
    then have "b \<and> uids_of (objectsCount t) k = uids_of (objectsCount u) k - uids_at E m (zip (drop (Suc i) uids) gvrs) k"
      using IH [of u] Cons.prems(2,5) u gvk i Some by simp
    then show ?thesis
      using gvk i by (auto simp: u drop_zip_Cons uids_at_Cons split: if_splits)
  qed
qed simp

end
