(* ===== verification/Reconcilers.thy ===== *)
theory Reconcilers
  imports Informers
begin

text \<open>
  pkg/agent/reconcilers.go: the reconciliation of one queue key. \<open>handleAppliedManifestWork\<close> keeps
  the list of the objects each applied manifest work has applied and starts and stops informers;
  \<open>handleWorkStatus\<close> reports the status of one object to the hub. A result \<open>(requeue, err)\<close> is the
  pair the Go function returns. \<^verbatim>\<open>go a.startInformers(...)\<close> adds to \<open>spawned\<close>: the goroutine runs later.

  The body of \<open>handleWorkStatus\<close> is split where the code has its three parts: \<open>delete_workStatus\<close>
  (the object is gone), \<open>create_workStatus\<close> (no WorkStatus yet) and \<open>report_status\<close> (label and
  status). \<open>put_io\<close> stores the hub's world and log back into the state.
\<close>

section \<open>Definitions\<close>

definition ManagedByKSLabelKeyPrefix :: string where
  "ManagedByKSLabelKeyPrefix = ''managed-by.kubestellar.io''"

definition TransportLabelPrefix :: string where
  "TransportLabelPrefix = ''transport.kubestellar.io''"

definition SingletonstatusLabelKey :: string where
  "SingletonstatusLabelKey = ''managed-by.kubestellar.io/singletonstatus''"

definition handleAppliedManifestWork ::
    "('w, 'm, 'g) env \<Rightarrow> runtime_object \<Rightarrow> bool \<Rightarrow> ('m, 'w) sys \<Rightarrow> ((bool \<times> go_error option) \<times> ('m, 'w) sys) outcome" where
  "handleAppliedManifestWork E obj isBeingDeleted s =
     (case obj of
        Struct g m f \<Rightarrow> Panic ''interface conversion''
      | Unstructured g m c \<Rightarrow>
          (let name = om_Name (obj_meta obj) in
           case ToAppliedManifestWork E obj of
             Inl err \<Rightarrow> Ret ((True, Some err), s)
           | Inr aWork \<Rightarrow>
               if \<not> isBeingDeleted then
                 let gvrs = ListGVRs aWork in
                 if length gvrs = 0 then Ret ((True, None), s)
                 else
                   let uids = GetTrackedObjectsUID aWork;
                       info = \<lparr>ObjectUIDs = uids, GVRs = gvrs\<rparr> in
                   case SafeMap_Get (trackedAppliedManifests s) name of
                     Some oldinfo \<Rightarrow>
                       if info = oldinfo then Ret ((False, None), s)
                       else
                         bindO (GetAddedRemovedInfo (go_range E) oldinfo info) (\<lambda>(addedInfo, removedInfo).
                         bindO (stopInformers E removedInfo
                                  (s\<lparr>trackedAppliedManifests := SafeMap_Set name info (trackedAppliedManifests s),
                                     spawned := spawned s @ [(GVRs addedInfo, ObjectUIDs addedInfo)]\<rparr>)) (\<lambda>s.
                         Ret ((False, None), s)))
                   | None \<Rightarrow>
                       Ret ((False, None),
                         s\<lparr>trackedAppliedManifests := SafeMap_Set name info (trackedAppliedManifests s),
                           spawned := spawned s @ [(gvrs, uids)]\<rparr>)
               else
                 case SafeMap_Get (trackedAppliedManifests s) name of
                   None \<Rightarrow> Ret ((False, None), s)
                 | Some info \<Rightarrow>
                     bindO (stopInformers E info s) (\<lambda>s.
                     Ret ((False, None), s\<lparr>trackedAppliedManifests := SafeMap_Delete name (trackedAppliedManifests s)\<rparr>))))"

definition put_io :: "'w hub_io \<Rightarrow> ('m, 'w) sys \<Rightarrow> ('m, 'w) sys" where
  "put_io io s = s\<lparr>world := fst io, hub_log := snd io\<rparr>"

definition delete_workStatus :: "('w, 'm, 'g) env \<Rightarrow> WorkStatus \<Rightarrow> 'w hub_io \<Rightarrow> go_error option \<times> 'w hub_io" where
  "delete_workStatus E workStatus io =
     (case hub_Get (hub E) workStatus io of
        (err, workStatus, io) \<Rightarrow>
          if (case err of Some e \<Rightarrow> \<not> IsNotFound E e | None \<Rightarrow> False) then (err, io)
          else case hub_Delete (hub E) workStatus io of (err, io) \<Rightarrow> (None, io))"

text \<open>\<open>create_workStatus\<close>: \<open>Inl err\<close> returns the error, \<open>Inr None\<close> returns nil, \<open>Inr (Some ws)\<close> goes on.\<close>

definition managed_by_ks :: "('w, 'm, 'g) env \<Rightarrow> string gomap \<Rightarrow> bool" where
  "managed_by_ks E labels \<longleftrightarrow>
     HasPrefixInMap (go_range E) labels ManagedByKSLabelKeyPrefix \<or> HasPrefixInMap (go_range E) labels TransportLabelPrefix"

definition copy_singleton_label :: "string gomap \<Rightarrow> WorkStatus \<Rightarrow> WorkStatus outcome" where
  "copy_singleton_label objLabels workStatus =
     (case gomap_get objLabels SingletonstatusLabelKey of
        None \<Rightarrow> Ret workStatus
      | Some val \<Rightarrow>
          bindO (gomap_set (om_Labels (ws_ObjectMeta workStatus)) SingletonstatusLabelKey val) (\<lambda>labels.
          Ret (workStatus\<lparr>ws_ObjectMeta := (ws_ObjectMeta workStatus)\<lparr>om_Labels := labels\<rparr>\<rparr>)))"

definition source_ref :: "GroupVersionResource \<Rightarrow> runtime_object \<Rightarrow> SourceRef" where
  "source_ref gvr obj = \<lparr>sr_Group = gvr_Group gvr, sr_Version = gvr_Version gvr, sr_Resource = gvr_Resource gvr,
     sr_Kind = gvk_Kind (obj_gvk obj), sr_Name = om_Name (obj_meta obj), sr_Namespace = om_Namespace (obj_meta obj)\<rparr>"

definition create_workStatus ::
    "('w, 'm, 'g) env \<Rightarrow> runtime_object \<Rightarrow> AppliedManifestWork \<Rightarrow> WorkStatus \<Rightarrow> ('m, 'w) sys \<Rightarrow> 'w hub_io \<Rightarrow>
     ((go_error + WorkStatus option) \<times> 'w hub_io) outcome" where
  "create_workStatus E obj aWork workStatus s io =
     (case GetManifestWork (hub E) (amw_ManifestWorkName aWork) (clusterName s) io of
        (Inl err, io) \<Rightarrow> Ret (Inl (Wrapf ''failed to get manifestWork: '' err), io)
      | (Inr manifestWork, io) \<Rightarrow>
          let mwMeta = mw_ObjectMeta manifestWork in
          if \<not> managed_by_ks E (om_Labels mwMeta) then Ret (Inr None, io)
          else case SetControllerReference E mwMeta (ws_ObjectMeta workStatus) of
            Inl err \<Rightarrow> Ret (Inl (Wrapf ''failed to set controller reference: '' err), io)
          | Inr meta \<Rightarrow>
              bindO (copy_singleton_label (om_Labels (obj_meta obj))
                       (workStatus\<lparr>ws_ObjectMeta := meta\<lparr>om_Labels := om_Labels mwMeta\<rparr>\<rparr>)) (\<lambda>workStatus.
              bindO (GetGVR E (RESTMapping E) (restMapper s) (obj_gvk obj)) (\<lambda>r.
                case r of
                  Inl err \<Rightarrow> Ret (Inl (Errorf (''could not get gvr from restmapper for object: '' @ Error_msg err)), io)
                | Inr gvr \<Rightarrow>
                    (case hub_Create (hub E)
                            (workStatus\<lparr>ws_Spec := \<lparr>ws_SourceRef = source_ref gvr obj\<rparr>,
                               ws_StatusDetails := zero_StatusDetails\<lparr>LastCurrencyUpdateTime := Unix 0\<rparr>\<rparr>) io of
                       (Some err, ws, io) \<Rightarrow> Ret (Inl (Wrapf ''failed to create workStatus: '' err), io)
                     | (None, ws, io) \<Rightarrow> Ret (Inr (Some ws), io)))))"

definition singleton_patch :: "string \<Rightarrow> string" where
  "singleton_patch objVal =
     ''{\"metadata\":{\"labels\":{\"'' @ SingletonstatusLabelKey @ ''\":\"'' @ objVal @ ''\"}}}''"

definition report_status :: "('w, 'm, 'g) env \<Rightarrow> runtime_object \<Rightarrow> WorkStatus \<Rightarrow> 'w hub_io \<Rightarrow> go_error option \<times> 'w hub_io" where
  "report_status E obj workStatus io =
     (case (case gomap_get (om_Labels (obj_meta obj)) SingletonstatusLabelKey of
              Some objVal \<Rightarrow>
                if gomap_get (om_Labels (ws_ObjectMeta workStatus)) SingletonstatusLabelKey \<noteq> Some objVal
                then hub_Patch (hub E) workStatus (singleton_patch objVal) io
                else (None, workStatus, io)
            | None \<Rightarrow> (None, workStatus, io)) of
        (Some err, workStatus, io) \<Rightarrow> (Some err, io)
      | (None, workStatus, io) \<Rightarrow>
          (case GetObjectStatusAsBytes E obj of
             Inl err \<Rightarrow> (Some err, io)
           | Inr rawStatus \<Rightarrow>
               (case hub_StatusUpdate (hub E) (workStatus\<lparr>ws_Status := \<lparr>Raw = rawStatus\<rparr>\<rparr>) io of
                  (err, workStatus, io) \<Rightarrow> (err, io))))"

definition handleWorkStatus ::
    "('w, 'm, 'g) env \<Rightarrow> runtime_object \<Rightarrow> bool \<Rightarrow> ('m, 'w) sys \<Rightarrow> (go_error option \<times> ('m, 'w) sys) outcome" where
  "handleWorkStatus E obj isBeingDeleted s =
     bindO (GetAppliedManifestWork E (cache_view E (world s)) obj (listers s)) (\<lambda>r.
       case r of
         Inl err \<Rightarrow> Ret (Some (Errorf (''AppliedManifestWork not found for object with name='' @ om_Name (obj_meta obj))), s)
       | Inr aWork \<Rightarrow>
           let workStatus = new_WorkStatus (clusterName s) (BuildWorkstatusName E aWork obj);
               io = (world s, hub_log s) in
           if isBeingDeleted then
             (case delete_workStatus E workStatus io of (err, io) \<Rightarrow> Ret (err, put_io io s))
           else
             (case hub_Get (hub E) workStatus io of
                (None, workStatus, io) \<Rightarrow>
                  (case report_status E obj workStatus io of (err, io) \<Rightarrow> Ret (err, put_io io s))
              | (Some err, workStatus, io) \<Rightarrow>
                  if IsNotFound E err then
                    bindO (create_workStatus E obj aWork workStatus s io) (\<lambda>(r, io).
                      case r of
                        Inl err \<Rightarrow> Ret (Some err, put_io io s)
                      | Inr None \<Rightarrow> Ret (None, put_io io s)
                      | Inr (Some workStatus) \<Rightarrow>
                          (case report_status E obj workStatus io of (err, io) \<Rightarrow> Ret (err, put_io io s)))
                  else Ret (Some err, put_io io s)))"

definition reconcile ::
    "('w, 'm, 'g) env \<Rightarrow> Key \<Rightarrow> ('m, 'w) sys \<Rightarrow> ((bool \<times> go_error option) \<times> ('m, 'w) sys) outcome" where
  "reconcile E key s =
     (let dispatch = (\<lambda>obj isBeingDeleted.
            if IsAppliedManifestWork (AnyObject obj) then handleAppliedManifestWork E obj isBeingDeleted s
            else if \<not> IsManagedByAppliedManifestWork obj then Ret ((False, None), s)
            else bindO (handleWorkStatus E obj isBeingDeleted s) (\<lambda>(err, s). Ret ((False, err), s)))
      in case GetObjectFromKey E (cache_view E (world s)) (listers s) key of
           Inr obj \<Rightarrow> dispatch obj False
         | Inl err \<Rightarrow>
             if IsNotFound E err then
               (case DeletedObject key of
                  Some obj \<Rightarrow> dispatch obj True
                | None \<Rightarrow> Ret ((False, None), s))
             else if IsListerNotFound err then Ret ((False, None), s)
             else Ret ((True, Some err), s))"

section \<open>The invariant of the whole state\<close>

text \<open>
  Every recorded list of objects, and every list a goroutine is to process, has as many UIDs as
  resources, so no loop runs past the end of one of them.
\<close>

definition tracked_wf :: "('m, 'w) sys \<Rightarrow> bool" where
  "tracked_wf s \<longleftrightarrow> (\<forall>name info. SafeMap_Get (trackedAppliedManifests s) name = Some info \<longrightarrow> wf_info info)"

definition spawned_wf :: "('m, 'w) sys \<Rightarrow> bool" where
  "spawned_wf s \<longleftrightarrow> (\<forall>(gvrs, uids) \<in> set (spawned s). length gvrs = length uids)"

definition sys_inv :: "('m, 'w) sys \<Rightarrow> bool" where
  "sys_inv s \<longleftrightarrow> agent_inv s \<and> tracked_wf s \<and> spawned_wf s"

lemma sys_invD:
  assumes "sys_inv s"
  shows "agent_inv s" and "tracked_wf s" and "spawned_wf s"
    and "SafeMap_Get (trackedAppliedManifests s) name = Some info \<Longrightarrow> wf_info info"
  using assms by (auto simp: sys_inv_def tracked_wf_def)

lemma same_registry_tracked [simp]:
  "same_registry s (s\<lparr>trackedAppliedManifests := x, spawned := y\<rparr>)"
  "same_registry s (s\<lparr>trackedAppliedManifests := x\<rparr>)"
  "same_registry s (s\<lparr>world := w, hub_log := l\<rparr>)"
  "same_registry s (s\<lparr>workqueue := q\<rparr>)"
  "same_registry s (s\<lparr>spawned := y\<rparr>)"
  "same_registry s (s\<lparr>world := w\<rparr>)"
  by (simp_all add: same_registry_def)

lemmas agent_inv_frames [simp] = same_registry_tracked [THEN agent_inv_same]
lemmas single_inv_frames [simp] = same_registry_tracked [THEN single_inv_same]

lemma sys_inv_frames [simp]:
  "sys_inv (s\<lparr>world := w, hub_log := l\<rparr>) = sys_inv s"
  "sys_inv (s\<lparr>workqueue := q\<rparr>) = sys_inv s"
  "sys_inv (s\<lparr>world := w\<rparr>) = sys_inv s"
  "sys_inv (put_io io s) = sys_inv s"
  by (simp_all add: sys_inv_def tracked_wf_def spawned_wf_def put_io_def)

text \<open>Recording a well-formed list and handing a well-formed list to a goroutine.\<close>

lemma record_info_inv:
  assumes "sys_inv s" "wf_info info" "length gvrs = length uids"
  shows "sys_inv (s\<lparr>trackedAppliedManifests := SafeMap_Set name info (trackedAppliedManifests s),
    spawned := spawned s @ [(gvrs, uids)]\<rparr>)"
  using assms by (auto simp: sys_inv_def tracked_wf_def spawned_wf_def)

lemma stopInformers_sys_inv:
  assumes "sys_inv s" "stopInformers E info s = Ret t" shows "sys_inv t"
  using assms stopInformers_frame [of s E info t] stopInformers_inv [of s E info t]
  by (simp add: sys_inv_def tracked_wf_def spawned_wf_def)

lemma startInformers_sys_inv:
  assumes "sys_inv s" "startInformers E gvrs uids s = Ret t" shows "sys_inv t"
  using assms startInformers_frame [of E gvrs uids s t] startInformers_inv [of s E gvrs uids t]
  by (simp add: sys_inv_def tracked_wf_def spawned_wf_def)

lemma forget_info_inv:
  assumes "sys_inv s"
  shows "sys_inv (s\<lparr>trackedAppliedManifests := SafeMap_Delete name (trackedAppliedManifests s)\<rparr>)"
  using assms by (auto simp: sys_inv_def tracked_wf_def spawned_wf_def split: if_splits)

subsection \<open>The cases of \<open>handleAppliedManifestWork\<close>\<close>

lemma handleAMW_cases:
  assumes "handleAppliedManifestWork E obj del s = Ret ((rq, err), t)"
  obtains (bad) e where "ToAppliedManifestWork E obj = Inl e" "rq" "err = Some e" "t = s"
  | (empty) aWork where "ToAppliedManifestWork E obj = Inr aWork" "\<not> del" "ListGVRs aWork = []" "rq" "err = None" "t = s"
  | (unchanged) aWork where "ToAppliedManifestWork E obj = Inr aWork" "\<not> del" "ListGVRs aWork \<noteq> []"
      "SafeMap_Get (trackedAppliedManifests s) (om_Name (obj_meta obj)) =
         Some \<lparr>ObjectUIDs = GetTrackedObjectsUID aWork, GVRs = ListGVRs aWork\<rparr>" "\<not> rq" "err = None" "t = s"
  | (changed) aWork old added removed where "ToAppliedManifestWork E obj = Inr aWork" "\<not> del" "ListGVRs aWork \<noteq> []"
      "SafeMap_Get (trackedAppliedManifests s) (om_Name (obj_meta obj)) = Some old"
      "old \<noteq> \<lparr>ObjectUIDs = GetTrackedObjectsUID aWork, GVRs = ListGVRs aWork\<rparr>"
      "GetAddedRemovedInfo (go_range E) old \<lparr>ObjectUIDs = GetTrackedObjectsUID aWork, GVRs = ListGVRs aWork\<rparr> = Ret (added, removed)"
      "stopInformers E removed (s\<lparr>trackedAppliedManifests := SafeMap_Set (om_Name (obj_meta obj))
           \<lparr>ObjectUIDs = GetTrackedObjectsUID aWork, GVRs = ListGVRs aWork\<rparr> (trackedAppliedManifests s),
         spawned := spawned s @ [(GVRs added, ObjectUIDs added)]\<rparr>) = Ret t" "\<not> rq" "err = None"
  | (new) aWork where "ToAppliedManifestWork E obj = Inr aWork" "\<not> del" "ListGVRs aWork \<noteq> []"
      "SafeMap_Get (trackedAppliedManifests s) (om_Name (obj_meta obj)) = None"
      "t = s\<lparr>trackedAppliedManifests := SafeMap_Set (om_Name (obj_meta obj))
           \<lparr>ObjectUIDs = GetTrackedObjectsUID aWork, GVRs = ListGVRs aWork\<rparr> (trackedAppliedManifests s),
         spawned := spawned s @ [(ListGVRs aWork, GetTrackedObjectsUID aWork)]\<rparr>" "\<not> rq" "err = None"
  | (unknown) aWork where "ToAppliedManifestWork E obj = Inr aWork" "del"
      "SafeMap_Get (trackedAppliedManifests s) (om_Name (obj_meta obj)) = None" "\<not> rq" "err = None" "t = s"
  | (deleted) aWork info u where "ToAppliedManifestWork E obj = Inr aWork" "del"
      "SafeMap_Get (trackedAppliedManifests s) (om_Name (obj_meta obj)) = Some info"
      "stopInformers E info s = Ret u"
      "t = u\<lparr>trackedAppliedManifests := SafeMap_Delete (om_Name (obj_meta obj)) (trackedAppliedManifests u)\<rparr>"
      "\<not> rq" "err = None"
proof -
  obtain g m c where obj: "obj = Unstructured g m c"
    using assms by (cases obj) (simp_all add: handleAppliedManifestWork_def)
  note def = assms [unfolded handleAppliedManifestWork_def obj runtime_object.case Let_def, folded obj]
  show thesis
  proof (cases "ToAppliedManifestWork E obj")
    case (Inl e)
    then show thesis by (rule bad) (use def Inl in simp_all)
  next
    case (Inr aWork)
    show thesis
    proof (cases del)
      case True
      show thesis
      proof (cases "SafeMap_Get (trackedAppliedManifests s) (om_Name (obj_meta obj))")
        case None
        then show thesis by (rule unknown [OF Inr True]) (use def Inr True None in simp_all)
      next
        case (Some info)
        obtain u where "stopInformers E info s = Ret u"
          and "((False, None), u\<lparr>trackedAppliedManifests := SafeMap_Delete (om_Name (obj_meta obj)) (trackedAppliedManifests u)\<rparr>) = ((rq, err), t)"
          using def Inr True Some by (auto simp: bindO_eq_Ret)
        then show thesis using deleted [OF Inr True Some] by simp
      qed
    next
      case False
      show thesis
      proof (cases "ListGVRs aWork = []")
        case True
        then show thesis by (rule empty [OF Inr False]) (use def Inr False True in simp_all)
      next
        case nonempty: False
        show thesis
        proof (cases "SafeMap_Get (trackedAppliedManifests s) (om_Name (obj_meta obj))")
          case None
          then show thesis by (rule new [OF Inr False nonempty]) (use def Inr False nonempty None in simp_all)
        next
          case (Some old)
          show thesis
          proof (cases "old = \<lparr>ObjectUIDs = GetTrackedObjectsUID aWork, GVRs = ListGVRs aWork\<rparr>")
            case True
            show thesis by (rule unchanged [OF Inr False nonempty]) (use def Inr False nonempty Some True in simp_all)
          next
            case differs: False
            with def Inr False nonempty Some show thesis
              by (auto simp: bindO_eq_Ret intro: changed [OF Inr False nonempty Some differs])
          qed
        qed
      qed
    qed
  qed
qed

lemma handleAMW_sys_inv:
  assumes "range_orders (go_range E)" "sys_inv s" "handleAppliedManifestWork E obj del s = Ret ((rq, err), t)"
  shows "sys_inv t"
  using assms(3)
proof (cases rule: handleAMW_cases)
  case (changed aWork old added removed)
  have "wf_info added"
    using GetAddedRemovedInfo_spec [OF assms(1) sys_invD(4) [OF assms(2) changed(4)] tracked_info_wf [of aWork]] changed(6)
    by (metis Pair_inject outcome.inject(1))
  then have "length (GVRs added) = length (ObjectUIDs added)" by (simp add: wf_info_def)
  with record_info_inv [OF assms(2) tracked_info_wf] changed(7) show ?thesis
    by (blast intro: stopInformers_sys_inv)
next
  case (new aWork)
  then show ?thesis
    using record_info_inv [OF assms(2) tracked_info_wf [of aWork]] tracked_info_wf [of aWork] by (simp add: wf_info_def)
next
  case (deleted aWork info u)
  then show ?thesis using stopInformers_sys_inv [OF assms(2)] forget_info_inv by blast
qed (use assms(2) in simp_all)

lemma handleAMW_returns:
  assumes "range_orders (go_range E)" "sys_inv s" "restMapper s \<noteq> None"
  shows "\<exists>r t. handleAppliedManifestWork E (Unstructured g m c) del s = Ret (r, t)"
proof (cases "ToAppliedManifestWork E (Unstructured g m c)")
  case (Inr aWork)
  let ?info = "\<lparr>ObjectUIDs = GetTrackedObjectsUID aWork, GVRs = ListGVRs aWork\<rparr>"
  have upd: "\<exists>r t. bindO (GetAddedRemovedInfo (go_range E) old ?info) (\<lambda>(addedInfo, removedInfo).
       bindO (stopInformers E removedInfo
                (s\<lparr>trackedAppliedManifests := SafeMap_Set (om_Name m) ?info (trackedAppliedManifests s),
                   spawned := spawned s @ [(GVRs addedInfo, ObjectUIDs addedInfo)]\<rparr>)) (\<lambda>s.
       Ret ((False, None :: go_error option), s))) = Ret (r, t)"
    if stored: "SafeMap_Get (trackedAppliedManifests s) (om_Name m) = Some old" for old
  proof -
    obtain a r where d: "GetAddedRemovedInfo (go_range E) old ?info = Ret (a, r)" "wf_info r"
      using GetAddedRemovedInfo_spec [OF assms(1) sys_invD(4) [OF assms(2) stored] tracked_info_wf [of aWork]] by metis
    have "\<exists>t. stopInformers E r (s\<lparr>trackedAppliedManifests := SafeMap_Set (om_Name m) ?info (trackedAppliedManifests s),
           spawned := spawned s @ [(GVRs a, ObjectUIDs a)]\<rparr>) = Ret t"
      using assms(2,3) d(2) by (intro stopInformers_returns) (simp_all add: sys_inv_def)
    with d(1) show ?thesis by auto
  qed
  have "\<exists>t. stopInformers E info s = Ret t"
    if "SafeMap_Get (trackedAppliedManifests s) (om_Name m) = Some info" for info
    using stopInformers_returns sys_invD(1) [OF assms(2)] sys_invD(4) [OF assms(2) that] assms(3) by blast
  with upd Inr show ?thesis
    unfolding handleAppliedManifestWork_def by (fastforce simp: Let_def split: option.split)
qed (auto simp: handleAppliedManifestWork_def)

section \<open>What \<open>handleWorkStatus\<close> changes\<close>

abbreviation target_ws :: "('w, 'm, 'g) env \<Rightarrow> AppliedManifestWork \<Rightarrow> runtime_object \<Rightarrow> ('m, 'w) sys \<Rightarrow> WorkStatus" where
  "target_ws E aWork obj s \<equiv> new_WorkStatus (clusterName s) (BuildWorkstatusName E aWork obj)"

abbreviation sys_io :: "('m, 'w) sys \<Rightarrow> 'w hub_io" where
  "sys_io s \<equiv> (world s, hub_log s)"

lemma handleWorkStatus_cases:
  assumes "handleWorkStatus E obj del s = Ret (err, t)"
  obtains (no_amw) e where "GetAppliedManifestWork E (cache_view E (world s)) obj (listers s) = Ret (Inl e)"
      "err = Some (Errorf (''AppliedManifestWork not found for object with name='' @ om_Name (obj_meta obj)))" "t = s"
  | (delete) aWork io where "GetAppliedManifestWork E (cache_view E (world s)) obj (listers s) = Ret (Inr aWork)"
      "del" "delete_workStatus E (target_ws E aWork obj s) (sys_io s) = (err, io)" "t = put_io io s"
  | (failed) aWork e ws io where "GetAppliedManifestWork E (cache_view E (world s)) obj (listers s) = Ret (Inr aWork)"
      "\<not> del" "hub_Get (hub E) (target_ws E aWork obj s) (sys_io s) = (Some e, ws, io)" "\<not> IsNotFound E e"
      "err = Some e" "t = put_io io s"
  | (found) aWork ws io io' where "GetAppliedManifestWork E (cache_view E (world s)) obj (listers s) = Ret (Inr aWork)"
      "\<not> del" "hub_Get (hub E) (target_ws E aWork obj s) (sys_io s) = (None, ws, io)"
      "report_status E obj ws io = (err, io')" "t = put_io io' s"
  | (missing) aWork e ws io r io1 where "GetAppliedManifestWork E (cache_view E (world s)) obj (listers s) = Ret (Inr aWork)"
      "\<not> del" "hub_Get (hub E) (target_ws E aWork obj s) (sys_io s) = (Some e, ws, io)" "IsNotFound E e"
      "create_workStatus E obj aWork ws s io = Ret (r, io1)"
      "case r of Inl e' \<Rightarrow> err = Some e' \<and> t = put_io io1 s
       | Inr None \<Rightarrow> err = None \<and> t = put_io io1 s
       | Inr (Some ws1) \<Rightarrow> (\<exists>io2. report_status E obj ws1 io1 = (err, io2) \<and> t = put_io io2 s)"
proof -
  obtain a where a: "GetAppliedManifestWork E (cache_view E (world s)) obj (listers s) = Ret a"
    using assms by (auto simp: handleWorkStatus_def bindO_eq_Ret)
  note def = assms [unfolded handleWorkStatus_def Let_def a bindO.simps]
  show thesis
  proof (cases a)
    case (Inl e)
    then show thesis using def a by (intro no_amw) auto
  next
    case (Inr aWork)
    note amw = a [unfolded Inr]
    obtain ge ws io where g: "hub_Get (hub E) (target_ws E aWork obj s) (sys_io s) = (ge, ws, io)"
      by (cases "hub_Get (hub E) (target_ws E aWork obj s) (sys_io s)")
    show thesis
    proof (cases del)
      case True
      obtain e io where d: "delete_workStatus E (target_ws E aWork obj s) (sys_io s) = (e, io)"
        by (rule prod.exhaust)
      show thesis by (rule delete [OF amw True]) (use def Inr True d in auto)
    next
      case False
      show thesis
      proof (cases ge)
        case None
        obtain e io' where r: "report_status E obj ws io = (e, io')"
          by (rule prod.exhaust)
        show thesis by (rule found [OF amw False g [unfolded None]]) (use def Inr False None g r in auto)
      next
        case (Some e)
        note g' = g [unfolded Some]
        show thesis
        proof (cases "IsNotFound E e")
          case nf: False
          then show thesis using def Inr False g' by (intro failed [OF amw False g']) auto
        next
          case True
          then obtain r io1 where c: "create_workStatus E obj aWork ws s io = Ret (r, io1)"
            using def Inr False g' by (auto simp: bindO_eq_Ret)
          show thesis
            by (rule missing [OF amw False g' True c])
              (use def Inr False g' True c in \<open>auto split: sum.splits option.splits prod.splits\<close>)
        qed
      qed
    qed
  qed
qed

lemma handleWorkStatus_state:
  assumes "handleWorkStatus E obj del s = Ret (err, t)"
  shows "\<exists>io. t = put_io io s"
  using assms
proof (cases rule: handleWorkStatus_cases)
  case no_amw
  then have "t = put_io (sys_io s) s" by (simp add: put_io_def)
  then show ?thesis ..
qed (auto split: sum.splits option.splits)

lemma handleWorkStatus_sys_inv: "sys_inv s \<Longrightarrow> handleWorkStatus E obj del s = Ret (err, t) \<Longrightarrow> sys_inv t"
  by (drule handleWorkStatus_state) auto

lemma reconcile_sys_inv:
  assumes "range_orders (go_range E)" "sys_inv s" "reconcile E key s = Ret ((rq, err), t)"
  shows "sys_inv t"
  using assms handleAMW_sys_inv [OF assms(1,2)] handleWorkStatus_sys_inv [OF assms(2)]
  unfolding reconcile_def Let_def
  by (auto simp: bindO_eq_Ret split: sum.splits if_splits option.splits)

section \<open>The cases of the creation of a WorkStatus\<close>

text \<open>The object that is sent to the hub when no WorkStatus exists.\<close>

definition created_object :: "runtime_object \<Rightarrow> GroupVersionResource \<Rightarrow> WorkStatus \<Rightarrow> WorkStatus" where
  "created_object obj gvr ws = ws\<lparr>ws_Spec := \<lparr>ws_SourceRef = source_ref gvr obj\<rparr>,
     ws_StatusDetails := zero_StatusDetails\<lparr>LastCurrencyUpdateTime := Unix 0\<rparr>\<rparr>"

lemma create_workStatus_cases:
  assumes "create_workStatus E obj aWork ws s io = Ret (r, io')"
  obtains (no_work) err w where
      "hc_GetManifestWork (hub E) (clusterName s) (amw_ManifestWorkName aWork) (fst io) = (Inl err, w)"
      "r = Inl (Wrapf ''failed to get manifestWork: '' err)"
      "io' = (w, snd io @ [Get_ManifestWork (clusterName s) (amw_ManifestWorkName aWork)])"
  | (unmanaged) mw w where
      "hc_GetManifestWork (hub E) (clusterName s) (amw_ManifestWorkName aWork) (fst io) = (Inr mw, w)"
      "\<not> managed_by_ks E (om_Labels (mw_ObjectMeta mw))" "r = Inr None"
      "io' = (w, snd io @ [Get_ManifestWork (clusterName s) (amw_ManifestWorkName aWork)])"
  | (rejected) mw w err where
      "hc_GetManifestWork (hub E) (clusterName s) (amw_ManifestWorkName aWork) (fst io) = (Inr mw, w)"
      "managed_by_ks E (om_Labels (mw_ObjectMeta mw))"
      "(\<exists>e. SetControllerReference E (mw_ObjectMeta mw) (ws_ObjectMeta ws) = Inl e) \<or>
       (\<exists>e. GetGVR E (RESTMapping E) (restMapper s) (obj_gvk obj) = Ret (Inl e))" "r = Inl err"
      "io' = (w, snd io @ [Get_ManifestWork (clusterName s) (amw_ManifestWorkName aWork)])"
  | (created) mw w m ws1 gvr err ws2 w2 where
      "hc_GetManifestWork (hub E) (clusterName s) (amw_ManifestWorkName aWork) (fst io) = (Inr mw, w)"
      "managed_by_ks E (om_Labels (mw_ObjectMeta mw))"
      "SetControllerReference E (mw_ObjectMeta mw) (ws_ObjectMeta ws) = Inr m"
      "copy_singleton_label (om_Labels (obj_meta obj))
         (ws\<lparr>ws_ObjectMeta := m\<lparr>om_Labels := om_Labels (mw_ObjectMeta mw)\<rparr>\<rparr>) = Ret ws1"
      "GetGVR E (RESTMapping E) (restMapper s) (obj_gvk obj) = Ret (Inr gvr)"
      "hc_Create (hub E) (created_object obj gvr ws1) w = (err, ws2, w2)"
      "r = (case err of None \<Rightarrow> Inr (Some ws2) | Some e \<Rightarrow> Inl (Wrapf ''failed to create workStatus: '' e))"
      "io' = (w2, snd io @ [Get_ManifestWork (clusterName s) (amw_ManifestWorkName aWork),
         Create_WorkStatus (created_object obj gvr ws1)])"
proof -
  note def = assms [unfolded create_workStatus_def GetManifestWork_def Let_def created_object_def [symmetric]]
  obtain g w where g: "hc_GetManifestWork (hub E) (clusterName s) (amw_ManifestWorkName aWork) (fst io) = (g, w)"
    by (cases "hc_GetManifestWork (hub E) (clusterName s) (amw_ManifestWorkName aWork) (fst io)")
  show thesis
  proof (cases g)
    case (Inl err)
    then show thesis using def g by (intro no_work) auto
  next
    case (Inr mw)
    note gw = g [unfolded Inr]
    show thesis
    proof (cases "managed_by_ks E (om_Labels (mw_ObjectMeta mw))")
      case False
      then show thesis using def gw by (intro unmanaged) auto
    next
      case True
      show thesis
      proof (cases "SetControllerReference E (mw_ObjectMeta mw) (ws_ObjectMeta ws)")
        case (Inl err)
        then show thesis using def gw True by (intro rejected [OF gw True]) auto
      next
        case (Inr m)
        obtain ws1 gr where ws1: "copy_singleton_label (om_Labels (obj_meta obj))
            (ws\<lparr>ws_ObjectMeta := m\<lparr>om_Labels := om_Labels (mw_ObjectMeta mw)\<rparr>\<rparr>) = Ret ws1"
          and gr: "GetGVR E (RESTMapping E) (restMapper s) (obj_gvk obj) = Ret gr"
          using def gw True Inr by (auto simp: bindO_eq_Ret)
        show thesis
        proof (cases gr)
          case (Inl err)
          then show thesis using def gw True Inr ws1 gr by (intro rejected [OF gw True]) auto
        next
          case (Inr gvr)
          obtain err ws2 w2 where c: "hc_Create (hub E) (created_object obj gvr ws1) w = (err, ws2, w2)"
            by (cases "hc_Create (hub E) (created_object obj gvr ws1) w")
          show thesis
            by (rule created [OF gw True \<open>SetControllerReference _ _ _ = Inr m\<close> ws1 gr [unfolded Inr] c])
              (use def gw True \<open>SetControllerReference _ _ _ = Inr m\<close> ws1 gr Inr c
               in \<open>auto simp: hub_Create_def split: option.splits\<close>)
        qed
      qed
    qed
  qed
qed

end
