(* ===== verification/Hub.thy ===== *)
theory Hub
  imports Reconcilers
begin

text \<open>
  The hub as the agent relies on it. The hub's API server and its client are not part of the
  repository: this theory states, as predicates over the parameter \<open>hub\<close> of the model, the
  documented behaviour that the properties assume, and gives one concrete cluster (hub store,
  caches, discovery) that has this behaviour, for the concrete instances.
\<close>

section \<open>Documented behaviour of the hub's client on names\<close>

text \<open>
  The objects a client gives back keep their name and namespace, and setting the controller
  reference does not change them.
\<close>

definition same_key :: "WorkStatus \<Rightarrow> WorkStatus \<Rightarrow> bool" where
  "same_key a b \<longleftrightarrow> ws_name a = ws_name b \<and> ws_namespace a = ws_namespace b"

definition hub_names_doc :: "'w hub_client \<Rightarrow> bool" where
  "hub_names_doc H \<longleftrightarrow>
     (\<forall>ws w. same_key (fst (snd (hc_Get H (ws_namespace ws) (ws_name ws) ws w))) ws) \<and>
     (\<forall>ws w. same_key (fst (snd (hc_Create H ws w))) ws) \<and>
     (\<forall>ws p w. same_key (fst (snd (hc_Patch H ws p w))) ws)"

definition owner_ref_doc :: "'x k8slib_scheme \<Rightarrow> bool" where
  "owner_ref_doc L \<longleftrightarrow>
     (\<forall>x m m'. SetControllerReference L x m = Inr m' \<longrightarrow> om_Name m' = om_Name m \<and> om_Namespace m' = om_Namespace m)"

lemma hub_names_docD:
  assumes "hub_names_doc H"
  shows "hub_Get H ws io = (e, ws', io') \<Longrightarrow> same_key ws' ws"
    and "hc_Create H ws w = (e, ws', w') \<Longrightarrow> same_key ws' ws"
    and "hub_Patch H ws p io = (e, ws', io') \<Longrightarrow> same_key ws' ws"
  using assms by (auto simp: hub_names_doc_def hub_Get_def hub_Patch_def split: prod.splits) (metis fst_conv snd_conv)+

lemma same_key_target: "same_key ws (new_WorkStatus ns n) \<longleftrightarrow> ws_namespace ws = ns \<and> ws_name ws = n"
  by (auto simp: same_key_def new_WorkStatus_def new_meta_def)

lemma same_key_trans: "same_key a b \<Longrightarrow> same_key b c \<Longrightarrow> same_key a c"
  by (simp add: same_key_def)

section \<open>Documented behaviour of the hub as a store\<close>

text \<open>
  \<open>store w\<close> is the set of WorkStatus objects of the hub in the world \<open>w\<close>, by namespace and name.
  A read that succeeds gives the stored object; \<^verbatim>\<open>NotFound\<close> means there is none, and then the argument
  is not changed. A create stores the object sent; a merge patch of the form the agent sends sets one
  label of the stored object; an update of the status subresource sets the status and leaves
  labels and specification; a delete removes the object. A call, failed or not, concerns no other
  object. No other client writes WorkStatus objects while the handler runs.
\<close>

definition ws_key :: "WorkStatus \<Rightarrow> string \<times> string" where
  "ws_key ws = (ws_namespace ws, ws_name ws)"

definition label_value :: "string \<Rightarrow> bool" where
  "label_value v \<longleftrightarrow> (\<forall>c \<in> set v. c \<noteq> CHR 0x22 \<and> c \<noteq> CHR 0x5C \<and> CHR 0x20 \<le> c \<and> c < CHR 0x7F)"

type_synonym 'w hub_store = "'w \<Rightarrow> string \<times> string \<rightharpoonup> WorkStatus"

definition others_kept :: "'w hub_store \<Rightarrow> string \<times> string \<Rightarrow> 'w \<Rightarrow> 'w \<Rightarrow> bool" where
  "others_kept store k w w' \<longleftrightarrow> (\<forall>k'. k' \<noteq> k \<longrightarrow> store w' k' = store w k')"

definition hub_get_doc :: "('w, 'm, 'g) env \<Rightarrow> 'w hub_store \<Rightarrow> bool" where
  "hub_get_doc E store \<longleftrightarrow>
     (\<forall>w k ws. store w k = Some ws \<longrightarrow> ws_key ws = k) \<and>
     (\<forall>ws w e ws' w'. hc_Get (hub E) (ws_namespace ws) (ws_name ws) ws w = (e, ws', w') \<longrightarrow> store w' = store w \<and>
        (case e of None \<Rightarrow> store w (ws_key ws) = Some ws'
         | Some e \<Rightarrow> IsNotFound E e \<longrightarrow> store w (ws_key ws) = None \<and> ws' = ws)) \<and>
     (\<forall>ns n w r w'. hc_GetManifestWork (hub E) ns n w = (r, w') \<longrightarrow> store w' = store w)"

definition hub_create_doc :: "('w, 'm, 'g) env \<Rightarrow> 'w hub_store \<Rightarrow> bool" where
  "hub_create_doc E store \<longleftrightarrow>
     (\<forall>ws w e ws' w'. hc_Create (hub E) ws w = (e, ws', w') \<longrightarrow> others_kept store (ws_key ws) w w' \<and>
        (e = None \<longrightarrow> store w' (ws_key ws) = Some ws' \<and> ws_Spec ws' = ws_Spec ws \<and>
           om_Labels (ws_ObjectMeta ws') = om_Labels (ws_ObjectMeta ws)))"

definition hub_delete_doc :: "('w, 'm, 'g) env \<Rightarrow> 'w hub_store \<Rightarrow> bool" where
  "hub_delete_doc E store \<longleftrightarrow>
     (\<forall>ws w e w'. hc_Delete (hub E) ws w = (e, w') \<longrightarrow> others_kept store (ws_key ws) w w' \<and>
        (case e of None \<Rightarrow> store w' (ws_key ws) = None
         | Some e \<Rightarrow> IsNotFound E e \<longrightarrow> store w' (ws_key ws) = None))"

definition hub_patch_doc :: "('w, 'm, 'g) env \<Rightarrow> 'w hub_store \<Rightarrow> bool" where
  "hub_patch_doc E store \<longleftrightarrow>
     (\<forall>ws v w e ws' w'. label_value v \<longrightarrow> hc_Patch (hub E) ws (singleton_patch v) w = (e, ws', w') \<longrightarrow>
        others_kept store (ws_key ws) w w' \<and>
        (e = None \<longrightarrow> store w' (ws_key ws) = Some ws' \<and>
           (\<exists>old. store w (ws_key ws) = Some old \<and> ws_Spec ws' = ws_Spec old \<and>
              gomap_get (om_Labels (ws_ObjectMeta ws')) =
                (gomap_get (om_Labels (ws_ObjectMeta old)))(SingletonstatusLabelKey \<mapsto> v))))"

definition hub_status_doc :: "('w, 'm, 'g) env \<Rightarrow> 'w hub_store \<Rightarrow> bool" where
  "hub_status_doc E store \<longleftrightarrow>
     (\<forall>ws w e ws' w'. hc_StatusUpdate (hub E) ws w = (e, ws', w') \<longrightarrow> others_kept store (ws_key ws) w w' \<and>
        (e = None \<longrightarrow> store w' (ws_key ws) = Some ws' \<and> ws_Status ws' = ws_Status ws \<and>
           (\<exists>old. store w (ws_key ws) = Some old \<and> ws_Spec ws' = ws_Spec old \<and>
              om_Labels (ws_ObjectMeta ws') = om_Labels (ws_ObjectMeta old))))"

definition hub_doc :: "('w, 'm, 'g) env \<Rightarrow> 'w hub_store \<Rightarrow> bool" where
  "hub_doc E store \<longleftrightarrow> hub_get_doc E store \<and> hub_create_doc E store \<and> hub_delete_doc E store \<and>
     hub_patch_doc E store \<and> hub_status_doc E store"

text \<open>
  A hub that does not fail for the time being: while the world is in \<open>W\<close>, which the calls of the agent do not leave, reads fail
  only with \<^verbatim>\<open>NotFound\<close> on an absent object, and a create of an absent object, a patch of a present one and an
  update of the status of a present one succeed, the last if the object sent has the resource version
  of the stored one: the API server answers an update of an older version with a conflict. Nothing is said of reads of manifest works.
\<close>

definition hub_up :: "('w, 'm, 'g) env \<Rightarrow> 'w hub_store \<Rightarrow> 'w set \<Rightarrow> bool" where
  "hub_up E store W \<longleftrightarrow> (\<forall>w \<in> W.
     (\<forall>ws e ws' w'. hc_Get (hub E) (ws_namespace ws) (ws_name ws) ws w = (e, ws', w') \<longrightarrow> w' \<in> W \<and> (\<forall>x. e = Some x \<longrightarrow> IsNotFound E x)) \<and>
     (\<forall>ns n r w'. hc_GetManifestWork (hub E) ns n w = (r, w') \<longrightarrow> w' \<in> W) \<and>
     (\<forall>ws e ws' w'. store w (ws_key ws) = None \<longrightarrow> hc_Create (hub E) ws w = (e, ws', w') \<longrightarrow> w' \<in> W \<and> e = None) \<and>
     (\<forall>ws p e ws' w'. store w (ws_key ws) \<noteq> None \<longrightarrow> hc_Patch (hub E) ws p w = (e, ws', w') \<longrightarrow> w' \<in> W \<and> e = None) \<and>
     (\<forall>ws old e ws' w'. store w (ws_key ws) = Some old \<longrightarrow>
        om_ResourceVersion (ws_ObjectMeta ws) = om_ResourceVersion (ws_ObjectMeta old) \<longrightarrow>
        hc_StatusUpdate (hub E) ws w = (e, ws', w') \<longrightarrow> w' \<in> W \<and> e = None))"

lemma hub_upD:
  assumes "hub_up E store W" "w \<in> W"
  shows "hc_Get (hub E) (ws_namespace ws) (ws_name ws) ws w = (e, ws', w') \<Longrightarrow> w' \<in> W \<and> (\<forall>x. e = Some x \<longrightarrow> IsNotFound E x)"
    and "hc_GetManifestWork (hub E) ns n w = (r, w') \<Longrightarrow> w' \<in> W"
    and "store w (ws_key ws) = None \<Longrightarrow> hc_Create (hub E) ws w = (e, ws', w') \<Longrightarrow> w' \<in> W \<and> e = None"
    and "store w (ws_key ws) \<noteq> None \<Longrightarrow> hc_Patch (hub E) ws p w = (e, ws', w') \<Longrightarrow> w' \<in> W \<and> e = None"
    and "store w (ws_key ws) = Some old \<Longrightarrow> om_ResourceVersion (ws_ObjectMeta ws) = om_ResourceVersion (ws_ObjectMeta old) \<Longrightarrow>
      hc_StatusUpdate (hub E) ws w = (e, ws', w') \<Longrightarrow> w' \<in> W \<and> e = None"
  using bspec [OF assms(1) [unfolded hub_up_def] assms(2)] by simp_all

text \<open>
  A manifest work that is on the hub while the world is in \<open>W\<close>, with a label of KubeStellar; and when an object may be made the controller
  of another: \<^verbatim>\<open>SetControllerReference\<close> documents errors for an object that has a controller already and
  for an owner in another namespace.
\<close>

definition ks_labelled :: "ManifestWork \<Rightarrow> bool" where
  "ks_labelled mw \<longleftrightarrow> (\<exists>k v. gomap_get (om_Labels (mw_ObjectMeta mw)) k = Some v \<and>
     (strings_HasPrefix k ManagedByKSLabelKeyPrefix \<or> strings_HasPrefix k TransportLabelPrefix))"

lemma ks_labelled_managed:
  "ks_labelled mw \<Longrightarrow> range_orders (go_range E) \<Longrightarrow> managed_by_ks (E :: ('w, 'm, 'g) env) (om_Labels (mw_ObjectMeta mw))"
  by (auto simp: ks_labelled_def managed_by_ks_def HasPrefixInMap_iff)

definition work_there :: "('w, 'm, 'g) env \<Rightarrow> 'w set \<Rightarrow> string \<Rightarrow> string \<Rightarrow> bool" where
  "work_there E W ns n \<longleftrightarrow> (\<forall>w \<in> W. \<forall>r w'. hc_GetManifestWork (hub E) ns n w = (r, w') \<longrightarrow>
     (\<exists>mw. r = Inr mw \<and> om_Namespace (mw_ObjectMeta mw) = ns \<and> ks_labelled mw))"

definition owner_accept_doc :: "'x k8slib_scheme \<Rightarrow> bool" where
  "owner_accept_doc L \<longleftrightarrow>
     (\<forall>x m. om_OwnerReferences m = [] \<longrightarrow> om_Namespace x = om_Namespace m \<longrightarrow> (\<exists>m'. SetControllerReference L x m = Inr m'))"

section \<open>A concrete cluster\<close>

record cluster =
  cl_ws :: "(string \<times> string, WorkStatus) fmap"
  cl_labels :: "string gomap"
  cl_objs :: "(string \<times> runtime_object) list"

definition cl_not_found :: "string \<Rightarrow> go_error" where
  "cl_not_found n = Extern ''NotFound'' (n @ '' not found'')"

definition cl_get :: "string \<Rightarrow> string \<Rightarrow> WorkStatus \<Rightarrow> cluster \<Rightarrow> go_error option \<times> WorkStatus \<times> cluster" where
  "cl_get ns n ws w =
     (case fmlookup (cl_ws w) (ns, n) of
        None \<Rightarrow> (Some (cl_not_found n), ws, w)
      | Some x \<Rightarrow> (None, x\<lparr>ws_ObjectMeta := (ws_ObjectMeta x)\<lparr>om_Name := n, om_Namespace := ns\<rparr>\<rparr>, w))"

definition cl_put :: "WorkStatus \<Rightarrow> cluster \<Rightarrow> cluster" where
  "cl_put ws w = w\<lparr>cl_ws := fmupd (ws_key ws) ws (cl_ws w)\<rparr>"

definition cl_modify :: "(WorkStatus \<Rightarrow> WorkStatus) \<Rightarrow> WorkStatus \<Rightarrow> cluster \<Rightarrow> go_error option \<times> WorkStatus \<times> cluster" where
  "cl_modify f ws w =
     (case fmlookup (cl_ws w) (ws_key ws) of
        None \<Rightarrow> (Some (cl_not_found (ws_name ws)), ws, w)
      | Some old \<Rightarrow>
          let new = (f old)\<lparr>ws_ObjectMeta := (ws_ObjectMeta (f old))\<lparr>om_Name := ws_name ws, om_Namespace := ws_namespace ws\<rparr>\<rparr>
          in (None, new, cl_put new w))"

definition cl_patch_value :: "string \<Rightarrow> string" where
  "cl_patch_value p = (let v = drop (length (singleton_patch '''') - 4) p in take (length v - 4) v)"

definition cl_set_label :: "string \<Rightarrow> WorkStatus \<Rightarrow> WorkStatus" where
  "cl_set_label v ws = ws\<lparr>ws_ObjectMeta := (ws_ObjectMeta ws)\<lparr>om_Labels :=
     Some (fmupd SingletonstatusLabelKey v (case om_Labels (ws_ObjectMeta ws) of None \<Rightarrow> fmempty | Some t \<Rightarrow> t))\<rparr>\<rparr>"

definition cl_hub :: "cluster hub_client" where
  "cl_hub = \<lparr>hc_Get = cl_get,
     hc_GetManifestWork = (\<lambda>ns n w. (Inr \<lparr>mw_ObjectMeta = (new_meta ns n)\<lparr>om_Labels := cl_labels w\<rparr>\<rparr>, w)),
     hc_Create = (\<lambda>ws w. if fmlookup (cl_ws w) (ws_key ws) = None then (None, ws, cl_put ws w)
                         else (Some (Extern ''AlreadyExists'' ''already exists''), ws, w)),
     hc_Delete = (\<lambda>ws w. if fmlookup (cl_ws w) (ws_key ws) = None then (Some (cl_not_found (ws_name ws)), w)
                         else (None, w\<lparr>cl_ws := fmdrop (ws_key ws) (cl_ws w)\<rparr>)),
     hc_Patch = (\<lambda>ws p. cl_modify (cl_set_label (cl_patch_value p)) ws),
     hc_StatusUpdate = (\<lambda>ws. cl_modify (\<lambda>old. old\<lparr>ws_Status := ws_Status ws\<rparr>) ws)\<rparr>"

text \<open>The store of the cluster: the objects as a read returns them.\<close>

definition cl_store :: "cluster hub_store" where
  "cl_store w k = map_option (\<lambda>x. x\<lparr>ws_ObjectMeta := (ws_ObjectMeta x)\<lparr>om_Name := snd k, om_Namespace := fst k\<rparr>\<rparr>)
     (fmlookup (cl_ws w) k)"

lemma cl_patch_value_singleton: "cl_patch_value (singleton_patch v) = v"
  by (simp add: cl_patch_value_def singleton_patch_def SingletonstatusLabelKey_def)

lemma ws_key_retarget [simp]:
  "ws_key (x\<lparr>ws_ObjectMeta := (ws_ObjectMeta y)\<lparr>om_Name := n, om_Namespace := ns\<rparr>\<rparr>) = (ns, n)"
  by (simp add: ws_key_def)

lemma retarget_id [simp]:
  "ws\<lparr>ws_ObjectMeta := (ws_ObjectMeta ws)\<lparr>om_Name := ws_name ws, om_Namespace := ws_namespace ws\<rparr>\<rparr> = ws"
  by (cases ws) simp

text \<open>The caches, the decoding of an applied manifest work, and discovery.\<close>

definition cl_find :: "cluster \<Rightarrow> lister \<Rightarrow> string \<Rightarrow> string \<Rightarrow> go_error + runtime_object" where
  "cl_find w l ns n =
     (case find (\<lambda>(r, obj). r = lst_Resource l \<and> (case obj of Unstructured g m c \<Rightarrow> True | Struct g m f \<Rightarrow> False) \<and>
              om_Namespace (obj_meta obj) = ns \<and> om_Name (obj_meta obj) = n) (cl_objs w) of
        None \<Rightarrow> Inl (cl_not_found n)
      | Some (r, obj) \<Rightarrow> Inr obj)"

definition cl_string :: "json list \<Rightarrow> nat \<Rightarrow> string" where
  "cl_string js i = (if i < length js then (case js ! i of JString x \<Rightarrow> x | _ \<Rightarrow> []) else [])"

definition cl_resource :: "json \<Rightarrow> AppliedManifestResourceMeta" where
  "cl_resource j = (let js = (case j of JArray xs \<Rightarrow> xs | _ \<Rightarrow> []) in
     \<lparr>ar_Group = cl_string js 0, ar_Version = cl_string js 1, ar_Resource = cl_string js 2,
      ar_Namespace = cl_string js 3, ar_Name = cl_string js 4, ar_UID = cl_string js 5\<rparr>)"

definition cl_decode :: "runtime_object \<Rightarrow> go_error + AppliedManifestWork" where
  "cl_decode obj =
     (case obj of
        Struct g m f \<Rightarrow> Inl (Errorf ''not unstructured'')
      | Unstructured g m c \<Rightarrow>
          Inr \<lparr>amw_ObjectMeta = m,
               amw_ManifestWorkName = (case fmlookup c ''spec'' of Some (JString n) \<Rightarrow> n | _ \<Rightarrow> ''''),
               amw_AppliedResources = (case fmlookup c ''status'' of Some (JArray rs) \<Rightarrow> map cl_resource rs | _ \<Rightarrow> [])\<rparr>)"

definition cl_kinds :: "(GroupVersionResource \<times> GroupVersionKind) list" where
  "cl_kinds =
     [(\<lparr>gvr_Group = ''apps'', gvr_Version = ''v1'', gvr_Resource = ''deployments''\<rparr>,
       \<lparr>gvk_Group = ''apps'', gvk_Version = ''v1'', gvk_Kind = ''Deployment''\<rparr>),
      (\<lparr>gvr_Group = ''apps'', gvr_Version = ''v1'', gvr_Resource = ''daemonsets''\<rparr>,
       \<lparr>gvk_Group = ''apps'', gvk_Version = ''v1'', gvk_Kind = ''DaemonSet''\<rparr>),
      (\<lparr>gvr_Group = '''', gvr_Version = ''v1'', gvr_Resource = ''configmaps''\<rparr>,
       \<lparr>gvk_Group = '''', gvk_Version = ''v1'', gvk_Kind = ''ConfigMap''\<rparr>)]"

definition cl_KindFor :: "unit \<Rightarrow> GroupVersionResource \<Rightarrow> go_error + GroupVersionKind" where
  "cl_KindFor m gvr = (case map_of cl_kinds gvr of None \<Rightarrow> Inl (Extern ''NoMatch'' ''no matches'') | Some k \<Rightarrow> Inr k)"

definition cl_RESTMapping :: "unit \<Rightarrow> string \<Rightarrow> string \<Rightarrow> string \<Rightarrow> go_error + GroupVersionResource" where
  "cl_RESTMapping m grp kind version =
     (case find (\<lambda>(gvr, k). k = \<lparr>gvk_Group = grp, gvk_Version = version, gvk_Kind = kind\<rparr>) cl_kinds of
        None \<Rightarrow> Inl (Extern ''NoMatch'' ''no matches'') | Some (gvr, k) \<Rightarrow> Inr gvr)"

definition cl_env :: "(cluster, unit, unit) env" where
  "cl_env = k8slib.extend (doc_lib\<lparr>FromUnstructured := cl_decode\<rparr>)
     (env.fields (\<lambda>w. (Inr (), w)) (\<lambda>g. g) cl_KindFor cl_RESTMapping
        (\<lambda>w. \<lparr>lister_Get = \<lambda>l n. cl_find w l '''' n, lister_ByNamespace_Get = \<lambda>l ns n. cl_find w l ns n\<rparr>)
        cl_hub sorted_order)"

lemma cl_env_fields [simp]:
  "hub cl_env = cl_hub" "go_range cl_env = sorted_order" "KindFor cl_env = cl_KindFor"
  "RESTMapping cl_env = cl_RESTMapping" "FromUnstructured cl_env = cl_decode"
  "GetAPIGroupResources cl_env = (\<lambda>w. (Inr (), w))" "NewDiscoveryRESTMapper cl_env = (\<lambda>g. g)"
  "cache_view cl_env w = \<lparr>lister_Get = \<lambda>l n. cl_find w l '''' n, lister_ByNamespace_Get = \<lambda>l ns n. cl_find w l ns n\<rparr>"
  "IsNotFound cl_env = IsNotFound doc_lib" "SetControllerReference cl_env = SetControllerReference doc_lib"
  "GroupVersion_String cl_env = GroupVersion_String doc_lib"
  "GroupVersionKind_String cl_env = GroupVersionKind_String doc_lib"
  "MetaNamespaceKeyFunc cl_env = MetaNamespaceKeyFunc doc_lib"
  "SplitMetaNamespaceKey cl_env = SplitMetaNamespaceKey doc_lib"
  "NestedFieldNoCopy cl_env = NestedFieldNoCopy doc_lib" "ToUnstructured cl_env = ToUnstructured doc_lib"
  "json_Marshal cl_env = json_Marshal doc_lib"
  by (simp_all add: cl_env_def k8slib.defs env.defs doc_lib_def)

lemma cl_env_laws:
  "gv_string_doc cl_env" "gvk_string_doc cl_env" "meta_key_doc cl_env" "split_key_doc cl_env"
  "nested_field_doc cl_env" "not_found_doc cl_env" "owner_ref_doc cl_env" "range_orders (go_range cl_env)"
  using doc_lib_laws
  by (simp_all add: gv_string_doc_def gvk_string_doc_def meta_key_doc_def split_key_doc_def nested_field_doc_def
      not_found_doc_def owner_ref_doc_def sorted_order_range) (auto simp: doc_lib_def)

lemma cl_not_found_doc [simp]: "IsNotFound doc_lib (cl_not_found n)"
  by (simp add: doc_lib_def cl_not_found_def)

lemma cl_modify_doc:
  assumes "cl_modify f ws w = (e, ws', w')"
  shows "others_kept cl_store (ws_key ws) w w'"
    and "e = None \<Longrightarrow> \<exists>old. cl_store w (ws_key ws) = Some old \<and> cl_store w' (ws_key ws) = Some ws' \<and>
      (\<exists>x. fmlookup (cl_ws w) (ws_key ws) = Some x \<and> ws_Spec old = ws_Spec x \<and>
         om_Labels (ws_ObjectMeta old) = om_Labels (ws_ObjectMeta x) \<and>
         ws' = (f x)\<lparr>ws_ObjectMeta := (ws_ObjectMeta (f x))\<lparr>om_Name := ws_name ws, om_Namespace := ws_namespace ws\<rparr>\<rparr>)"
  using assms by (auto simp: cl_modify_def others_kept_def cl_store_def cl_put_def ws_key_def Let_def split: option.splits)

lemma cl_set_label_spec:
  "ws_Spec (cl_set_label v x) = ws_Spec x"
  "gomap_get (om_Labels (ws_ObjectMeta (cl_set_label v x))) =
     (gomap_get (om_Labels (ws_ObjectMeta x)))(SingletonstatusLabelKey \<mapsto> v)"
  by (auto simp: cl_set_label_def gomap_get_def fun_eq_iff split: option.split)

lemma cl_hub_doc: "hub_doc cl_env cl_store"
proof -
  have "hub_get_doc cl_env cl_store"
    by (auto simp: hub_get_doc_def cl_hub_def cl_get_def cl_store_def ws_key_def split: option.splits)
  moreover have "hub_create_doc cl_env cl_store"
    by (auto simp: hub_create_doc_def cl_hub_def cl_put_def cl_store_def ws_key_def others_kept_def split: if_splits)
  moreover have "hub_delete_doc cl_env cl_store"
    by (auto simp: hub_delete_doc_def cl_hub_def cl_store_def others_kept_def split: if_splits)
  moreover have "hub_patch_doc cl_env cl_store"
    unfolding hub_patch_doc_def
  proof (intro allI impI)
    fix ws v w e ws' w'
    assume "hc_Patch (hub cl_env) ws (singleton_patch v) w = (e, ws', w')"
    then have m: "cl_modify (cl_set_label v) ws w = (e, ws', w')"
      by (simp add: cl_hub_def cl_patch_value_singleton)
    show "others_kept cl_store (ws_key ws) w w' \<and> (e = None \<longrightarrow> cl_store w' (ws_key ws) = Some ws' \<and>
        (\<exists>old. cl_store w (ws_key ws) = Some old \<and> ws_Spec ws' = ws_Spec old \<and>
           gomap_get (om_Labels (ws_ObjectMeta ws')) = (gomap_get (om_Labels (ws_ObjectMeta old)))(SingletonstatusLabelKey \<mapsto> v)))"
      using cl_modify_doc [OF m] by (auto simp: cl_set_label_spec)
  qed
  moreover have "hub_status_doc cl_env cl_store"
    unfolding hub_status_doc_def
  proof (intro allI impI)
    fix ws w e ws' w'
    assume "hc_StatusUpdate (hub cl_env) ws w = (e, ws', w')"
    then have m: "cl_modify (\<lambda>old. old\<lparr>ws_Status := ws_Status ws\<rparr>) ws w = (e, ws', w')"
      by (simp add: cl_hub_def)
    show "others_kept cl_store (ws_key ws) w w' \<and> (e = None \<longrightarrow> cl_store w' (ws_key ws) = Some ws' \<and>
        ws_Status ws' = ws_Status ws \<and> (\<exists>old. cl_store w (ws_key ws) = Some old \<and> ws_Spec ws' = ws_Spec old \<and>
           om_Labels (ws_ObjectMeta ws') = om_Labels (ws_ObjectMeta old)))"
      using cl_modify_doc [OF m] by auto
  qed
  ultimately show ?thesis by (simp add: hub_doc_def)
qed

lemma cl_hub_up: "hub_up cl_env cl_store {w. cl_objs w = o' \<and> cl_labels w = l}"
  by (auto simp: hub_up_def cl_hub_def cl_get_def cl_put_def cl_modify_def cl_store_def Let_def split: option.splits if_splits)

lemma cl_owner_accept: "owner_accept_doc cl_env"
  by (simp add: owner_accept_doc_def doc_lib_def)

lemma cl_hub_names: "hub_names_doc (hub cl_env)"
  by (auto simp: hub_names_doc_def same_key_def cl_hub_def cl_get_def cl_modify_def Let_def split: option.splits)

text \<open>A deployment applied by a manifest work, and an agent that watches applied manifest works.\<close>

definition ex_amw_object :: runtime_object where
  "ex_amw_object = Unstructured amw_gvk ((new_meta '''' ''hub-work'')\<lparr>om_UID := ''u-amw''\<rparr>)
     (fmupd ''spec'' (JString ''work'') (fmupd ''status''
        (JArray [JArray (map JString [''apps'', ''v1'', ''deployments'', ''ns'', ''web'', ''u-web''])]) fmempty))"

definition ex_aWork :: AppliedManifestWork where
  "ex_aWork = \<lparr>amw_ObjectMeta = (new_meta '''' ''hub-work'')\<lparr>om_UID := ''u-amw''\<rparr>, amw_ManifestWorkName = ''work'',
     amw_AppliedResources = [\<lparr>ar_Group = ''apps'', ar_Version = ''v1'', ar_Resource = ''deployments'',
       ar_Namespace = ''ns'', ar_Name = ''web'', ar_UID = ''u-web''\<rparr>]\<rparr>"

definition ex_deployment :: runtime_object where
  "ex_deployment = Unstructured \<lparr>gvk_Group = ''apps'', gvk_Version = ''v1'', gvk_Kind = ''Deployment''\<rparr>
     ((new_meta ''ns'' ''web'')\<lparr>om_UID := ''u-web'', om_ResourceVersion := ''7'',
        om_Labels := Some (fmupd SingletonstatusLabelKey ''true'' fmempty),
        om_OwnerReferences := [\<lparr>or_APIVersion = ''work.open-cluster-management.io/v1'', or_Kind = ''AppliedManifestWork'',
          or_Name = ''hub-work'', or_UID = ''u-amw'', or_Controller = False\<rparr>]\<rparr>)
     (fmupd ''status'' (JObject [(''readyReplicas'', JNumber ''1'')]) fmempty)"

definition ex_world :: cluster where
  "ex_world = \<lparr>cl_ws = fmempty, cl_labels = Some (fmupd ''transport.kubestellar.io/originWdsName'' ''wds1'' fmempty),
     cl_objs = [(AppliedManifestWorkResource, ex_amw_object), (''deployments'', ex_deployment)]\<rparr>"

definition ex_worlds :: "cluster set" where
  "ex_worlds = {w. cl_objs w = cl_objs ex_world \<and> cl_labels w = cl_labels ex_world}"

lemma ex_worlds_ex_world [simp]: "ex_world \<in> ex_worlds" "cl_put ws ex_world \<in> ex_worlds"
  by (simp_all add: ex_worlds_def cl_put_def)

lemma ex_hub_up: "hub_up cl_env cl_store ex_worlds"
  unfolding ex_worlds_def by (rule cl_hub_up)

lemma ex_work_there: "work_there cl_env ex_worlds ns n"
  by (auto simp: work_there_def ex_worlds_def cl_hub_def ks_labelled_def ex_world_def gomap_get_def new_meta_def
      TransportLabelPrefix_def strings_HasPrefix_def)

definition blank_sys :: "'w \<Rightarrow> (unit, 'w) sys" where
  "blank_sys w = \<lparr>agentName = ''status-agent'', clusterName = ''cluster1'', restMapper = Some (), listers = NewSafeMap,
     informers = NewSafeMap, trackedAppliedManifests = NewSafeMap, objectsCount = NewSafeUIDMap, stoppers = NewSafeMap,
     workqueue = [], next_chan = 1, closed_chans = [], next_factory = 1, handlers = [], running = [], spawned = [],
     world = w, hub_log = []\<rparr>"

definition ex_sys :: "(unit, cluster) sys" where
  "ex_sys = startAppliedManifestWorkInformer 0 (blank_sys ex_world)"

lemma ex_sys_fields [simp]:
  "world ex_sys = ex_world" "clusterName ex_sys = ''cluster1''" "restMapper ex_sys = Some ()"
  "SafeMap_Get (listers ex_sys) amw_key = Some \<lparr>lst_informer = Informer 0 \<lparr>gvr_Group = workv1_Group, gvr_Version = workv1_Version,
     gvr_Resource = AppliedManifestWorkResource\<rparr>, lst_Group = workv1_Group, lst_Resource = AppliedManifestWorkResource\<rparr>"
  by (simp_all add: ex_sys_def startAppliedManifestWorkInformer_def blank_sys_def Let_def amw_key_eq amw_gvk_def)

lemma ex_owner: "GetAppliedManifestWorkName ex_deployment = ''hub-work''"
  by (simp add: GetAppliedManifestWorkName_def ex_deployment_def workv1_apiVersion_def workv1_Group_def workv1_Version_def
      AppliedManifestWorkKind_def)

lemma ex_decode: "cl_decode ex_amw_object = Inr ex_aWork"
  by (simp add: cl_decode_def ex_amw_object_def ex_aWork_def cl_resource_def cl_string_def)

lemma ex_GetAMW_listers:
  assumes "SafeMap_Get ls amw_key = Some l" "lst_Resource l = AppliedManifestWorkResource"
  shows "GetAppliedManifestWork cl_env (cache_view cl_env ex_world) ex_deployment ls = Ret (Inr ex_aWork)"
proof -
  have find: "cl_find ex_world l '''' ''hub-work'' = Inr ex_amw_object"
    using assms(2) by (simp add: cl_find_def ex_world_def ex_amw_object_def new_meta_def)
  obtain g m c where u: "ex_amw_object = Unstructured g m c" by (simp add: ex_amw_object_def)
  show ?thesis
    using ex_decode find assms(1) by (simp add: GetAppliedManifestWork_def ex_owner ToAppliedManifestWork_def u)
qed

lemma ex_GetAMW:
  "GetAppliedManifestWork cl_env (cache_view cl_env ex_world) ex_deployment (listers ex_sys) = Ret (Inr ex_aWork)"
  by (rule ex_GetAMW_listers [OF ex_sys_fields(4)]) simp

end
