(* ===== verification/Reporting.thy ===== *)
theory Reporting
  imports Hub
begin

text \<open>
  What \<open>handleWorkStatus\<close> (pkg/agent/reconcilers.go) does to the hub: the sequences of calls it
  can make, the objects they name, when it writes nothing, that it does not panic, and, for a hub
  that behaves as its API is documented to, what the hub holds afterwards.
\<close>

section \<open>Calls as access control sees them\<close>

text \<open>Verb, API group and resource of a call.\<close>

fun hub_access :: "hub_call \<Rightarrow> string \<times> string \<times> string" where
  "hub_access (Get_WorkStatus ns n) = (''get'', ''control.kubestellar.io'', ''workstatuses'')"
| "hub_access (Get_ManifestWork ns n) = (''get'', ''work.open-cluster-management.io'', ''manifestworks'')"
| "hub_access (Create_WorkStatus ws) = (''create'', ''control.kubestellar.io'', ''workstatuses'')"
| "hub_access (Delete_WorkStatus ns n) = (''delete'', ''control.kubestellar.io'', ''workstatuses'')"
| "hub_access (Patch_WorkStatus ns n p) = (''patch'', ''control.kubestellar.io'', ''workstatuses'')"
| "hub_access (Update_WorkStatus_status ws) = (''update'', ''control.kubestellar.io'', ''workstatuses/status'')"

text \<open>A call concerns the WorkStatus of one namespace and name, or reads the manifest work of the namespace.\<close>

fun call_on :: "string \<Rightarrow> string \<Rightarrow> string \<Rightarrow> hub_call \<Rightarrow> bool" where
  "call_on ns n mw (Get_WorkStatus a b) \<longleftrightarrow> a = ns \<and> b = n"
| "call_on ns n mw (Get_ManifestWork a b) \<longleftrightarrow> a = ns \<and> b = mw"
| "call_on ns n mw (Create_WorkStatus ws) \<longleftrightarrow> ws_namespace ws = ns \<and> ws_name ws = n"
| "call_on ns n mw (Delete_WorkStatus a b) \<longleftrightarrow> a = ns \<and> b = n"
| "call_on ns n mw (Patch_WorkStatus a b p) \<longleftrightarrow> a = ns \<and> b = n"
| "call_on ns n mw (Update_WorkStatus_status ws) \<longleftrightarrow> ws_namespace ws = ns \<and> ws_name ws = n"

text \<open>The sequences of calls: reporting patches the label at most once and updates the status at most once, last.\<close>

definition report_shapes :: "(string \<times> string \<times> string) list set" where
  "report_shapes =
     (let patch = (''patch'', ''control.kubestellar.io'', ''workstatuses'');
          update = (''update'', ''control.kubestellar.io'', ''workstatuses/status'')
      in {[], [patch], [update], [patch, update]})"

definition handler_shapes :: "bool \<Rightarrow> (string \<times> string \<times> string) list set" where
  "handler_shapes isBeingDeleted =
     (let get = (''get'', ''control.kubestellar.io'', ''workstatuses'');
          get_mw = (''get'', ''work.open-cluster-management.io'', ''manifestworks'');
          create = (''create'', ''control.kubestellar.io'', ''workstatuses'');
          delete = (''delete'', ''control.kubestellar.io'', ''workstatuses'')
      in if isBeingDeleted then {[get], [get, delete]}
         else {[get, get_mw]} \<union> (\<lambda>r. [get] @ r) ` report_shapes \<union> (\<lambda>r. [get, get_mw, create] @ r) ` report_shapes)"

section \<open>The calls of each part\<close>

lemma copy_singleton_label_keeps:
  assumes "copy_singleton_label labels ws = Ret ws'"
  shows "same_key ws' ws \<and> ws_Spec ws' = ws_Spec ws \<and> ws_Status ws' = ws_Status ws"
  using assms by (auto simp: copy_singleton_label_def same_key_def bindO_eq_Ret split: option.splits)

text \<open>\<open>logs io io' S P\<close>: the log grew by a sequence of shape \<open>S\<close> whose calls satisfy \<open>P\<close>.\<close>

definition logs :: "'w hub_io \<Rightarrow> 'w hub_io \<Rightarrow> (string \<times> string \<times> string) list set \<Rightarrow> (hub_call \<Rightarrow> bool) \<Rightarrow> bool" where
  "logs io io' S P \<longleftrightarrow> (\<exists>calls. snd io' = snd io @ calls \<and> map hub_access calls \<in> S \<and> (\<forall>c \<in> set calls. P c))"

lemma logsI: "snd io' = snd io @ calls \<Longrightarrow> map hub_access calls \<in> S \<Longrightarrow> (\<And>c. c \<in> set calls \<Longrightarrow> P c) \<Longrightarrow> logs io io' S P"
  by (auto simp: logs_def)

lemma logs_trans:
  assumes "logs io io1 S P" "logs io1 io2 T P" "\<And>a b. a \<in> S \<Longrightarrow> b \<in> T \<Longrightarrow> a @ b \<in> U"
  shows "logs io io2 U P"
proof -
  from assms(1,2) obtain cs ds where "snd io1 = snd io @ cs" "map hub_access cs \<in> S" "\<forall>c \<in> set cs. P c"
    "snd io2 = snd io1 @ ds" "map hub_access ds \<in> T" "\<forall>c \<in> set ds. P c"
    by (auto simp: logs_def)
  then show ?thesis using assms(3) by (intro logsI [of _ _ "cs @ ds"]) auto
qed

lemma hub_Get_logs:
  assumes "hub_Get H ws io = (e, ws', io')" "P (Get_WorkStatus (ws_namespace ws) (ws_name ws))"
  shows "logs io io' {[(''get'', ''control.kubestellar.io'', ''workstatuses'')]} P"
  using assms by (intro logsI [of _ _ "[Get_WorkStatus (ws_namespace ws) (ws_name ws)]"])
    (auto simp: hub_Get_def split: prod.splits)

text \<open>The condition under which the calls are confined to one object: the documented behaviour on names.\<close>

definition confined :: "('w, 'm, 'g) env \<Rightarrow> string \<Rightarrow> string \<Rightarrow> string \<Rightarrow> hub_call \<Rightarrow> bool" where
  "confined E ns n mw c \<longleftrightarrow> (hub_names_doc (hub E) \<and> owner_ref_doc E \<longrightarrow> call_on ns n mw c)"

definition names_ok :: "('w, 'm, 'g) env \<Rightarrow> WorkStatus \<Rightarrow> string \<Rightarrow> string \<Rightarrow> bool" where
  "names_ok E ws ns n \<longleftrightarrow> (hub_names_doc (hub E) \<and> owner_ref_doc E \<longrightarrow> ws_namespace ws = ns \<and> ws_name ws = n)"

lemma names_ok_mono: "names_ok E ws ns n \<Longrightarrow> (hub_names_doc (hub E) \<Longrightarrow> owner_ref_doc E \<Longrightarrow> same_key ws' ws) \<Longrightarrow> names_ok E ws' ns n"
  by (auto simp: names_ok_def same_key_def)

lemma delete_workStatus_logs:
  assumes "delete_workStatus E ws io = (err, io')" "names_ok E ws ns n"
  shows "logs io io' (handler_shapes True) (confined E ns n mw)"
proof -
  obtain e ws' io1 where g: "hub_Get (hub E) ws io = (e, ws', io1)"
    by (cases "hub_Get (hub E) ws io")
  have "names_ok E ws' ns n"
    using assms(2) hub_names_docD(1) [OF _ g] by (rule names_ok_mono)
  with assms g show ?thesis
    by (auto simp: delete_workStatus_def hub_Get_def hub_Delete_def logs_def handler_shapes_def confined_def names_ok_def Let_def
        split: prod.splits if_splits)
qed

lemma report_status_logs:
  assumes "report_status E obj ws io = (err, io')" "names_ok E ws ns n"
  shows "logs io io' report_shapes (confined E ns n mw)"
proof -
  let ?patch = "case gomap_get (om_Labels (obj_meta obj)) SingletonstatusLabelKey of
      Some v \<Rightarrow> if gomap_get (om_Labels (ws_ObjectMeta ws)) SingletonstatusLabelKey \<noteq> Some v
                then hub_Patch (hub E) ws (singleton_patch v) io else (None, ws, io)
    | None \<Rightarrow> (None, ws, io)"
  obtain e ws' io1 where p: "?patch = (e, ws', io1)" by (cases ?patch)
  then have ws': "names_ok E ws' ns n"
    using assms(2) by (auto split: option.splits if_splits intro: names_ok_mono dest: hub_names_docD(3))
  have patch: "logs io io1 {[], [(''patch'', ''control.kubestellar.io'', ''workstatuses'')]} (confined E ns n mw)"
    using p assms(2)
    by (auto simp: logs_def hub_Patch_def confined_def names_ok_def split: option.splits if_splits prod.splits)
  have "logs io1 io' {[], [(''update'', ''control.kubestellar.io'', ''workstatuses/status'')]} (confined E ns n mw)"
    using assms(1) p ws'
    by (auto simp: report_status_def logs_def hub_StatusUpdate_def confined_def names_ok_def
        split: option.splits sum.splits prod.splits)
  with patch show ?thesis by (rule logs_trans) (auto simp: report_shapes_def Let_def)
qed

lemma create_workStatus_logs:
  assumes "create_workStatus E obj aWork ws s io = Ret (r, io')" "names_ok E ws (clusterName s) n"
  shows "logs io io' {[(''get'', ''work.open-cluster-management.io'', ''manifestworks'')],
      [(''get'', ''work.open-cluster-management.io'', ''manifestworks''), (''create'', ''control.kubestellar.io'', ''workstatuses'')]}
      (confined E (clusterName s) n (amw_ManifestWorkName aWork))"
    and "r = Inr (Some ws') \<Longrightarrow> names_ok E ws' (clusterName s) n \<and>
      logs io io' {[(''get'', ''work.open-cluster-management.io'', ''manifestworks''), (''create'', ''control.kubestellar.io'', ''workstatuses'')]}
      (confined E (clusterName s) n (amw_ManifestWorkName aWork))"
proof -
  let ?P = "confined E (clusterName s) n (amw_ManifestWorkName aWork)"
  let ?mw = "(''get'', ''work.open-cluster-management.io'', ''manifestworks'')"
  let ?cr = "(''create'', ''control.kubestellar.io'', ''workstatuses'')"
  have "logs io io' {[?mw], [?mw, ?cr]} ?P \<and>
      (\<forall>ws'. r = Inr (Some ws') \<longrightarrow> names_ok E ws' (clusterName s) n \<and> logs io io' {[?mw, ?cr]} ?P)"
    using assms(1)
  proof (cases rule: create_workStatus_cases)
    case (created mw w m ws1 gvr err ws2 w2)
    have "owner_ref_doc E \<Longrightarrow> same_key (created_object obj gvr ws1) ws"
      using copy_singleton_label_keeps [OF created(4)] created(3)
      by (simp add: same_key_def created_object_def owner_ref_doc_def)
    then have 1: "names_ok E (created_object obj gvr ws1) (clusterName s) n"
      using assms(2) by (blast intro: names_ok_mono)
    moreover have "names_ok E ws2 (clusterName s) n"
      using 1 hub_names_docD(2) [OF _ created(6)] by (rule names_ok_mono)
    ultimately show ?thesis
      using created(7,8) by (auto simp: logs_def confined_def names_ok_def split: option.splits)
  qed (auto simp: logs_def confined_def)
  then show "logs io io' {[?mw], [?mw, ?cr]} ?P"
    and "r = Inr (Some ws') \<Longrightarrow> names_ok E ws' (clusterName s) n \<and> logs io io' {[?mw, ?cr]} ?P"
    by blast+
qed

lemma handleWorkStatus_logs:
  assumes "handleWorkStatus E obj del s = Ret (err, t)"
    and "GetAppliedManifestWork E (cache_view E (world s)) obj (listers s) = Ret (Inr aWork)"
  shows "logs (sys_io s) (sys_io t) (handler_shapes del)
    (confined E (clusterName s) (BuildWorkstatusName E aWork obj) (amw_ManifestWorkName aWork))"
proof -
  let ?n = "BuildWorkstatusName E aWork obj"
  let ?P = "confined E (clusterName s) ?n (amw_ManifestWorkName aWork)"
  let ?get = "(''get'', ''control.kubestellar.io'', ''workstatuses'')"
  have io [simp]: "sys_io (put_io x s) = x" for x by (simp add: put_io_def)
  have tgt: "names_ok E (target_ws E aWork obj s) (clusterName s) ?n"
    by (simp add: names_ok_def new_WorkStatus_def new_meta_def)
  have get: "logs (sys_io s) io {[?get]} ?P" "names_ok E ws (clusterName s) ?n"
    if "hub_Get (hub E) (target_ws E aWork obj s) (sys_io s) = (e, ws, io)" for e ws io
    using that hub_Get_logs [OF that] names_ok_mono [OF tgt hub_names_docD(1) [OF _ that]]
    by (auto simp: confined_def new_WorkStatus_def new_meta_def)
  show ?thesis
    using assms(1)
  proof (cases rule: handleWorkStatus_cases)
    case (no_amw e) with assms(2) show ?thesis by simp
  next
    case (delete aWork' io)
    with assms(2) tgt show ?thesis by (simp add: delete_workStatus_logs)
  next
    case (failed aWork' e ws io)
    with assms(2) have "logs (sys_io s) io {[?get]} ?P" by (intro get) simp
    moreover have "{[?get]} \<subseteq> handler_shapes False" by (auto simp: handler_shapes_def report_shapes_def Let_def)
    ultimately show ?thesis using failed by (auto simp: logs_def)
  next
    case (found aWork' ws io io')
    with assms(2) have g: "logs (sys_io s) io {[?get]} ?P" "names_ok E ws (clusterName s) ?n" by (auto intro!: get)
    from g(1) report_status_logs [OF found(4) g(2)] have "logs (sys_io s) io' (handler_shapes False) ?P"
      by (rule logs_trans) (auto simp: handler_shapes_def Let_def)
    then show ?thesis using found by simp
  next
    case (missing aWork' e ws io r io1)
    with assms(2) have g: "logs (sys_io s) io {[?get]} ?P" "names_ok E ws (clusterName s) ?n" by (auto intro!: get)
    have c: "create_workStatus E obj aWork ws s io = Ret (r, io1)" using missing assms(2) by simp
    show ?thesis
    proof (cases "\<exists>ws1. r = Inr (Some ws1)")
      case True
      then obtain ws1 io2 where r: "r = Inr (Some ws1)" "report_status E obj ws1 io1 = (err, io2)" "t = put_io io2 s"
        using missing(6) by auto
      note c2 = create_workStatus_logs(2) [OF c g(2) r(1)]
      have "logs io1 io2 report_shapes ?P" using report_status_logs [OF r(2)] c2 by blast
      with c2 [THEN conjunct2] have "logs io io2 {a @ b | a b. a = [(''get'', ''work.open-cluster-management.io'', ''manifestworks''), (''create'', ''control.kubestellar.io'', ''workstatuses'')] \<and> b \<in> report_shapes} ?P"
        by (rule logs_trans) auto
      with g(1) have "logs (sys_io s) io2 (handler_shapes False) ?P"
        by (rule logs_trans) (auto simp: handler_shapes_def Let_def)
      then show ?thesis using r missing(2) by simp
    next
      case False
      then have "t = put_io io1 s" using missing(6) by (auto split: sum.splits option.splits)
      moreover from g(1) create_workStatus_logs(1) [OF c g(2)] have "logs (sys_io s) io1 (handler_shapes False) ?P"
        by (rule logs_trans) (auto simp: handler_shapes_def report_shapes_def Let_def)
      ultimately show ?thesis using missing(2) by simp
    qed
  qed
qed

section \<open>No panic\<close>

lemma copy_singleton_label_returns:
  "om_Labels (ws_ObjectMeta ws) \<noteq> None \<Longrightarrow> \<exists>ws'. copy_singleton_label labels ws = Ret ws'"
  by (auto simp: copy_singleton_label_def gomap_set_def split: option.split)

lemma managed_by_ks_labels: "managed_by_ks E labels \<Longrightarrow> labels \<noteq> None"
  by (cases labels) (simp_all add: managed_by_ks_def HasPrefixInMap_def)

lemma GetGVR_returns: "mapper \<noteq> None \<Longrightarrow> \<exists>r. GetGVR L RM mapper gvk = Ret r"
  by (auto simp: GetGVR_def split: sum.split)

lemma create_workStatus_returns:
  assumes "restMapper s \<noteq> None"
  shows "\<exists>r io'. create_workStatus E obj aWork ws s io = Ret (r, io')"
proof -
  obtain g where g: "GetGVR E (RESTMapping E) (restMapper s) (obj_gvk obj) = Ret g"
    using GetGVR_returns [OF assms] by blast
  obtain r w where mw: "hc_GetManifestWork (hub E) (clusterName s) (amw_ManifestWorkName aWork) (fst io) = (r, w)"
    by (rule prod.exhaust)
  show ?thesis
  proof (cases r)
    case (Inr m)
    note def = create_workStatus_def GetManifestWork_def Let_def mw Inr
    show ?thesis
    proof (cases "managed_by_ks E (om_Labels (mw_ObjectMeta m))")
      case True
      show ?thesis
      proof (cases "SetControllerReference E (mw_ObjectMeta m) (ws_ObjectMeta ws)")
        case (Inr x)
        obtain ws' where "copy_singleton_label (om_Labels (obj_meta obj))
            (ws\<lparr>ws_ObjectMeta := x\<lparr>om_Labels := om_Labels (mw_ObjectMeta m)\<rparr>\<rparr>) = Ret ws'"
          using managed_by_ks_labels [OF True] copy_singleton_label_returns
            [of "ws\<lparr>ws_ObjectMeta := x\<lparr>om_Labels := om_Labels (mw_ObjectMeta m)\<rparr>\<rparr>"] by auto
        with True Inr g show ?thesis by (auto simp: def split: sum.split option.split prod.split)
      qed (use True in \<open>simp add: def\<close>)
    qed (simp add: def)
  qed (simp add: create_workStatus_def GetManifestWork_def mw)
qed

lemma GetAppliedManifestWork_returns:
  assumes "\<And>l n g m f. lister_Get V l n \<noteq> Inr (Struct g m f)"
  shows "\<exists>r. GetAppliedManifestWork L V obj ls = Ret r"
  using assms
  by (auto simp: GetAppliedManifestWork_def Let_def split: option.split sum.split runtime_object.split)

lemma handleWorkStatus_no_panic:
  assumes "restMapper s \<noteq> None" "\<And>l n g m f. lister_Get (cache_view E (world s)) l n \<noteq> Inr (Struct g m f)"
  shows "\<exists>err t. handleWorkStatus E obj del s = Ret (err, t)"
proof -
  obtain a where a: "GetAppliedManifestWork E (cache_view E (world s)) obj (listers s) = Ret a"
    using GetAppliedManifestWork_returns [OF assms(2)] by blast
  have c: "\<exists>err t. bindO (create_workStatus E obj aWork ws s io) (\<lambda>(r, io).
      case r of Inl err \<Rightarrow> Ret (Some err, put_io io s) | Inr None \<Rightarrow> Ret (None, put_io io s)
      | Inr (Some workStatus) \<Rightarrow> (case report_status E obj workStatus io of (err, io) \<Rightarrow> Ret (err, put_io io s))) = Ret (err, t)"
    for aWork ws io
    using create_workStatus_returns [OF assms(1), of E obj aWork ws io]
    by (auto split: sum.split option.split prod.split)
  show ?thesis
    using c by (auto simp: handleWorkStatus_def a Let_def split: sum.split prod.split option.split)
qed

section \<open>What the hub holds afterwards\<close>

text \<open>A WorkStatus reports an object: it has the object's status, and the object's singleton label if it has one.\<close>

definition reports :: "('w, 'm, 'g) env \<Rightarrow> runtime_object \<Rightarrow> WorkStatus \<Rightarrow> bool" where
  "reports E obj ws \<longleftrightarrow> GetObjectStatusAsBytes E obj = Inr (Raw (ws_Status ws)) \<and>
     (\<forall>v. gomap_get (om_Labels (obj_meta obj)) SingletonstatusLabelKey = Some v \<longrightarrow>
        gomap_get (om_Labels (ws_ObjectMeta ws)) SingletonstatusLabelKey = Some v)"

definition plain_label :: "runtime_object \<Rightarrow> bool" where
  "plain_label obj \<longleftrightarrow> (\<forall>v. gomap_get (om_Labels (obj_meta obj)) SingletonstatusLabelKey = Some v \<longrightarrow> label_value v)"

lemma others_kept_refl [simp]: "others_kept store k w w"
  by (simp add: others_kept_def)

lemma others_kept_trans: "others_kept store k u v \<Longrightarrow> others_kept store k v w \<Longrightarrow> others_kept store k u w"
  by (simp add: others_kept_def)

lemma others_kept_same: "store w' = store w \<Longrightarrow> others_kept store k w w'"
  by (simp add: others_kept_def)

lemma hub_docD:
  assumes "hub_doc E store"
  shows "store w k = Some ws \<Longrightarrow> ws_key ws = k"
    and "hub_Get (hub E) ws io = (e, ws', io') \<Longrightarrow> store (fst io') = store (fst io)"
    and "hub_Get (hub E) ws io = (None, ws', io') \<Longrightarrow> store (fst io) (ws_key ws) = Some ws'"
    and "hub_Get (hub E) ws io = (Some err, ws', io') \<Longrightarrow> IsNotFound E err \<Longrightarrow> store (fst io) (ws_key ws) = None \<and> ws' = ws"
    and "hc_GetManifestWork (hub E) ns n w = (r, w') \<Longrightarrow> store w' = store w"
    and "hc_Create (hub E) ws w = (e, ws', w') \<Longrightarrow> others_kept store (ws_key ws) w w' \<and>
        (e = None \<longrightarrow> store w' (ws_key ws) = Some ws' \<and> ws_Spec ws' = ws_Spec ws \<and>
           om_Labels (ws_ObjectMeta ws') = om_Labels (ws_ObjectMeta ws))"
proof -
  have g: "hub_get_doc E store" using assms by (simp add: hub_doc_def)
  show "store w k = Some ws \<Longrightarrow> ws_key ws = k"
    using g unfolding hub_get_doc_def by blast
  show "hub_Get (hub E) ws io = (e, ws', io') \<Longrightarrow> store (fst io') = store (fst io)"
    using g unfolding hub_get_doc_def hub_Get_def by (auto split: prod.splits)
  show "hub_Get (hub E) ws io = (None, ws', io') \<Longrightarrow> store (fst io) (ws_key ws) = Some ws'"
    using g unfolding hub_get_doc_def hub_Get_def by (fastforce split: prod.splits)
  show "hub_Get (hub E) ws io = (Some err, ws', io') \<Longrightarrow> IsNotFound E err \<Longrightarrow> store (fst io) (ws_key ws) = None \<and> ws' = ws"
    using g unfolding hub_get_doc_def hub_Get_def by (fastforce split: prod.splits)
  show "hc_GetManifestWork (hub E) ns n w = (r, w') \<Longrightarrow> store w' = store w"
    using g unfolding hub_get_doc_def by blast
  show "hc_Create (hub E) ws w = (e, ws', w') \<Longrightarrow> others_kept store (ws_key ws) w w' \<and>
        (e = None \<longrightarrow> store w' (ws_key ws) = Some ws' \<and> ws_Spec ws' = ws_Spec ws \<and>
           om_Labels (ws_ObjectMeta ws') = om_Labels (ws_ObjectMeta ws))"
    using assms unfolding hub_doc_def hub_create_doc_def by blast
qed

lemma hub_doc_patch:
  assumes "hub_doc E store" "label_value v" "hub_Patch (hub E) ws (singleton_patch v) io = (e, ws', io')"
  shows "others_kept store (ws_key ws) (fst io) (fst io')"
    and "e = None \<Longrightarrow> store (fst io') (ws_key ws) = Some ws' \<and>
      (\<exists>old. store (fst io) (ws_key ws) = Some old \<and> ws_Spec ws' = ws_Spec old \<and>
         gomap_get (om_Labels (ws_ObjectMeta ws')) = (gomap_get (om_Labels (ws_ObjectMeta old)))(SingletonstatusLabelKey \<mapsto> v))"
  using assms unfolding hub_doc_def hub_patch_doc_def hub_Patch_def by (auto split: prod.splits)

lemma hub_doc_status:
  assumes "hub_doc E store" "hub_StatusUpdate (hub E) ws io = (e, ws', io')"
  shows "others_kept store (ws_key ws) (fst io) (fst io')"
    and "e = None \<Longrightarrow> store (fst io') (ws_key ws) = Some ws' \<and> ws_Status ws' = ws_Status ws \<and>
      (\<exists>old. store (fst io) (ws_key ws) = Some old \<and> ws_Spec ws' = ws_Spec old \<and>
         om_Labels (ws_ObjectMeta ws') = om_Labels (ws_ObjectMeta old))"
  using assms unfolding hub_doc_def hub_status_doc_def hub_StatusUpdate_def by (auto split: prod.splits)

text \<open>Reporting on a stored object.\<close>

definition label_patch :: "('w, 'm, 'g) env \<Rightarrow> runtime_object \<Rightarrow> WorkStatus \<Rightarrow> 'w hub_io \<Rightarrow> go_error option \<times> WorkStatus \<times> 'w hub_io" where
  "label_patch E obj ws io =
     (case gomap_get (om_Labels (obj_meta obj)) SingletonstatusLabelKey of
        Some v \<Rightarrow> if gomap_get (om_Labels (ws_ObjectMeta ws)) SingletonstatusLabelKey \<noteq> Some v
                  then hub_Patch (hub E) ws (singleton_patch v) io else (None, ws, io)
      | None \<Rightarrow> (None, ws, io))"

lemma report_status_patch:
  "report_status E obj ws io =
     (case label_patch E obj ws io of
        (Some err, ws', io') \<Rightarrow> (Some err, io')
      | (None, ws', io') \<Rightarrow>
          (case GetObjectStatusAsBytes E obj of
             Inl err \<Rightarrow> (Some err, io')
           | Inr raw \<Rightarrow> (case hub_StatusUpdate (hub E) (ws'\<lparr>ws_Status := \<lparr>Raw = raw\<rparr>\<rparr>) io' of (err, ws'', io'') \<Rightarrow> (err, io''))))"
  by (simp add: report_status_def label_patch_def)

lemma label_patch_spec:
  assumes "hub_doc E store" "plain_label obj" "store (fst io) k = Some ws" "label_patch E obj ws io = (e, ws', io')"
  shows "others_kept store k (fst io) (fst io')"
    and "e = None \<Longrightarrow> store (fst io') k = Some ws' \<and> ws_Spec ws' = ws_Spec ws \<and>
      (\<forall>v. gomap_get (om_Labels (obj_meta obj)) SingletonstatusLabelKey = Some v \<longrightarrow>
         gomap_get (om_Labels (ws_ObjectMeta ws')) SingletonstatusLabelKey = Some v)"
proof -
  have k: "ws_key ws = k" using hub_docD(1) [OF assms(1,3)] .
  let ?ol = "gomap_get (om_Labels (obj_meta obj)) SingletonstatusLabelKey"
  let ?wl = "gomap_get (om_Labels (ws_ObjectMeta ws)) SingletonstatusLabelKey"
  have "others_kept store k (fst io) (fst io') \<and> (e = None \<longrightarrow> store (fst io') k = Some ws' \<and> ws_Spec ws' = ws_Spec ws \<and>
      (\<forall>v. ?ol = Some v \<longrightarrow> gomap_get (om_Labels (ws_ObjectMeta ws')) SingletonstatusLabelKey = Some v))"
  proof (cases "?ol = None \<or> ?ol = ?wl")
    case True
    then have "label_patch E obj ws io = (None, ws, io)"
      by (auto simp: label_patch_def split: option.split)
    then show ?thesis using assms(3,4) True by auto
  next
    case False
    then obtain v where v: "?ol = Some v" "?wl \<noteq> Some v" by auto
    have p: "hub_Patch (hub E) ws (singleton_patch v) io = (e, ws', io')"
      using assms(4) v by (simp add: label_patch_def)
    have "label_value v" using assms(2) v(1) by (simp add: plain_label_def)
    from hub_doc_patch [OF assms(1) this p] v(1) assms(3) k show ?thesis by auto
  qed
  then show "others_kept store k (fst io) (fst io')"
    and "e = None \<Longrightarrow> store (fst io') k = Some ws' \<and> ws_Spec ws' = ws_Spec ws \<and>
      (\<forall>v. gomap_get (om_Labels (obj_meta obj)) SingletonstatusLabelKey = Some v \<longrightarrow>
         gomap_get (om_Labels (ws_ObjectMeta ws')) SingletonstatusLabelKey = Some v)" by blast+
qed

lemma report_status_spec:
  assumes "hub_doc E store" "plain_label obj" "store (fst io) k = Some ws" "report_status E obj ws io = (err, io')"
  shows "others_kept store k (fst io) (fst io') \<and>
    (err = None \<longrightarrow> (\<exists>ws'. store (fst io') k = Some ws' \<and> reports E obj ws' \<and> ws_Spec ws' = ws_Spec ws))"
proof -
  obtain e1 ws1 io1 where p: "label_patch E obj ws io = (e1, ws1, io1)" by (metis prod_cases3)
  note spec = label_patch_spec [OF assms(1-3) p]
  show ?thesis
  proof (cases "e1 = None \<and> (\<exists>raw. GetObjectStatusAsBytes E obj = Inr raw)")
    case True
    then obtain raw where raw: "e1 = None" "GetObjectStatusAsBytes E obj = Inr raw" by blast
    obtain e2 ws2 where u: "hub_StatusUpdate (hub E) (ws1\<lparr>ws_Status := \<lparr>Raw = raw\<rparr>\<rparr>) io1 = (e2, ws2, io')" and "err = e2"
      using assms(4) p raw by (auto simp: report_status_patch split: prod.splits)
    have "store (fst io1) k = Some ws1" using spec(2) raw(1) by blast
    then have key: "ws_key (ws1\<lparr>ws_Status := \<lparr>Raw = raw\<rparr>\<rparr>) = k"
      using hub_docD(1) [OF assms(1)] by (simp add: ws_key_def)
    from hub_doc_status [OF assms(1) u, unfolded key] spec raw \<open>err = e2\<close>
    show ?thesis by (auto simp: reports_def intro: others_kept_trans)
  next
    case False
    then have "err \<noteq> None" "io' = io1"
      using assms(4) p by (auto simp: report_status_patch split: option.splits sum.splits)
    then show ?thesis using spec(1) by auto
  qed
qed

lemma create_workStatus_spec:
  assumes "hub_doc E store" "owner_ref_doc E" "create_workStatus E obj aWork ws s io = Ret (r, io')"
    and "ws_key ws = k"
  shows "others_kept store k (fst io) (fst io')"
    and "r = Inr None \<Longrightarrow> store (fst io') = store (fst io) \<and>
      (\<exists>mw. hc_GetManifestWork (hub E) (clusterName s) (amw_ManifestWorkName aWork) (fst io) = (Inr mw, fst io') \<and>
         \<not> managed_by_ks E (om_Labels (mw_ObjectMeta mw)))"
    and "r = Inr (Some ws') \<Longrightarrow> store (fst io') k = Some ws' \<and>
      (\<exists>m gvr. restMapper s = Some m \<and>
         RESTMapping E m (gvk_Group (obj_gvk obj)) (gvk_Kind (obj_gvk obj)) (gvk_Version (obj_gvk obj)) = Inr gvr \<and>
         ws_SourceRef (ws_Spec ws') = source_ref gvr obj)"
proof -
  have "others_kept store k (fst io) (fst io') \<and>
    (r = Inr None \<longrightarrow> store (fst io') = store (fst io) \<and>
      (\<exists>mw. hc_GetManifestWork (hub E) (clusterName s) (amw_ManifestWorkName aWork) (fst io) = (Inr mw, fst io') \<and>
         \<not> managed_by_ks E (om_Labels (mw_ObjectMeta mw)))) \<and>
    (r = Inr (Some ws') \<longrightarrow> store (fst io') k = Some ws' \<and>
      (\<exists>m gvr. restMapper s = Some m \<and>
         RESTMapping E m (gvk_Group (obj_gvk obj)) (gvk_Kind (obj_gvk obj)) (gvk_Version (obj_gvk obj)) = Inr gvr \<and>
         ws_SourceRef (ws_Spec ws') = source_ref gvr obj))"
    using assms(3)
  proof (cases rule: create_workStatus_cases)
    case (created mw w m ws1 gvr err ws2 w2)
    have key: "ws_key (created_object obj gvr ws1) = k"
      using copy_singleton_label_keeps [OF created(4)] created(3) assms(2,4)
      by (auto simp: ws_key_def same_key_def created_object_def owner_ref_doc_def)
    have "store w = store (fst io)" using hub_docD(5) [OF assms(1) created(1)] .
    moreover have "\<exists>m. restMapper s = Some m \<and>
        RESTMapping E m (gvk_Group (obj_gvk obj)) (gvk_Kind (obj_gvk obj)) (gvk_Version (obj_gvk obj)) = Inr gvr"
      using created(5) by (auto simp: GetGVR_def split: option.splits sum.splits)
    moreover note hub_docD(6) [OF assms(1) created(6), unfolded key]
    ultimately show ?thesis
      using created(7,8) by (auto simp: others_kept_def created_object_def split: option.splits)
  qed (use hub_docD(5) [OF assms(1)] in \<open>auto simp: others_kept_same\<close>)
  then show "others_kept store k (fst io) (fst io')"
    and "r = Inr None \<Longrightarrow> store (fst io') = store (fst io) \<and>
      (\<exists>mw. hc_GetManifestWork (hub E) (clusterName s) (amw_ManifestWorkName aWork) (fst io) = (Inr mw, fst io') \<and>
         \<not> managed_by_ks E (om_Labels (mw_ObjectMeta mw)))"
    and "r = Inr (Some ws') \<Longrightarrow> store (fst io') k = Some ws' \<and>
      (\<exists>m gvr. restMapper s = Some m \<and>
         RESTMapping E m (gvk_Group (obj_gvk obj)) (gvk_Kind (obj_gvk obj)) (gvk_Version (obj_gvk obj)) = Inr gvr \<and>
         ws_SourceRef (ws_Spec ws') = source_ref gvr obj)"
    by blast+
qed

text \<open>
  The outcome of a report: the hub's WorkStatus under the key reports the object, with its old
  specification or, if it is new, a reference to the object; or there was none and there is none, the
  manifest work being not KubeStellar's.
\<close>

definition reported :: "('w, 'm, 'g) env \<Rightarrow> 'w hub_store \<Rightarrow> runtime_object \<Rightarrow> AppliedManifestWork \<Rightarrow>
    ('m, 'w) sys \<Rightarrow> ('m, 'w) sys \<Rightarrow> string \<times> string \<Rightarrow> bool" where
  "reported E store obj aWork s t k \<longleftrightarrow>
     (\<exists>ws. store (world t) k = Some ws \<and> reports E obj ws \<and>
        (\<forall>old. store (world s) k = Some old \<longrightarrow> ws_Spec ws = ws_Spec old) \<and>
        (store (world s) k = None \<longrightarrow> (\<exists>gvr. ws_SourceRef (ws_Spec ws) = source_ref gvr obj))) \<or>
     store (world s) k = None \<and> store (world t) k = None \<and>
       (\<exists>w mw. store w = store (world s) \<and> hc_GetManifestWork (hub E) (clusterName s) (amw_ManifestWorkName aWork) w = (Inr mw, world t) \<and>
          \<not> managed_by_ks E (om_Labels (mw_ObjectMeta mw)))"

lemma handleWorkStatus_spec:
  assumes "hub_doc E store" "owner_ref_doc E" "plain_label obj"
    and "GetAppliedManifestWork E (cache_view E (world s)) obj (listers s) = Ret (Inr aWork)"
    and "handleWorkStatus E obj False s = Ret (err, t)"
    and k: "k = (clusterName s, BuildWorkstatusName E aWork obj)"
  shows "others_kept store k (world s) (world t)"
    and "err = None \<Longrightarrow>
      reported E store obj aWork s t k"
proof -
  have w [simp]: "world (put_io io s) = fst io" for io by (simp add: put_io_def)
  have tk: "ws_key (target_ws E aWork obj s) = k" by (simp add: ws_key_def k new_WorkStatus_def new_meta_def)
  have "others_kept store k (world s) (world t) \<and> (err = None \<longrightarrow>
      reported E store obj aWork s t k)"
    using assms(5)
  proof (cases rule: handleWorkStatus_cases)
    case (no_amw e) with assms(4) show ?thesis by simp
  next
    case (delete aWork' io) then show ?thesis by simp
  next
    case (failed aWork' e ws io)
    then show ?thesis using hub_docD(2) [OF assms(1) failed(3)] by (simp add: others_kept_same)
  next
    case (found aWork' ws io io')
    have aw: "aWork' = aWork" using found(1) assms(4) by simp
    note get = found(3) [unfolded aw]
    have st: "store (fst io) = store (world s)" "store (world s) k = Some ws"
      using hub_docD(2,3) [OF assms(1) get] tk by simp_all
    have "store (fst io) k = Some ws" using st by simp
    from report_status_spec [OF assms(1,3) this found(4)] st found(5) show ?thesis
      by (auto simp: others_kept_def reported_def)
  next
    case (missing aWork' e ws io r io1)
    have aw: "aWork' = aWork" using missing(1) assms(4) by simp
    note get = missing(3) [unfolded aw] and create = missing(5) [unfolded aw]
    have st: "store (fst io) = store (world s)" "store (world s) k = None" "ws_key ws = k"
      using hub_docD(2,4) [OF assms(1) get] missing(4) tk by auto
    note spec = create_workStatus_spec [OF assms(1,2) create st(3)]
    show ?thesis
    proof (cases "\<exists>ws1. r = Inr (Some ws1)")
      case True
      then obtain ws1 io2 where r: "r = Inr (Some ws1)" "report_status E obj ws1 io1 = (err, io2)" "t = put_io io2 s"
        using missing(6) by auto
      note c = spec(3) [OF r(1)]
      from report_status_spec [OF assms(1,3) _ r(2), of k] c
      have "others_kept store k (fst io1) (fst io2) \<and>
        (err = None \<longrightarrow> (\<exists>ws'. store (fst io2) k = Some ws' \<and> reports E obj ws' \<and> ws_Spec ws' = ws_Spec ws1))" by blast
      with spec(1) c st r(3) show ?thesis by (auto simp: others_kept_def reported_def)
    next
      case False
      then have "t = put_io io1 s" "err = None \<longrightarrow> r = Inr None"
        using missing(6) by (auto split: sum.splits option.splits)
      with spec(1,2) st show ?thesis by (auto simp: others_kept_def reported_def)
    qed
  qed
  then show "others_kept store k (world s) (world t)"
    and "err = None \<Longrightarrow>
      reported E store obj aWork s t k" by blast+
qed

text \<open>With a hub that does not fail, the handler succeeds.\<close>

lemma label_patch_total:
  assumes "hub_up E store W" "fst io \<in> W" "store (fst io) (ws_key ws) \<noteq> None"
  shows "fst (label_patch E obj ws io) = None" and "fst (snd (snd (label_patch E obj ws io))) \<in> W"
  using assms(2) hub_upD(4) [OF assms] unfolding label_patch_def hub_Patch_def
  by (auto split: option.split prod.split)

lemma report_status_total:
  assumes "hub_doc E store" "hub_up E store W" "fst io \<in> W" "plain_label obj" "store (fst io) k = Some ws"
    and "GetObjectStatusAsBytes E obj = Inr raw"
  shows "\<exists>io'. report_status E obj ws io = (None, io') \<and> fst io' \<in> W \<and> store (fst io') k \<noteq> None"
proof -
  have k: "ws_key ws = k" using hub_docD(1) [OF assms(1,5)] .
  obtain ws1 io1 where p: "label_patch E obj ws io = (None, ws1, io1)" "fst io1 \<in> W"
    using label_patch_total [OF assms(2,3), of ws obj] assms(5) k by (cases "label_patch E obj ws io") auto
  have st: "store (fst io1) k = Some ws1" using label_patch_spec(2) [OF assms(1,4,5) p(1)] by simp
  then have key: "ws_key (ws1\<lparr>ws_Status := \<lparr>Raw = raw\<rparr>\<rparr>) = k"
    using hub_docD(1) [OF assms(1)] by (simp add: ws_key_def)
  obtain e ws2 w2 where u: "hc_StatusUpdate (hub E) (ws1\<lparr>ws_Status := \<lparr>Raw = raw\<rparr>\<rparr>) (fst io1) = (e, ws2, w2)" by (metis prod_cases3)
  have "w2 \<in> W \<and> e = None" using hub_upD(5) [OF assms(2) p(2) _ _ u, of ws1] st key by simp
  then obtain io' where r: "report_status E obj ws io = (None, io')" "fst io' \<in> W"
    using p(1) assms(6) u by (simp add: report_status_patch hub_StatusUpdate_def)
  moreover have "store (fst io') k \<noteq> None" using report_status_spec [OF assms(1,4,5) r(1)] by auto
  ultimately show ?thesis by blast
qed

text \<open>What the creation of a WorkStatus needs: the manifest work, and a kind that the REST mapper knows.\<close>

lemma create_workStatus_total:
  assumes "hub_doc E store" "hub_up E store W" "fst io \<in> W" "owner_ref_doc E" "owner_accept_doc E" "range_orders (go_range E)"
    and "work_there E W (clusterName s) (amw_ManifestWorkName aWork)"
    and "store (fst io) (ws_key ws) = None" "om_OwnerReferences (ws_ObjectMeta ws) = []" "ws_namespace ws = clusterName s"
    and "restMapper s = Some m" "RESTMapping E m (gvk_Group (obj_gvk obj)) (gvk_Kind (obj_gvk obj)) (gvk_Version (obj_gvk obj)) = Inr gvr"
  obtains ws1 io' where "create_workStatus E obj aWork ws s io = Ret (Inr (Some ws1), io')" "fst io' \<in> W"
proof -
  have work: "\<exists>mw. x = Inr mw \<and> managed_by_ks E (om_Labels (mw_ObjectMeta mw)) \<and>
      (\<exists>m'. SetControllerReference E (mw_ObjectMeta mw) (ws_ObjectMeta ws) = Inr m')"
    if g: "hc_GetManifestWork (hub E) (clusterName s) (amw_ManifestWorkName aWork) (fst io) = (x, w)" for x w
  proof -
    obtain mw where mw: "x = Inr mw" "om_Namespace (mw_ObjectMeta mw) = ws_namespace ws" "ks_labelled mw"
      using bspec [OF assms(7) [unfolded work_there_def] assms(3)] assms(10) g by auto
    then show ?thesis using ks_labelled_managed [OF mw(3) assms(6)] assms(5,9) by (simp add: owner_accept_doc_def)
  qed
  obtain r io' where c: "create_workStatus E obj aWork ws s io = Ret (r, io')"
    using create_workStatus_returns [of s E obj aWork ws io] assms(11) by auto
  then have "(\<exists>ws1. r = Inr (Some ws1)) \<and> fst io' \<in> W"
  proof (cases rule: create_workStatus_cases)
    case (rejected mw w err)
    have "GetGVR E (RESTMapping E) (restMapper s) (obj_gvk obj) = Ret (Inr gvr)"
      using assms(11,12) by (simp add: GetGVR_def)
    then show ?thesis using rejected(3) work [OF rejected(1)] by auto
  next
    case (created mw w m' ws1 gvr' err ws2 w2)
    have key: "ws_key (created_object obj gvr' ws1) = ws_key ws"
      using copy_singleton_label_keeps [OF created(4)] created(3) assms(4)
      by (auto simp: ws_key_def same_key_def created_object_def owner_ref_doc_def)
    have "store w (ws_key ws) = None" using hub_docD(5) [OF assms(1) created(1)] assms(8) by simp
    moreover have "w \<in> W" using hub_upD(2) [OF assms(2,3) created(1)] .
    ultimately show ?thesis using hub_upD(3) [OF assms(2) _ _ created(6), unfolded key] created(7,8) by simp
  qed (use work in fastforce)+
  with c show thesis using that by auto
qed

lemma handleWorkStatus_up:
  assumes "hub_doc E store" "hub_up E store W" "world s \<in> W" "owner_ref_doc E" "owner_accept_doc E" "range_orders (go_range E)"
    and "plain_label obj" "GetObjectStatusAsBytes E obj = Inr raw"
    and "GetAppliedManifestWork E (cache_view E (world s)) obj (listers s) = Ret (Inr aWork)"
    and "work_there E W (clusterName s) (amw_ManifestWorkName aWork)"
    and "restMapper s = Some m" "RESTMapping E m (gvk_Group (obj_gvk obj)) (gvk_Kind (obj_gvk obj)) (gvk_Version (obj_gvk obj)) = Inr gvr"
  shows "\<exists>t. handleWorkStatus E obj False s = Ret (None, t) \<and> world t \<in> W \<and>
    store (world t) (clusterName s, BuildWorkstatusName E aWork obj) \<noteq> None"
proof -
  let ?ws = "target_ws E aWork obj s"
  have world: "world (put_io x s) = fst x" for x by (simp add: put_io_def)
  have key: "ws_key ?ws = (clusterName s, BuildWorkstatusName E aWork obj)" by (simp add: ws_key_def new_WorkStatus_def new_meta_def)
  obtain e ws io where g: "hub_Get (hub E) ?ws (sys_io s) = (e, ws, io)" by (metis prod_cases3)
  have io: "fst io \<in> W" "\<And>x. e = Some x \<Longrightarrow> IsNotFound E x"
    using g hub_upD(1) [OF assms(2,3), of ?ws] by (auto simp: hub_Get_def split: prod.splits)
  note rep = report_status_total [OF assms(1,2) _ assms(7) _ assms(8), where k = "ws_key ?ws", unfolded key]
  show ?thesis
  proof (cases e)
    case None
    have "store (fst io) (ws_key ?ws) = Some ws"
      using hub_docD(2) [OF assms(1) g] hub_docD(3) [OF assms(1) g [unfolded None]] by simp
    then obtain io' where "report_status E obj ws io = (None, io')" "fst io' \<in> W" "store (fst io') (ws_key ?ws) \<noteq> None"
      using rep [OF io(1)] key by auto
    then show ?thesis using assms(9) g None key by (simp add: handleWorkStatus_def world)
  next
    case (Some e')
    then have nf: "IsNotFound E e'" using io(2) by simp
    have st: "ws = ?ws" "store (fst io) (ws_key ws) = None"
      using hub_docD(2) [OF assms(1) g] hub_docD(4) [OF assms(1) g [unfolded Some] nf] by simp_all
    have new: "om_OwnerReferences (ws_ObjectMeta ws) = []" "ws_namespace ws = clusterName s"
      by (simp_all add: st(1) new_WorkStatus_def new_meta_def)
    obtain ws1 io' where c: "create_workStatus E obj aWork ws s io = Ret (Inr (Some ws1), io')" "fst io' \<in> W"
      using create_workStatus_total [OF assms(1,2) io(1) assms(4-6,10) st(2) new assms(11,12)] by blast
    have "store (fst io') (ws_key ws) = Some ws1" using create_workStatus_spec(3) [OF assms(1,4) c(1) refl] by simp
    then obtain io2 where "report_status E obj ws1 io' = (None, io2)" "fst io2 \<in> W" "store (fst io2) (ws_key ?ws) \<noteq> None"
      using rep [OF c(2)] key st(1) by auto
    then show ?thesis using assms(9) g \<open>e = Some e'\<close> nf c(1) key by (simp add: handleWorkStatus_def world)
  qed
qed

text \<open>The deletion of the object.\<close>

lemma handleWorkStatus_delete_spec:
  assumes "hub_doc E store"
    and "GetAppliedManifestWork E (cache_view E (world s)) obj (listers s) = Ret (Inr aWork)"
    and "handleWorkStatus E obj True s = Ret (err, t)"
    and k: "k = (clusterName s, BuildWorkstatusName E aWork obj)"
  shows "others_kept store k (world s) (world t)"
    and "(\<And>ws w e w'. hc_Delete (hub E) ws w = (Some e, w') \<Longrightarrow> IsNotFound E e) \<Longrightarrow> err = None \<Longrightarrow> store (world t) k = None"
proof -
  let ?ws = "target_ws E aWork obj s"
  have tk: "ws_key ?ws = k" by (simp add: ws_key_def k new_WorkStatus_def new_meta_def)
  obtain e ws io where g: "hub_Get (hub E) ?ws (sys_io s) = (e, ws, io)" by (metis prod_cases3)
  have st: "store (fst io) = store (world s)" using hub_docD(2) [OF assms(1) g] by simp
  obtain e' w' where d: "hc_Delete (hub E) ws (fst io) = (e', w')" by (rule prod.exhaust)
  show "others_kept store k (world s) (world t)"
    and "(\<And>ws w e w'. hc_Delete (hub E) ws w = (Some e, w') \<Longrightarrow> IsNotFound E e) \<Longrightarrow> err = None \<Longrightarrow> store (world t) k = None"
  proof (atomize (full), cases "\<exists>x. e = Some x \<and> \<not> IsNotFound E x")
    case True
    then have "err = e" "world t = fst io" using assms(2,3) g
      by (auto simp: handleWorkStatus_def delete_workStatus_def put_io_def)
    with True st show "others_kept store k (world s) (world t) \<and>
        ((\<forall>ws w e w'. hc_Delete (hub E) ws w = (Some e, w') \<longrightarrow> IsNotFound E e) \<longrightarrow> err = None \<longrightarrow> store (world t) k = None)"
      by (auto simp: others_kept_same)
  next
    case False
    then have "world t = w'" using assms(2,3) g d
      by (auto simp: handleWorkStatus_def delete_workStatus_def hub_Delete_def put_io_def split: option.splits)
    moreover have "ws_key ws = k"
    proof (cases e)
      case None
      show ?thesis using hub_docD(1) [OF assms(1) hub_docD(3) [OF assms(1) g [unfolded None]]] tk by simp
    next
      case (Some x)
      then have "IsNotFound E x" using False by blast
      from hub_docD(4) [OF assms(1) g [unfolded Some] this] tk show ?thesis by simp
    qed
    moreover have "hub_delete_doc E store" using assms(1) by (simp add: hub_doc_def)
    ultimately show "others_kept store k (world s) (world t) \<and>
        ((\<forall>ws w e w'. hc_Delete (hub E) ws w = (Some e, w') \<longrightarrow> IsNotFound E e) \<longrightarrow> err = None \<longrightarrow> store (world t) k = None)"
      using d st unfolding hub_delete_doc_def by (fastforce simp: others_kept_def split: option.splits)
  qed
qed

section \<open>Properties\<close>

lemma ex_plain_label: "plain_label ex_deployment"
  by (simp add: plain_label_def ex_deployment_def gomap_get_def label_value_def SingletonstatusLabelKey_def)

lemma ex_status: "GetObjectStatusAsBytes cl_env ex_deployment = Inr ''{}''"
  by (simp add: GetObjectStatusAsBytes_def ex_deployment_def doc_lib_def)

lemma ex_mapping:
  "RESTMapping cl_env () (gvk_Group (obj_gvk ex_deployment)) (gvk_Kind (obj_gvk ex_deployment)) (gvk_Version (obj_gvk ex_deployment))
     = Inr \<lparr>gvr_Group = ''apps'', gvr_Version = ''v1'', gvr_Resource = ''deployments''\<rparr>"
  by (simp add: cl_RESTMapping_def ex_deployment_def cl_kinds_def)

lemma ex_managed: "managed_by_ks cl_env (cl_labels ex_world)"
  unfolding managed_by_ks_def HasPrefixInMap_iff [OF cl_env_laws(8)]
  by (simp add: ex_world_def gomap_get_def TransportLabelPrefix_def strings_HasPrefix_def)

lemma ex_up:
  assumes "world s \<in> ex_worlds" "restMapper s = Some ()"
    and "GetAppliedManifestWork cl_env (cache_view cl_env (world s)) ex_deployment (listers s) = Ret (Inr ex_aWork)"
  shows "\<exists>t. handleWorkStatus cl_env ex_deployment False s = Ret (None, t) \<and> world t \<in> ex_worlds"
  using handleWorkStatus_up [OF cl_hub_doc ex_hub_up assms(1) cl_env_laws(7) cl_owner_accept cl_env_laws(8) ex_plain_label ex_status assms(3)
      ex_work_there assms(2) ex_mapping] by blast

text \<open>
  Property C3: an object is reported when the hub works. Let the hub's API server work as documented and not fail while the world is in \<open>W\<close>, let the
  object have a status, a plain singleton label, an applied manifest work in the cache and a kind that the REST mapper knows, and let its
  manifest work be on the hub with a label of KubeStellar. Then \<^verbatim>\<open>handleWorkStatus\<close> returns nil, and the hub has a
  WorkStatus that reports the object, with the specification it had before or, when new, a reference to the object.
\<close>

theorem handleWorkStatus_total:
  assumes "hub_doc E store" "hub_up E store W" "world s \<in> W" "owner_ref_doc E" "owner_accept_doc E" "range_orders (go_range E)"
    and "plain_label obj" "GetObjectStatusAsBytes E obj = Inr raw"
    and "GetAppliedManifestWork E (cache_view E (world s)) obj (listers s) = Ret (Inr aWork)"
    and "work_there E W (clusterName s) (amw_ManifestWorkName aWork)"
    and "restMapper s = Some m" "RESTMapping E m (gvk_Group (obj_gvk obj)) (gvk_Kind (obj_gvk obj)) (gvk_Version (obj_gvk obj)) = Inr gvr"
  shows "\<exists>t ws. handleWorkStatus E obj False s = Ret (None, t) \<and> world t \<in> W \<and>
    store (world t) (clusterName s, BuildWorkstatusName E aWork obj) = Some ws \<and> reports E obj ws \<and>
    (case store (world s) (clusterName s, BuildWorkstatusName E aWork obj) of
       Some old \<Rightarrow> ws_Spec ws = ws_Spec old
     | None \<Rightarrow> \<exists>gvr. ws_SourceRef (ws_Spec ws) = source_ref gvr obj)"
proof -
  let ?k = "(clusterName s, BuildWorkstatusName E aWork obj)"
  obtain t where t: "handleWorkStatus E obj False s = Ret (None, t)" "world t \<in> W" "store (world t) ?k \<noteq> None"
    using handleWorkStatus_up [OF assms] by blast
  then show ?thesis
    using handleWorkStatus_spec(2) [OF assms(1,4,7,9) t(1) refl refl] unfolding reported_def by (auto split: option.split)
qed

theorem handleWorkStatus_total_witness:
  "\<exists>t ws. handleWorkStatus cl_env ex_deployment False ex_sys = Ret (None, t) \<and>
     cl_store (world t) (''cluster1'', BuildWorkstatusName cl_env ex_aWork ex_deployment) = Some ws \<and> reports cl_env ex_deployment ws"
  using handleWorkStatus_total [OF cl_hub_doc ex_hub_up _ cl_env_laws(7) cl_owner_accept cl_env_laws(8) ex_plain_label ex_status _
      ex_work_there _ ex_mapping, of ex_sys ex_aWork] ex_GetAMW by fastforce

text \<open>
  An error of the hub's delete call, whatever it is, is dropped: \<^verbatim>\<open>handleWorkStatus\<close> returns nil as if the
  WorkStatus had been deleted before, so the item is not retried and the WorkStatus remains.
\<close>

lemma handleWorkStatus_delete_error:
  assumes "GetAppliedManifestWork E (cache_view E (world s)) obj (listers s) = Ret (Inr aWork)"
    and "hub_Get (hub E) (target_ws E aWork obj s) (sys_io s) = (None, ws, io)"
    and "hc_Delete (hub E) ws (fst io) = (Some e, w')"
  shows "\<exists>t. handleWorkStatus E obj True s = Ret (None, t) \<and> world t = w'"
  using assms by (simp add: handleWorkStatus_def delete_workStatus_def hub_Delete_def put_io_def)

text \<open>
  Property C14: the calls of one run of \<^verbatim>\<open>handleWorkStatus\<close> follow the protocol (read, then for a
  deleted object delete; otherwise, if absent, read the manifest work and create; then at
  most one label patch and one status update, last), and every call names the agent's cluster
  namespace and the object's WorkStatus, or reads the manifest work the applied manifest work
  names. The cluster's own objects are never written.
\<close>

theorem handleWorkStatus_confined:
  assumes "hub_names_doc (hub E)" "owner_ref_doc E"
    and "GetAppliedManifestWork E (cache_view E (world s)) obj (listers s) = Ret (Inr aWork)"
    and "handleWorkStatus E obj isBeingDeleted s = Ret (err, t)"
  shows "\<exists>calls. hub_log t = hub_log s @ calls \<and> map hub_access calls \<in> handler_shapes isBeingDeleted \<and>
    list_all (call_on (clusterName s) (BuildWorkstatusName E aWork obj) (amw_ManifestWorkName aWork)) calls"
  using handleWorkStatus_logs [OF assms(4,3)] assms(1,2) by (auto simp: logs_def confined_def list_all_iff)

theorem handleWorkStatus_confined_witness:
  "\<exists>t calls. handleWorkStatus cl_env ex_deployment False ex_sys = Ret (None, t) \<and> hub_log t = calls \<and>
     list_all (call_on ''cluster1'' (BuildWorkstatusName cl_env ex_aWork ex_deployment) ''work'') calls"
proof -
  obtain t where t: "handleWorkStatus cl_env ex_deployment False ex_sys = Ret (None, t)"
    using ex_up [of ex_sys] ex_GetAMW by auto
  have "hub_log ex_sys = []" "amw_ManifestWorkName ex_aWork = ''work''"
    by (simp_all add: ex_sys_def blank_sys_def startAppliedManifestWorkInformer_def Let_def ex_aWork_def)
  with handleWorkStatus_confined [OF cl_hub_names cl_env_laws(7) _ t] ex_GetAMW t show ?thesis by auto
qed

text \<open>
  Property C15: reporting is idempotent: when the hub's WorkStatus already reports the object (as after
  a successful run), a further run on a hub that does not fail returns nil, makes exactly two calls (a read and
  an update of the status with the object it has read: no create and no patch), and leaves the specification,
  the labels and the status as they are, and every other WorkStatus too.
\<close>

theorem handleWorkStatus_idempotent:
  assumes "hub_doc E store" "hub_up E store W" "world s \<in> W"
    and "GetAppliedManifestWork E (cache_view E (world s)) obj (listers s) = Ret (Inr aWork)"
    and "store (world s) (clusterName s, BuildWorkstatusName E aWork obj) = Some ws" "reports E obj ws"
  shows "\<exists>t ws'. handleWorkStatus E obj False s = Ret (None, t) \<and>
    hub_log t = hub_log s @ [Get_WorkStatus (clusterName s) (BuildWorkstatusName E aWork obj), Update_WorkStatus_status ws] \<and>
    store (world t) (clusterName s, BuildWorkstatusName E aWork obj) = Some ws' \<and>
    ws_Spec ws' = ws_Spec ws \<and> ws_Status ws' = ws_Status ws \<and> om_Labels (ws_ObjectMeta ws') = om_Labels (ws_ObjectMeta ws) \<and>
    others_kept store (clusterName s, BuildWorkstatusName E aWork obj) (world s) (world t)"
proof -
  let ?k = "(clusterName s, BuildWorkstatusName E aWork obj)" and ?tgt = "target_ws E aWork obj s"
  have tgt: "ws_key ?tgt = ?k" "ws_namespace ?tgt = clusterName s" "ws_name ?tgt = BuildWorkstatusName E aWork obj"
    by (simp_all add: ws_key_def new_WorkStatus_def new_meta_def)
  obtain e ws1 io where g: "hub_Get (hub E) ?tgt (sys_io s) = (e, ws1, io)" by (metis prod_cases3)
  have e: "e = None"
  proof (cases e)
    case (Some x)
    then obtain w' where "hc_Get (hub E) (ws_namespace ?tgt) (ws_name ?tgt) ?tgt (world s) = (Some x, ws1, w')"
      using g by (auto simp: hub_Get_def split: prod.splits)
    then have "IsNotFound E x" using hub_upD(1) [OF assms(2,3)] by blast
    from hub_docD(4) [OF assms(1) g [unfolded Some] this] show ?thesis using tgt assms(5) by simp
  qed
  have ws1: "ws1 = ws" and st: "store (fst io) = store (world s)"
    using hub_docD(2,3) [OF assms(1) g [unfolded e]] tgt assms(5) by simp_all
  have log: "snd io = hub_log s @ [Get_WorkStatus (clusterName s) (BuildWorkstatusName E aWork obj)]"
    using g tgt by (auto simp: hub_Get_def split: prod.splits)
  have key: "ws_key ws = ?k" using hub_docD(1) [OF assms(1,5)] .
  have raw: "GetObjectStatusAsBytes E obj = Inr (Raw (ws_Status ws))" and p: "label_patch E obj ws io = (None, ws, io)"
    using assms(6) by (auto simp: reports_def label_patch_def split: option.split)
  obtain e2 ws2 io2 where u: "hub_StatusUpdate (hub E) ws io = (e2, ws2, io2)" by (metis prod_cases3)
  have same: "ws\<lparr>ws_Status := \<lparr>Raw = Raw (ws_Status ws)\<rparr>\<rparr> = ws" by (cases ws) simp
  have "fst io \<in> W" using g hub_upD(1) [OF assms(2,3), of ?tgt] by (auto simp: hub_Get_def split: prod.splits)
  then have "e2 = None"
    using u hub_upD(5) [OF assms(2), of "fst io" ws ws] key st assms(5) by (auto simp: hub_StatusUpdate_def split: prod.splits)
  with u have r: "report_status E obj ws io = (None, io2)"
    by (simp add: report_status_patch p raw same)
  have "handleWorkStatus E obj False s = Ret (None, put_io io2 s)"
    using assms(4) g r by (simp add: handleWorkStatus_def e ws1 Let_def)
  moreover have "snd io2 = snd io @ [Update_WorkStatus_status ws]"
    using u by (auto simp: hub_StatusUpdate_def split: prod.splits)
  moreover have "world (put_io io2 s) = fst io2" "hub_log (put_io io2 s) = snd io2" by (simp_all add: put_io_def)
  moreover note hub_doc_status [OF assms(1) u, unfolded key st \<open>e2 = None\<close>]
  ultimately show ?thesis using log assms(5) by (auto simp: others_kept_def st)
qed

definition ex_reported :: WorkStatus where
  "ex_reported = (let ws = target_ws cl_env ex_aWork ex_deployment ex_sys in
     ws\<lparr>ws_ObjectMeta := (ws_ObjectMeta ws)\<lparr>om_Labels := om_Labels (obj_meta ex_deployment)\<rparr>, ws_Status := \<lparr>Raw = ''{}''\<rparr>\<rparr>)"

theorem handleWorkStatus_idempotent_witness:
  "\<exists>t. handleWorkStatus cl_env ex_deployment False (ex_sys\<lparr>world := cl_put ex_reported ex_world\<rparr>) = Ret (None, t) \<and>
     hub_log t = [Get_WorkStatus ''cluster1'' (BuildWorkstatusName cl_env ex_aWork ex_deployment), Update_WorkStatus_status ex_reported]"
proof -
  let ?s = "ex_sys\<lparr>world := cl_put ex_reported ex_world\<rparr>"
  have "cl_find (cl_put ws w) = cl_find w" for ws w by (simp add: cl_find_def cl_put_def fun_eq_iff)
  then have a: "GetAppliedManifestWork cl_env (cache_view cl_env (world ?s)) ex_deployment (listers ?s) = Ret (Inr ex_aWork)"
    using ex_GetAMW by simp
  have st: "cl_store (world ?s) (clusterName ?s, BuildWorkstatusName cl_env ex_aWork ex_deployment) = Some ex_reported"
    by (simp add: cl_store_def cl_put_def ws_key_def ex_reported_def new_WorkStatus_def new_meta_def Let_def)
  have "reports cl_env ex_deployment ex_reported"
    using ex_status by (simp add: reports_def ex_reported_def Let_def)
  moreover have "hub_log ex_sys = []" by (simp add: ex_sys_def blank_sys_def startAppliedManifestWorkInformer_def Let_def)
  ultimately show ?thesis
    using handleWorkStatus_idempotent [OF cl_hub_doc ex_hub_up _ a st] by auto
qed

text \<open>
  For an object whose manifest work has no KubeStellar label and that has no WorkStatus, \<^verbatim>\<open>handleWorkStatus\<close>
  returns nil after reading the WorkStatus and the manifest work, and writes nothing.
\<close>

lemma handleWorkStatus_unmanaged:
  assumes "GetAppliedManifestWork E (cache_view E (world s)) obj (listers s) = Ret (Inr aWork)"
    and "hub_Get (hub E) (target_ws E aWork obj s) (sys_io s) = (Some e, ws, io)" "IsNotFound E e"
    and "hc_GetManifestWork (hub E) (clusterName s) (amw_ManifestWorkName aWork) (fst io) = (Inr mw, w')"
    and "range_orders (go_range E)"
    and "\<And>k v. gomap_get (om_Labels (mw_ObjectMeta mw)) k = Some v \<Longrightarrow>
      \<not> strings_HasPrefix k ManagedByKSLabelKeyPrefix \<and> \<not> strings_HasPrefix k TransportLabelPrefix"
  shows "handleWorkStatus E obj False s = Ret (None, s\<lparr>world := w', hub_log := hub_log s @
    [Get_WorkStatus (clusterName s) (BuildWorkstatusName E aWork obj), Get_ManifestWork (clusterName s) (amw_ManifestWorkName aWork)]\<rparr>)"
proof -
  have "\<not> managed_by_ks E (om_Labels (mw_ObjectMeta mw))"
    using assms(6) by (auto simp: managed_by_ks_def HasPrefixInMap_iff [OF assms(5)])
  moreover have "snd io = hub_log s @ [Get_WorkStatus (clusterName s) (BuildWorkstatusName E aWork obj)]"
    using assms(2) by (auto simp: hub_Get_def new_WorkStatus_def new_meta_def split: prod.splits)
  ultimately show ?thesis
    using assms(1-4) by (simp add: handleWorkStatus_def create_workStatus_def GetManifestWork_def put_io_def Let_def)
qed

end
