(* ===== verification/Agent.thy ===== *)
theory Agent
  imports Reporting
begin

text \<open>
  pkg/agent/agent.go and the event handlers of pkg/agent/informers.go: construction of the agent,
  its start, the informers' events, the work queue, and the agent as a transition system.

  The work queue is client-go's: its state is the log of the calls made on it, and an item it hands
  out is one that was added. The steps of \<open>agent_step\<close> are an event of an informer, a worker's
  taking and processing of one item, the run of one \<^verbatim>\<open>go a.startInformers\<close> goroutine (any of
  those pending, so after any number of other steps), and any change of the world outside.
  A step is one whole operation, so this relation has the runs in which no two operations overlap. The agent has four
  workers and runs goroutines beside them: what operations do to each other when they overlap is the subject of
  \<open>Tasks\<close>, \<open>Interleaving\<close>, \<open>Residents\<close> and \<open>Interference\<close>.
\<close>

section \<open>Definitions\<close>

subsection \<open>Events\<close>

definition shouldSkipDelete :: "go_any \<Rightarrow> bool" where
  "shouldSkipDelete obj = False"

definition shouldSkipUpdate :: "go_any \<Rightarrow> go_any \<Rightarrow> bool outcome" where
  "shouldSkipUpdate old new =
     bindO (as_runtime_object old) (\<lambda>oldMObj.
     bindO (as_runtime_object new) (\<lambda>newMObj.
     Ret (om_ResourceVersion (obj_meta newMObj) = om_ResourceVersion (obj_meta oldMObj))))"

definition wq_log :: "wq_call list \<Rightarrow> ('m, 'w) sys \<Rightarrow> ('m, 'w) sys" where
  "wq_log calls s = s\<lparr>workqueue := workqueue s @ calls\<rparr>"

definition enqueueObject :: "('w, 'm, 'g) env \<Rightarrow> go_any \<Rightarrow> bool \<Rightarrow> ('m, 'w) sys \<Rightarrow> ('m, 'w) sys outcome" where
  "enqueueObject E obj skipCheckIsDeleted s =
     bindO (KeyForGroupVersionKindNamespaceName E obj) (\<lambda>r.
       case r of
         Inl err \<Rightarrow> Ret s
       | Inr key \<Rightarrow>
           if \<not> skipCheckIsDeleted then
             (case GetObjectFromKey E (cache_view E (world s)) (listers s) key of
                Inl err \<Rightarrow>
                  if IsNotFound E err then
                    bindO (as_runtime_object obj) (\<lambda>rObj.
                    Ret (wq_log [WQ_Add (key\<lparr>DeletedObject := Some (CopyObjectMetaAndType rObj)\<rparr>)] s))
                  else Ret s
              | Inr x \<Rightarrow> Ret (wq_log [WQ_Add key] s))
           else Ret (wq_log [WQ_Add key] s))"

definition handleObject :: "('w, 'm, 'g) env \<Rightarrow> go_any \<Rightarrow> ('m, 'w) sys \<Rightarrow> ('m, 'w) sys outcome" where
  "handleObject E obj s = bindO (as_runtime_object obj) (\<lambda>rObj. enqueueObject E obj False s)"

datatype event = Added go_any | Updated go_any go_any | Deleted go_any

fun on_event :: "('w, 'm, 'g) env \<Rightarrow> event \<Rightarrow> ('m, 'w) sys \<Rightarrow> ('m, 'w) sys outcome" where
  "on_event E (Added obj) s = handleObject E obj s"
| "on_event E (Updated old new) s =
     bindO (shouldSkipUpdate old new) (\<lambda>skip. if skip then Ret s else handleObject E new s)"
| "on_event E (Deleted obj) s = (if shouldSkipDelete obj then Ret s else handleObject E obj s)"

subsection \<open>The worker\<close>

text \<open>
  \<open>processNextWorkItem\<close> is given what \<^verbatim>\<open>workqueue.Get\<close> returned, an item, or \<open>None\<close> at shutdown, and the state after
  that call.
\<close>

definition processNextWorkItem ::
    "('w, 'm, 'g) env \<Rightarrow> wq_item option \<Rightarrow> ('m, 'w) sys \<Rightarrow> (bool \<times> ('m, 'w) sys) outcome" where
  "processNextWorkItem E got s =
     (case got of
        None \<Rightarrow> Ret (False, s)
      | Some obj \<Rightarrow>
          (case obj of
             ItemOther d \<Rightarrow> Ret (True, wq_log [WQ_Forget obj, WQ_Done obj] s)
           | ItemKey key \<Rightarrow>
               bindO (reconcile E key s) (\<lambda>((requeue, err), s).
                 case err of
                   Some e \<Rightarrow> Ret (True, wq_log [WQ_AddRateLimited obj, WQ_Done obj] s)
                 | None \<Rightarrow>
                     if requeue then Ret (True, wq_log [WQ_AddRateLimited obj, WQ_Done obj] s)
                     else Ret (True, wq_log [WQ_Forget obj, WQ_Done obj] s))))"

text \<open>The loop of a worker over the items it is given; it ends at shutdown, or waits after the last item.\<close>

fun runWorker :: "('w, 'm, 'g) env \<Rightarrow> wq_item option list \<Rightarrow> ('m, 'w) sys \<Rightarrow> ('m, 'w) sys outcome" where
  "runWorker E [] s = Ret s"
| "runWorker E (got # rest) s =
     bindO (processNextWorkItem E got s) (\<lambda>(goes_on, s). if goes_on then runWorker E rest s else Ret s)"

subsection \<open>Construction and start\<close>

text \<open>The struct that \<open>NewAgent\<close> builds, before any channel, informer or goroutine exists.\<close>

definition new_agent :: "string \<Rightarrow> string \<Rightarrow> 'm \<Rightarrow> 'w \<Rightarrow> ('m, 'w) sys" where
  "new_agent cluster agent m w =
     \<lparr>agentName = agent, clusterName = cluster, restMapper = Some m,
      listers = NewSafeMap, informers = NewSafeMap, trackedAppliedManifests = NewSafeMap,
      objectsCount = NewSafeUIDMap, stoppers = NewSafeMap, workqueue = [],
      next_chan = 0, closed_chans = [], next_factory = 1, handlers = [], running = [],
      spawned = [], world = w, hub_log = []\<rparr>"

text \<open>
  The constructors of the clients are client-go's: each gives an error or not. \<open>Inl\<close> is the error
  that \<open>NewAgent\<close> returns.
\<close>

definition NewAgent ::
    "('w, 'm, 'g) env \<Rightarrow> go_error option \<Rightarrow> go_error option outcome \<Rightarrow> go_error option \<Rightarrow> string \<Rightarrow> string \<Rightarrow> 'w \<Rightarrow>
     ((go_error + ('m, 'w) sys) \<times> 'w) outcome" where
  "NewAgent E newDynamic newHubClient newKubernetes cluster agent w =
     (case newDynamic of
        Some err \<Rightarrow> Ret (Inl err, w)
      | None \<Rightarrow>
          bindO newHubClient (\<lambda>r.
            case r of
              Some err \<Rightarrow> Ret (Inl err, w)
            | None \<Rightarrow>
                (case newKubernetes of
                   Some err \<Rightarrow> Ret (Inl err, w)
                 | None \<Rightarrow>
                     (case getRestMapper E w of
                        (Inl err, w) \<Rightarrow> Ret (Inl err, w)
                      | (Inr m, w) \<Rightarrow>
                          Ret (Inr (new_agent cluster agent m w), w)))))"

text \<open>
  How waiting for the cache of an informer ends: it is synced, the wait gives up, or it goes on for ever. \<open>await_caches\<close> waits
  for one cache after the other.
\<close>

datatype cache_sync = Synced | NotSynced | Blocked

primrec await_caches :: "(informer \<Rightarrow> cache_sync) \<Rightarrow> informer list \<Rightarrow> cache_sync" where
  "await_caches sync [] = Synced"
| "await_caches sync (i # is) = (case sync i of Synced \<Rightarrow> await_caches sync is | NotSynced \<Rightarrow> NotSynced | Blocked \<Rightarrow> Blocked)"

text \<open>
  What becomes of \<open>run\<close>: it returns an error, after the deferred calls; it waits for a cache for ever, with no
  worker; or it serves with a number of workers until the process ends.
\<close>

datatype run_end = RunFailed go_error | RunBlocked | RunServing nat

definition open_stopper :: "('m, 'w) sys \<Rightarrow> ('m, 'w) sys" where
  "open_stopper s = startAppliedManifestWorkInformer (next_chan s) (s\<lparr>next_chan := Suc (next_chan s)\<rparr>)"

definition run :: "('w, 'm, 'g) env \<Rightarrow> (informer \<Rightarrow> cache_sync) \<Rightarrow> nat \<Rightarrow> ('m, 'w) sys \<Rightarrow> run_end \<times> ('m, 'w) sys" where
  "run E sync workers s =
     (let stopper = next_chan s;
          s = open_stopper s
      in case await_caches sync (SafeMap_ListValues (go_range E) (informers s)) of
           NotSynced \<Rightarrow> (RunFailed (Errorf ''failed to wait for caches to sync''),
             wq_log [WQ_ShutDown] (s\<lparr>closed_chans := stopper # closed_chans s\<rparr>))
         | Blocked \<Rightarrow> (RunBlocked, s)
         | Synced \<Rightarrow> (RunServing workers, s))"

text \<open>
  \<open>Start\<close> waits three seconds for an error of \<open>run\<close>, and returns nil if none comes; \<open>timely\<close> tells whether an error comes in
  that time.
\<close>

definition Start :: "('w, 'm, 'g) env \<Rightarrow> (informer \<Rightarrow> cache_sync) \<Rightarrow> bool \<Rightarrow> nat \<Rightarrow> ('m, 'w) sys \<Rightarrow> go_error option \<times> ('m, 'w) sys" where
  "Start E sync timely workers s =
     (case run E sync workers s of
        (RunFailed err, s) \<Rightarrow> (if timely then Some err else None, s)
      | (RunBlocked, s) \<Rightarrow> (None, s)
      | (RunServing n, s) \<Rightarrow> (None, s))"

section \<open>The agent as a transition system\<close>

text \<open>The dynamic informers deliver unstructured objects and tombstones.\<close>

fun dynamic_object :: "go_any \<Rightarrow> bool" where
  "dynamic_object (AnyObject (Struct g m f)) = False"
| "dynamic_object x = True"

fun dynamic_event :: "event \<Rightarrow> bool" where
  "dynamic_event (Added x) = dynamic_object x"
| "dynamic_event (Updated x y) = (dynamic_object x \<and> dynamic_object y)"
| "dynamic_event (Deleted x) = dynamic_object x"

definition offered :: "wq_call list \<Rightarrow> wq_item \<Rightarrow> bool" where
  "offered log item \<longleftrightarrow> (\<exists>c \<in> set log. c = WQ_AddRateLimited item \<or> (\<exists>key. c = WQ_Add key \<and> item = ItemKey key))"

inductive agent_step :: "('w, 'm, 'g) env \<Rightarrow> ('m, 'w) sys \<Rightarrow> ('m, 'w) sys \<Rightarrow> bool" for E where
  event: "dynamic_event ev \<Longrightarrow> on_event E ev s = Ret t \<Longrightarrow> agent_step E s t"
| work: "offered (workqueue s) item \<Longrightarrow> range_orders ord \<Longrightarrow>
    processNextWorkItem (E\<lparr>go_range := ord\<rparr>) (Some item) (wq_log [WQ_Get item] s) = Ret (b, t) \<Longrightarrow> agent_step E s t"
| goroutine: "spawned s = xs @ (gvrs, uids) # ys \<Longrightarrow>
    startInformers E gvrs uids (s\<lparr>spawned := xs @ ys\<rparr>) = Ret t \<Longrightarrow> agent_step E s t"
| outside: "agent_step E s (s\<lparr>world := w\<rparr>)"

inductive_cases agent_stepE: "agent_step E s t"

inductive_simps agent_step_simps: "agent_step E s t"

text \<open>An invariant of a step relation holds in every state reached from one that satisfies it.\<close>

locale step_invariant =
  fixes step :: "'s \<Rightarrow> 's \<Rightarrow> bool" and inv :: "'s \<Rightarrow> bool"
  assumes preserved: "inv s \<Longrightarrow> step s t \<Longrightarrow> inv t"
begin

lemma reach: "step\<^sup>*\<^sup>* s t \<Longrightarrow> inv s \<Longrightarrow> inv t"
  by (induction rule: rtranclp_induct) (blast intro: preserved)+

lemma unreachable: "inv s \<Longrightarrow> \<not> inv t \<Longrightarrow> \<not> step\<^sup>*\<^sup>* s t"
  using reach by blast

end

subsection \<open>Equations of the operations\<close>

lemma wq_log_fields [simp]:
  "workqueue (wq_log calls s) = workqueue s @ calls" "world (wq_log calls s) = world s"
  "spawned (wq_log calls s) = spawned s" "listers (wq_log calls s) = listers s"
  "restMapper (wq_log calls s) = restMapper s" "sys_inv (wq_log calls s) = sys_inv s"
  "single_inv (wq_log calls s) = single_inv s" "hub_log (wq_log calls s) = hub_log s"
  "clusterName (wq_log calls s) = clusterName s"
  "trackedAppliedManifests (wq_log calls s) = trackedAppliedManifests s"
  "objectsCount (wq_log calls s) = objectsCount s"
  by (simp_all add: wq_log_def)

lemma enqueueObject_log:
  assumes "enqueueObject E x b s = Ret t"
  shows "t = s \<or> (\<exists>key. t = wq_log [WQ_Add key] s \<and>
     (\<forall>d. DeletedObject key = Some d \<longrightarrow> (\<exists>obj. x = AnyObject obj \<and> d = CopyObjectMetaAndType obj)))"
proof -
  obtain obj where x: "x = AnyObject obj"
    using assms by (cases x) (simp_all add: enqueueObject_def KeyForGroupVersionKindNamespaceName_def)
  show ?thesis
  proof (cases "MetaNamespaceKeyFunc E (AnyObject obj)")
    case (Inl e)
    then show ?thesis using assms by (simp add: enqueueObject_def x KeyForNN_object)
  next
    case (Inr n)
    then show ?thesis using assms by (auto simp: enqueueObject_def x KeyForNN_object split: if_splits sum.splits)
  qed
qed

lemma on_event_log:
  assumes "on_event E ev s = Ret t" "dynamic_event ev"
  shows "t = s \<or> (\<exists>key. t = wq_log [WQ_Add key] s \<and>
     (\<forall>d. DeletedObject key = Some d \<longrightarrow> (\<exists>obj. dynamic_object (AnyObject obj) \<and> d = CopyObjectMetaAndType obj)))"
proof -
  have h: "t = s \<or> (\<exists>key. t = wq_log [WQ_Add key] s \<and>
     (\<forall>d. DeletedObject key = Some d \<longrightarrow> (\<exists>obj. dynamic_object (AnyObject obj) \<and> d = CopyObjectMetaAndType obj)))"
    if "handleObject E x s = Ret t" "dynamic_object x" for x
    using that enqueueObject_log [of E x False s t] by (auto simp: handleObject_def bindO_eq_Ret)
  show ?thesis
    using assms by (cases ev) (auto simp: bindO_eq_Ret split: if_splits dest!: h)
qed

lemma wq_log_log [simp]: "wq_log b (wq_log a s) = wq_log (a @ b) s"
  by (simp add: wq_log_def)

section \<open>What reconciliation leaves alone\<close>

lemma handleAMW_frame:
  assumes "sys_inv s" "handleAppliedManifestWork E obj del s = Ret ((rq, err), t)"
  shows "workqueue t = workqueue s \<and> hub_log t = hub_log s \<and> clusterName t = clusterName s"
  using assms(2)
proof (cases rule: handleAMW_cases)
  case (changed aWork old added removed)
  from stopInformers_frame [OF _ changed(7)] sys_invD(1) [OF assms(1)] show ?thesis by simp
next
  case (deleted aWork info u)
  from stopInformers_frame [OF sys_invD(1) [OF assms(1)] deleted(4)] deleted(5) show ?thesis by simp
qed (use assms(1) in simp_all)

lemma reconcile_workqueue:
  assumes "sys_inv s" "reconcile E key s = Ret ((rq, err), t)"
  shows "workqueue t = workqueue s"
proof -
  have "workqueue t = workqueue s" if "handleWorkStatus E obj del s = Ret (err, t)" for obj del err
    using handleWorkStatus_state [OF that] by (auto simp: put_io_def)
  with assms(2) show ?thesis
    unfolding reconcile_def Let_def
    by (auto simp: bindO_eq_Ret split: sum.splits if_splits option.splits dest: handleAMW_frame [OF assms(1)])
qed

text \<open>The REST mapper is never nil while discovery succeeds.\<close>

definition discovery_ok :: "('w, 'm, 'g) env \<Rightarrow> bool" where
  "discovery_ok E \<longleftrightarrow> (\<forall>w e w'. GetAPIGroupResources E w \<noteq> (Inl e, w'))"

lemma update_restMapper_ok: "discovery_ok E \<Longrightarrow> restMapper (update_restMapper E s) \<noteq> None"
  by (auto simp: update_restMapper_def getRestMapper_def discovery_ok_def split: prod.split sum.split)

lemma startInformers_mapper:
  "discovery_ok E \<Longrightarrow> startInformers E gvrs uids s = Ret t \<Longrightarrow> restMapper t \<noteq> None"
  using startInformers_loop_same_rest [of E 0 gvrs uids "update_restMapper E s" t] update_restMapper_ok [of E s]
  by (simp add: startInformers_def same_rest_def)

lemma stopInformers_mapper:
  assumes "discovery_ok E" "agent_inv s" "restMapper s \<noteq> None" "stopInformers E info s = Ret t"
  shows "restMapper t \<noteq> None"
proof -
  obtain b u where u: "stopInformers_loop E 0 (GVRs info) (ObjectUIDs info) s = Ret (b, u)"
    "t = (if b then update_restMapper E u else u)"
    using assms(4) by (auto simp: stopInformers_def bindO_eq_Ret)
  have "restMapper u = restMapper s"
    using stopInformers_loop_inv [OF assms(2) u(1)] by (simp add: same_rest_def)
  with assms(1,3) u(2) show ?thesis using update_restMapper_ok [of E u] by simp
qed

lemma handleAMW_mapper:
  assumes "discovery_ok E" "sys_inv s" "restMapper s \<noteq> None" "handleAppliedManifestWork E obj del s = Ret ((rq, err), t)"
  shows "restMapper t \<noteq> None"
  using assms(4)
proof (cases rule: handleAMW_cases)
  case (changed aWork old added removed)
  from stopInformers_mapper [OF assms(1) _ _ changed(7)] sys_invD(1) [OF assms(2)] assms(3) show ?thesis by simp
next
  case (deleted aWork info u)
  from stopInformers_mapper [OF assms(1) sys_invD(1) [OF assms(2)] assms(3) deleted(4)] deleted(5) show ?thesis by simp
qed (use assms(3) in simp_all)

lemma reconcile_mapper:
  assumes "discovery_ok E" "sys_inv s" "restMapper s \<noteq> None" "reconcile E key s = Ret ((rq, err), t)"
  shows "restMapper t \<noteq> None"
proof -
  have "restMapper t \<noteq> None" if "handleWorkStatus E obj del s = Ret (err, t)" for obj del err
    using handleWorkStatus_state [OF that] assms(3) by (auto simp: put_io_def)
  with assms(3,4) show ?thesis
    unfolding reconcile_def Let_def
    by (auto simp: bindO_eq_Ret split: sum.splits if_splits option.splits dest!: handleAMW_mapper [OF assms(1-3)])
qed

section \<open>The invariant of the running agent\<close>

definition queued_ok :: "wq_call \<Rightarrow> bool" where
  "queued_ok c \<longleftrightarrow> (\<forall>key. c = WQ_Add key \<or> c = WQ_AddRateLimited (ItemKey key) \<longrightarrow>
     (\<forall>d. DeletedObject key = Some d \<longrightarrow> (\<exists>g m f. d = Unstructured g m f)))"

definition agent_ok :: "('w, 'm, 'g) env \<Rightarrow> ('m, 'w) sys \<Rightarrow> bool" where
  "agent_ok E s \<longleftrightarrow> sys_inv s \<and> list_all queued_ok (workqueue s) \<and> (discovery_ok E \<longrightarrow> restMapper s \<noteq> None)"

lemma Copy_unstructured:
  "dynamic_object (AnyObject obj) \<Longrightarrow> \<exists>g m f. CopyObjectMetaAndType obj = Unstructured g m f"
  by (cases obj) (simp_all add: CopyObjectMetaAndType_def ZeroFields_def)

lemma processNextWorkItem_cases:
  assumes "processNextWorkItem E (Some item) s = Ret (b, t)"
  obtains (other) d where "item = ItemOther d" "b" "t = wq_log [WQ_Forget item, WQ_Done item] s"
  | (retry) key rq err u where "item = ItemKey key" "b" "reconcile E key s = Ret ((rq, err), u)" "rq \<or> err \<noteq> None"
      "t = wq_log [WQ_AddRateLimited item, WQ_Done item] u"
  | (finished) key u where "item = ItemKey key" "b" "reconcile E key s = Ret ((False, None), u)"
      "t = wq_log [WQ_Forget item, WQ_Done item] u"
proof (cases item)
  case (ItemKey key)
  then obtain rq err u where r: "reconcile E key s = Ret ((rq, err), u)"
    using assms by (auto simp: processNextWorkItem_def bindO_eq_Ret)
  show thesis
  proof (cases "rq \<or> err \<noteq> None")
    case True
    show thesis
      by (rule retry [OF ItemKey _ r True]) (use assms ItemKey r True in \<open>auto simp: processNextWorkItem_def split: option.splits\<close>)
  next
    case False
    then have r': "reconcile E key s = Ret ((False, None), u)" using r by simp
    show thesis by (rule finished [OF ItemKey _ r']) (use assms ItemKey r False in \<open>auto simp: processNextWorkItem_def\<close>)
  qed
next
  case (ItemOther d)
  then show thesis using assms by (intro other) (auto simp: processNextWorkItem_def)
qed

lemma offered_ok: "list_all queued_ok log \<Longrightarrow> offered log item \<Longrightarrow> queued_ok (WQ_AddRateLimited item)"
  by (auto simp: offered_def list_all_iff queued_ok_def)

lemma queued_ok_other [simp]: "queued_ok (WQ_Get i)" "queued_ok (WQ_Forget i)" "queued_ok (WQ_Done i)" "queued_ok WQ_ShutDown"
  by (simp_all add: queued_ok_def)

lemma work_agent_ok:
  assumes "agent_ok E s" "offered (workqueue s) item" "range_orders ord"
    and "processNextWorkItem (E\<lparr>go_range := ord\<rparr>) (Some item) s = Ret (b, t)"
  shows "agent_ok E t"
proof -
  have inv: "sys_inv s" "list_all queued_ok (workqueue s)" "queued_ok (WQ_AddRateLimited item)"
    using assms(1) offered_ok [OF _ assms(2)] by (simp_all add: agent_ok_def)
  have rec: "sys_inv u \<and> workqueue u = workqueue s \<and> (discovery_ok E \<longrightarrow> restMapper u \<noteq> None)"
    if "reconcile (E\<lparr>go_range := ord\<rparr>) key s = Ret ((rq, err), u)" for key rq err u
    using reconcile_sys_inv [OF _ inv(1) that] reconcile_workqueue [OF inv(1) that]
      reconcile_mapper [OF _ inv(1) _ that] assms(1,3)
    by (simp add: agent_ok_def discovery_ok_def)
  show ?thesis
    using assms(4)
  proof (cases rule: processNextWorkItem_cases)
    case (other d) then show ?thesis using assms(1) by (simp add: agent_ok_def)
  next
    case (retry key rq err u) then show ?thesis using rec [OF retry(3)] inv by (simp add: agent_ok_def)
  next
    case (finished key u) then show ?thesis using rec [OF finished(3)] inv by (simp add: agent_ok_def)
  qed
qed

lemma goroutine_agent_ok:
  assumes "agent_ok E s" "spawned s = xs @ (gvrs, uids) # ys"
    and "startInformers E gvrs uids (s\<lparr>spawned := xs @ ys\<rparr>) = Ret t"
  shows "agent_ok E t"
proof -
  have "sys_inv (s\<lparr>spawned := xs @ ys\<rparr>)"
    using assms(1,2) by (auto simp: agent_ok_def sys_inv_def tracked_wf_def spawned_wf_def)
  from startInformers_sys_inv [OF this assms(3)] startInformers_frame [OF assms(3)] startInformers_mapper [OF _ assms(3)] assms(1)
  show ?thesis by (simp add: agent_ok_def)
qed

interpretation agent: step_invariant "agent_step E" "agent_ok E" for E
proof unfold_locales
  fix s t assume ok: "agent_ok E s" and "agent_step E s t"
  from this(2) show "agent_ok E t"
  proof cases
    case (event ev)
    from on_event_log [OF event(2,1)] show ?thesis
    proof (elim disjE exE conjE)
      fix key
      assume t: "t = wq_log [WQ_Add key] s"
        and "\<forall>d. DeletedObject key = Some d \<longrightarrow> (\<exists>obj. dynamic_object (AnyObject obj) \<and> d = CopyObjectMetaAndType obj)"
      then have "queued_ok (WQ_Add key)" using Copy_unstructured by (fastforce simp: queued_ok_def)
      then show ?thesis using ok t by (simp add: agent_ok_def)
    qed (use ok in simp)
  next
    case (work item ord b)
    have "agent_ok E (wq_log [WQ_Get item] s)" "offered (workqueue (wq_log [WQ_Get item] s)) item"
      using ok work(1) by (auto simp: agent_ok_def offered_def)
    then show ?thesis using work_agent_ok work(2,3) by blast
  next
    case (goroutine xs gvrs uids ys)
    then show ?thesis using goroutine_agent_ok [OF ok] by blast
  next
    case (outside w)
    then show ?thesis using ok by (simp add: agent_ok_def)
  qed
qed

section \<open>The state the agent starts in\<close>

definition started :: "('w, 'm, 'g) env \<Rightarrow> ('m, 'w) sys \<Rightarrow> bool" where
  "started E s0 \<longleftrightarrow> (\<exists>newDynamic newHub newKube cluster agent w w' s sync n.
     NewAgent E newDynamic newHub newKube cluster agent w = Ret (Inr s, w') \<and> run E sync n s = (RunServing n, s0))"

lemma await_all_synced: "(\<And>i. i \<in> set is \<Longrightarrow> sync i = Synced) \<Longrightarrow> await_caches sync is = Synced"
  by (induction "is") simp_all

lemma NewAgent_state:
  assumes "NewAgent E d h k cluster agent w = Ret (Inr s, w')"
  shows "\<exists>m. s = new_agent cluster agent m w'"
  using assms by (auto simp: NewAgent_def bindO_eq_Ret split: option.splits prod.splits sum.splits)

lemma started_state:
  assumes "started E s0"
  obtains cluster agent m w where "s0 = open_stopper (new_agent cluster agent m w)"
proof -
  from assms obtain d h k cluster agent w w' s sync n where
    a: "NewAgent E d h k cluster agent w = Ret (Inr s, w')" and r: "run E sync n s = (RunServing n, s0)"
    unfolding started_def by blast
  obtain m where "s = new_agent cluster agent m w'" using NewAgent_state [OF a] ..
  moreover have "s0 = open_stopper s" using r by (simp add: run_def Let_def split: cache_sync.splits)
  ultimately show thesis using that by blast
qed

lemma open_stopper_registry: "registry_inv s \<Longrightarrow> registry_inv (open_stopper s)"
  unfolding open_stopper_def startAppliedManifestWorkInformer_def Let_def by (erule startInformer_registry [OF _ refl])

lemma open_stopper_fields [simp]:
  "restMapper (open_stopper s) = restMapper s" "workqueue (open_stopper s) = workqueue s"
  "trackedAppliedManifests (open_stopper s) = trackedAppliedManifests s" "spawned (open_stopper s) = spawned s"
  "objectsCount (open_stopper s) = objectsCount s"
  by (simp_all add: open_stopper_def startAppliedManifestWorkInformer_def Let_def)

lemma started_agent_ok: "started E s0 \<Longrightarrow> agent_ok E s0"
proof (erule started_state)
  fix cluster agent m w
  assume s0: "s0 = open_stopper (new_agent cluster agent m w)"
  have "registry_inv (new_agent cluster agent m w)"
    by (simp add: new_agent_def registry_inv_def sm.dom_empty)
  then have "agent_inv s0"
    using open_stopper_registry by (simp add: s0 agent_inv_def count_inv_def new_agent_def)
  then show "agent_ok E s0"
    by (simp add: s0 agent_ok_def sys_inv_def tracked_wf_def spawned_wf_def new_agent_def)
qed

lemma started_single_inv: "started E s0 \<Longrightarrow> single_inv s0"
  by (erule started_state)
    (auto simp: open_stopper_def startAppliedManifestWorkInformer_def new_agent_def Let_def
      single_inv_def live_def registered_def amw_key_eq amw_gvk_def split: if_splits)

lemma reachable_ok: "started E s0 \<Longrightarrow> (agent_step E)\<^sup>*\<^sup>* s0 s \<Longrightarrow> agent_ok E s"
  by (rule agent.reach [OF _ started_agent_ok])

section \<open>No panic in a reachable state\<close>

definition unstructured_caches :: "('w, 'm, 'g) env \<Rightarrow> bool" where
  "unstructured_caches E \<longleftrightarrow>
     (\<forall>w l ns n g m f. lister_Get (cache_view E w) l n \<noteq> Inr (Struct g m f) \<and>
        lister_ByNamespace_Get (cache_view E w) l ns n \<noteq> Inr (Struct g m f))"

lemma GetObjectFromKey_unstructured:
  assumes "unstructured_caches E" "GetObjectFromKey E (cache_view E w) ls key = Inr obj"
  shows "\<exists>g m f. obj = Unstructured g m f"
proof (cases obj)
  case (Struct g m f)
  with assms show ?thesis
    unfolding unstructured_caches_def
    by (auto simp: GetObjectFromKey_def getObject_def split: option.splits sum.splits if_splits)
qed simp

lemma reconcile_returns:
  assumes "range_orders (go_range E)" "unstructured_caches E" "sys_inv s" "restMapper s \<noteq> None"
    and "\<forall>d. DeletedObject key = Some d \<longrightarrow> (\<exists>g m f. d = Unstructured g m f)"
  shows "\<exists>r t. reconcile E key s = Ret (r, t)"
proof -
  let ?d = "\<lambda>obj del. if IsAppliedManifestWork (AnyObject obj) then handleAppliedManifestWork E obj del s
            else if \<not> IsManagedByAppliedManifestWork obj then Ret ((False, None), s)
            else bindO (handleWorkStatus E obj del s) (\<lambda>(err, s). Ret ((False, err), s))"
  have ws: "\<exists>err t. handleWorkStatus E obj del s = Ret (err, t)" for obj del
    using handleWorkStatus_no_panic [OF assms(4), of E obj del] assms(2) by (auto simp: unstructured_caches_def)
  have d: "\<exists>r t. ?d obj del = Ret (r, t)" if "\<exists>g m f. obj = Unstructured g m f" for obj del
    using that handleAMW_returns [OF assms(1,3,4)] ws [of obj del] by auto
  show ?thesis
  proof (cases "GetObjectFromKey E (cache_view E (world s)) (listers s) key")
    case (Inr obj)
    with d [OF GetObjectFromKey_unstructured [OF assms(2) Inr]] show ?thesis by (simp add: reconcile_def Let_def)
  next
    case (Inl err)
    show ?thesis
    proof (cases "DeletedObject key")
      case None then show ?thesis using Inl by (auto simp: reconcile_def Let_def)
    next
      case (Some obj)
      with Inl d [of obj True] assms(5) show ?thesis by (auto simp: reconcile_def Let_def)
    qed
  qed
qed

lemma processNextWorkItem_returns:
  assumes "range_orders (go_range E)" "unstructured_caches E" "sys_inv s" "restMapper s \<noteq> None"
    and "queued_ok (WQ_AddRateLimited item)"
  shows "\<exists>t. processNextWorkItem E (Some item) s = Ret (True, t)"
proof (cases item)
  case (ItemKey key)
  obtain rq err t where "reconcile E key s = Ret ((rq, err), t)"
    using reconcile_returns [OF assms(1-4), of key] assms(5) ItemKey by (auto simp: queued_ok_def)
  then show ?thesis by (auto simp: processNextWorkItem_def ItemKey split: option.split)
qed (simp add: processNextWorkItem_def)

lemma startInformers_returns:
  assumes "discovery_ok E" "length gvrs = length uids"
  shows "\<exists>t. startInformers E gvrs uids s = Ret t"
  using startInformers_loop_returns [OF update_restMapper_ok [OF assms(1)], of gvrs 0 uids E s] assms(2)
  by (simp add: startInformers_def)

lemma on_event_returns:
  "\<exists>t. on_event E (Added (AnyObject o1)) s = Ret t" "\<exists>t. on_event E (Updated (AnyObject o1) (AnyObject o2)) s = Ret t"
  "\<exists>t. on_event E (Deleted (AnyObject o1)) s = Ret t"
proof -
  have "\<exists>t. handleObject E (AnyObject obj) s = Ret t" for obj
    by (cases "MetaNamespaceKeyFunc E (AnyObject obj)")
      (auto simp: handleObject_def enqueueObject_def KeyForNN_object split: sum.split)
  then show "\<exists>t. on_event E (Added (AnyObject o1)) s = Ret t"
    "\<exists>t. on_event E (Updated (AnyObject o1) (AnyObject o2)) s = Ret t"
    "\<exists>t. on_event E (Deleted (AnyObject o1)) s = Ret t"
    by (auto simp: shouldSkipUpdate_def shouldSkipDelete_def)
qed

section \<open>Queue keys lead back to their objects\<close>

lemma BuildWorkstatusName_copy [simp]: "BuildWorkstatusName L aw (CopyObjectMetaAndType obj) = BuildWorkstatusName L aw obj"
  by (simp add: BuildWorkstatusName_def workstatus_long_name_def)

lemma GetAppliedManifestWork_copy [simp]:
  "GetAppliedManifestWork L V (CopyObjectMetaAndType obj) ls = GetAppliedManifestWork L V obj ls"
  by (simp add: GetAppliedManifestWork_def)

lemma handleWorkStatus_copy:
  "handleWorkStatus E (CopyObjectMetaAndType obj) True s = handleWorkStatus E obj True s"
  by (simp add: handleWorkStatus_def cong: sum.case_cong)

text \<open>The documented behaviour of keys, and an object whose names have no slash.\<close>

definition key_docs :: "'x k8slib_scheme \<Rightarrow> bool" where
  "key_docs L \<longleftrightarrow> gv_string_doc L \<and> meta_key_doc L \<and> split_key_doc L"

definition plain_names :: "runtime_object \<Rightarrow> bool" where
  "plain_names obj \<longleftrightarrow> CHR ''/'' \<notin> set (om_Namespace (obj_meta obj)) \<and> CHR ''/'' \<notin> set (om_Name (obj_meta obj))"

definition key_of :: "runtime_object \<Rightarrow> Key" where
  "key_of obj = \<lparr>GvkKey = gvk_key (obj_gvk obj),
     NamespaceNameKey = (if om_Namespace (obj_meta obj) = '''' then om_Name (obj_meta obj)
       else om_Namespace (obj_meta obj) @ ''/'' @ om_Name (obj_meta obj)), DeletedObject = None\<rparr>"

definition cached :: "('w, 'm, 'g) env \<Rightarrow> runtime_object \<Rightarrow> ('m, 'w) sys \<Rightarrow> go_error + runtime_object" where
  "cached E obj s =
     (case SafeMap_Get (listers s) (gvk_key (obj_gvk obj)) of
        None \<Rightarrow> Inl (lister_missing (gvk_key (obj_gvk obj)))
      | Some l \<Rightarrow> getObject (cache_view E (world s)) l (om_Namespace (obj_meta obj)) (om_Name (obj_meta obj)))"

lemma cached_wq_log [simp]: "cached E obj (wq_log calls s) = cached E obj s"
  by (simp add: cached_def split: option.split)

lemma key_of_object:
  "key_docs L \<Longrightarrow> KeyForGroupVersionKindNamespaceName L (AnyObject obj) = Ret (Inr (key_of obj))"
  by (simp add: KeyForNN_documented key_docs_def key_of_def)

lemma GetObjectFromKey_drop: "GetObjectFromKey L V ls (k\<lparr>DeletedObject := d\<rparr>) = GetObjectFromKey L V ls k"
  by (simp add: GetObjectFromKey_def split: option.split sum.split)

lemma GetObjectFromKey_key_of:
  assumes "key_docs E" "plain_names obj"
  shows "GetObjectFromKey E (cache_view E (world s)) (listers s) ((key_of obj)\<lparr>DeletedObject := d\<rparr>) = cached E obj s"
proof -
  have gvk: "GvkKey (key_of obj) = gvk_key (obj_gvk obj)" by (simp add: key_of_def)
  show ?thesis
  proof (cases "SafeMap_Get (listers s) (gvk_key (obj_gvk obj))")
    case None
    then show ?thesis by (simp add: cached_def GetObjectFromKey_missing GetObjectFromKey_drop gvk)
  next
    case (Some l)
    then show ?thesis
      using GetObjectFromKey_of_object [OF _ _ _ _ _ Some key_of_object [OF assms(1)], of "cache_view E (world s)"] assms
      by (simp add: GetObjectFromKey_drop cached_def key_docs_def plain_names_def)
  qed
qed

lemma handleObject_documented:
  assumes "key_docs E" "plain_names obj"
  shows "handleObject E (AnyObject obj) s =
    (case cached E obj s of
       Inl err \<Rightarrow> if IsNotFound E err then Ret (wq_log [WQ_Add ((key_of obj)\<lparr>DeletedObject := Some (CopyObjectMetaAndType obj)\<rparr>)] s) else Ret s
     | Inr x \<Rightarrow> Ret (wq_log [WQ_Add (key_of obj)] s))"
proof -
  have "GetObjectFromKey E (cache_view E (world s)) (listers s) (key_of obj) = cached E obj s"
    using GetObjectFromKey_key_of [OF assms, of s None] by (simp add: GetObjectFromKey_drop)
  then show ?thesis
    by (simp add: handleObject_def enqueueObject_def key_of_object [OF assms(1)] split: sum.split)
qed

text \<open>What a later reconciliation does with the key that an event queued.\<close>

lemma reconcile_existing:
  assumes "key_docs E" "plain_names obj" "cached E obj s = Inr obj'"
  shows "reconcile E ((key_of obj)\<lparr>DeletedObject := d\<rparr>) s =
      (if IsAppliedManifestWork (AnyObject obj') then handleAppliedManifestWork E obj' False s
       else if IsManagedByAppliedManifestWork obj'
       then bindO (handleWorkStatus E obj' False s) (\<lambda>(err, t). Ret ((False, err), t))
       else Ret ((False, None), s))"
  using GetObjectFromKey_key_of [OF assms(1,2), of s d] assms(3) by (simp add: reconcile_def)

lemma reconcile_key_of:
  assumes "key_docs E" "plain_names obj" "cached E obj s = Inr obj'"
  shows "reconcile E (key_of obj) s =
      (if IsAppliedManifestWork (AnyObject obj') then handleAppliedManifestWork E obj' False s
       else if IsManagedByAppliedManifestWork obj'
       then bindO (handleWorkStatus E obj' False s) (\<lambda>(err, t). Ret ((False, err), t))
       else Ret ((False, None), s))"
proof -
  have "(key_of obj)\<lparr>DeletedObject := None\<rparr> = key_of obj" by (simp add: key_of_def)
  then show ?thesis using reconcile_existing [OF assms, of None] by simp
qed

lemma reconcile_deleted:
  assumes "key_docs E" "plain_names obj" "cached E obj s = Inl e" "IsNotFound E e"
    and "\<not> IsAppliedManifestWork (AnyObject obj)" "IsManagedByAppliedManifestWork obj"
  shows "reconcile E ((key_of obj)\<lparr>DeletedObject := Some (CopyObjectMetaAndType obj)\<rparr>) s =
    bindO (handleWorkStatus E obj True s) (\<lambda>(err, t). Ret ((False, err), t))"
proof -
  have "\<not> IsAppliedManifestWork (AnyObject (CopyObjectMetaAndType obj))" using assms(5) by (simp add: IsAppliedManifestWork_iff)
  then show ?thesis
    using GetObjectFromKey_key_of [OF assms(1,2), of s "Some (CopyObjectMetaAndType obj)"] assms(3,4,6)
    by (simp add: reconcile_def handleWorkStatus_copy)
qed

section \<open>Properties\<close>

definition ex_started :: "(unit, cluster) sys" where
  "ex_started = open_stopper (new_agent ''cluster1'' ''status'' () ex_world)"

lemma ex_started: "started cl_env ex_started"
proof -
  have "NewAgent cl_env None (Ret None) None ''cluster1'' ''status'' ex_world =
      Ret (Inr (new_agent ''cluster1'' ''status'' () ex_world), ex_world)"
    by (simp add: NewAgent_def getRestMapper_def)
  moreover have "run cl_env (\<lambda>i. Synced) 4 (new_agent ''cluster1'' ''status'' () ex_world) = (RunServing 4, ex_started)"
    by (simp add: run_def ex_started_def Let_def await_all_synced)
  ultimately show ?thesis unfolding started_def by blast
qed

lemma cl_discovery_ok: "discovery_ok cl_env"
  by (simp add: discovery_ok_def)

lemma ex_docs: "key_docs cl_env" "plain_names ex_amw_object" "plain_names ex_deployment" "unstructured_caches cl_env"
  using cl_env_laws
  by (auto simp: key_docs_def plain_names_def ex_amw_object_def ex_deployment_def new_meta_def unstructured_caches_def
      cl_find_def find_Some_iff split: option.splits)

lemma ex_started_cached: "cached cl_env ex_amw_object ex_started = Inr ex_amw_object"
  by (simp add: cached_def ex_started_def open_stopper_def new_agent_def startAppliedManifestWorkInformer_def Let_def
      ex_amw_object_def amw_gvk_def getObject_def cl_find_def ex_world_def new_meta_def)

lemma ex_added: "(agent_step cl_env)\<^sup>*\<^sup>* ex_started (wq_log [WQ_Add (key_of ex_amw_object)] ex_started)"
proof -
  have "on_event cl_env (Added (AnyObject ex_amw_object)) ex_started = Ret (wq_log [WQ_Add (key_of ex_amw_object)] ex_started)"
    by (simp add: handleObject_documented [OF ex_docs(1,2)] ex_started_cached)
  then show ?thesis
    by (intro r_into_rtranclp agent_step.event [of "Added (AnyObject ex_amw_object)"]) (simp_all add: ex_amw_object_def)
qed

text \<open>
  A run: the applied manifest work is seen and queued, a worker records it, and the goroutine it spawned starts the informer
  of the deployments.
\<close>

definition ex_gvk :: GroupVersionKind where
  "ex_gvk = \<lparr>gvk_Group = ''apps'', gvk_Version = ''v1'', gvk_Kind = ''Deployment''\<rparr>"

definition ex_recorded :: "(unit, cluster) sys" where
  "ex_recorded = (let i = ItemKey (key_of ex_amw_object) in wq_log [WQ_Forget i, WQ_Done i]
     ((wq_log [WQ_Add (key_of ex_amw_object), WQ_Get i] ex_started)\<lparr>trackedAppliedManifests :=
        SafeMap_Set (om_Name (obj_meta ex_amw_object)) \<lparr>ObjectUIDs = GetTrackedObjectsUID ex_aWork, GVRs = ListGVRs ex_aWork\<rparr>
          (trackedAppliedManifests ex_started),
        spawned := [(ListGVRs ex_aWork, GetTrackedObjectsUID ex_aWork)]\<rparr>))"

definition ex_watching :: "(unit, cluster) sys" where
  "ex_watching = track_object \<lparr>gvr_Group = ''apps'', gvr_Version = ''v1'', gvr_Resource = ''deployments''\<rparr> ex_gvk ''u-web''
     (ex_recorded\<lparr>spawned := []\<rparr>)"

lemma cl_order: "cl_env\<lparr>go_range := sorted_order\<rparr> = cl_env"
  by (simp add: cl_env_def k8slib.defs env.defs)

lemma ex_process_recorded:
  "processNextWorkItem (cl_env\<lparr>go_range := sorted_order\<rparr>) (Some (ItemKey (key_of ex_amw_object)))
     (wq_log [WQ_Get (ItemKey (key_of ex_amw_object))] (wq_log [WQ_Add (key_of ex_amw_object)] ex_started)) = Ret (True, ex_recorded)"
proof -
  let ?i = "ItemKey (key_of ex_amw_object)"
  let ?s = "wq_log [WQ_Add (key_of ex_amw_object), WQ_Get ?i] ex_started"
  obtain g m c where u: "ex_amw_object = Unstructured g m c" by (simp add: ex_amw_object_def)
  have a: "ToAppliedManifestWork cl_env ex_amw_object = Inr ex_aWork" by (simp add: ToAppliedManifestWork_def ex_decode)
  have ne: "ListGVRs ex_aWork \<noteq> []" by (simp add: ListGVRs_eq ex_aWork_def)
  have s: "SafeMap_Get (trackedAppliedManifests ?s) n = None" "spawned ?s = []" for n
    by (simp_all add: ex_started_def new_agent_def)
  have kind: "IsAppliedManifestWork (AnyObject ex_amw_object)"
    by (simp add: IsAppliedManifestWork_iff) (simp add: ex_amw_object_def amw_gvk_def)
  have "GetObjectFromKey cl_env (cache_view cl_env (world ?s)) (listers ?s) (key_of ex_amw_object) = Inr ex_amw_object"
    using GetObjectFromKey_key_of [OF ex_docs(1,2), of ?s None] ex_started_cached by (simp add: GetObjectFromKey_drop)
  then have "reconcile cl_env (key_of ex_amw_object) ?s = handleAppliedManifestWork cl_env ex_amw_object False ?s"
    using kind by (simp add: reconcile_def)
  moreover have "handleAppliedManifestWork cl_env ex_amw_object False ?s = Ret ((False, None), ?s\<lparr>trackedAppliedManifests :=
        SafeMap_Set (om_Name (obj_meta ex_amw_object)) \<lparr>ObjectUIDs = GetTrackedObjectsUID ex_aWork, GVRs = ListGVRs ex_aWork\<rparr> (trackedAppliedManifests ex_started),
        spawned := [(ListGVRs ex_aWork, GetTrackedObjectsUID ex_aWork)]\<rparr>)"
    using a s ne by (simp add: handleAppliedManifestWork_def u Let_def)
  ultimately have "processNextWorkItem (cl_env\<lparr>go_range := sorted_order\<rparr>) (Some ?i) ?s = Ret (True, ex_recorded)"
    by (simp add: processNextWorkItem_def cl_order ex_recorded_def Let_def)
  then show ?thesis by simp
qed

lemma ex_step_recorded: "agent_step cl_env (wq_log [WQ_Add (key_of ex_amw_object)] ex_started) ex_recorded"
  using ex_process_recorded by (intro agent_step.work [OF _ sorted_order_range]) (simp_all add: offered_def)

lemma ex_goroutine:
  "spawned ex_recorded = [([\<lparr>gvr_Group = ''apps'', gvr_Version = ''v1'', gvr_Resource = ''deployments''\<rparr>], [''u-web''])]"
  "startInformers cl_env [\<lparr>gvr_Group = ''apps'', gvr_Version = ''v1'', gvr_Resource = ''deployments''\<rparr>] [''u-web''] (ex_recorded\<lparr>spawned := []\<rparr>) = Ret ex_watching"
proof -
  let ?g = "\<lparr>gvr_Group = ''apps'', gvr_Version = ''v1'', gvr_Resource = ''deployments''\<rparr>"
  have l: "ListGVRs ex_aWork = [?g]" "GetTrackedObjectsUID ex_aWork = [''u-web'']"
    by (simp_all add: ListGVRs_eq GetTrackedObjectsUID_eq ex_aWork_def)
  have m: "update_restMapper cl_env (ex_recorded\<lparr>spawned := []\<rparr>) = ex_recorded\<lparr>spawned := []\<rparr>"
    by (simp add: update_restMapper_def getRestMapper_def ex_recorded_def Let_def ex_started_def new_agent_def wq_log_def
        open_stopper_def startAppliedManifestWorkInformer_def startInformer_def)
  have k: "cl_KindFor () ?g = Inr ex_gvk" by (simp add: cl_KindFor_def cl_kinds_def ex_gvk_def)
  have x: "GroupVersionKind_String doc_lib ex_gvk \<notin> set excludedGVKs" by (simp add: doc_lib_def excludedGVKs_def ex_gvk_def)
  have "restMapper ex_recorded = Some ()" by (simp add: ex_recorded_def Let_def ex_started_def new_agent_def)
  then show "startInformers cl_env [?g] [''u-web''] (ex_recorded\<lparr>spawned := []\<rparr>) = Ret ex_watching"
    using k x by (simp add: startInformers_def m ex_watching_def)
  show "spawned ex_recorded = [([?g], [''u-web''])]" by (simp add: ex_recorded_def Let_def l)
qed

lemma ex_step_watching: "agent_step cl_env ex_recorded ex_watching"
  using agent_step.goroutine [of ex_recorded "[]" _ _ "[]" cl_env ex_watching] ex_goroutine by simp

lemma ex_watching_eq:
  "ex_watching = startInformer \<lparr>gvr_Group = ''apps'', gvr_Version = ''v1'', gvr_Resource = ''deployments''\<rparr> ex_gvk (next_chan ex_recorded) True
     (ex_recorded\<lparr>spawned := [], objectsCount := AddUID (gvk_key ex_gvk) ''u-web'' NewSafeUIDMap, next_chan := Suc (next_chan ex_recorded)\<rparr>)"
proof -
  have "objectsCount ex_recorded = NewSafeUIDMap"
    by (simp add: ex_recorded_def Let_def ex_started_def new_agent_def)
  then show ?thesis
    unfolding ex_watching_def
    by (cases rule: track_object_cases [of "ex_recorded\<lparr>spawned := []\<rparr>" ex_gvk "''u-web''"]) simp_all
qed

lemma ex_watching_informer: "SafeMap_Get (informers ex_watching) (gvk_key ex_gvk) \<noteq> None"
  by (simp add: ex_watching_eq)

lemma ex_watching_listers:
  obtains l l' where "SafeMap_Get (listers ex_watching) amw_key = Some l" "lst_Resource l = AppliedManifestWorkResource"
    "SafeMap_Get (listers ex_watching) (gvk_key (obj_gvk ex_deployment)) = Some l'" "lst_Resource l' = ''deployments''"
proof -
  have "listers ex_recorded = listers ex_started" by (simp add: ex_recorded_def Let_def)
  moreover have "gvk_key ex_gvk \<noteq> amw_key"
    by (simp add: gvk_key_def ex_gvk_def KeyForGroupVersionKind_def amw_key_def workv1_Group_def)
  moreover have "obj_gvk ex_deployment = ex_gvk" by (simp add: ex_deployment_def ex_gvk_def)
  moreover have "\<exists>l. SafeMap_Get (listers ex_started) amw_key = Some l \<and> lst_Resource l = AppliedManifestWorkResource"
    by (simp add: ex_started_def open_stopper_def new_agent_def startAppliedManifestWorkInformer_def Let_def amw_key_eq amw_gvk_def)
  ultimately show thesis using that by (auto simp: ex_watching_eq)
qed

text \<open>
  Property C8: in every state the agent can reach by runs in which events, work items and goroutines are executed one at
  a time (no two of them overlap, see \<open>concurrent_starts_lose_informer\<close> for what overlapping ones do), whatever the events, their
  order, the order in which goroutines run and what happens outside, the registries agree: the informers, listers and
  stoppers have the same keys; the stopper of a key is an open channel of that key alone, the
  key's informer was started with it, and the key's lister reads that informer; every kind with a
  recorded object has an informer; and the recorded and pending lists are well formed.
\<close>

theorem agent_invariant:
  assumes "started E s0" "(agent_step E)\<^sup>*\<^sup>* s0 s"
  shows "sys_inv s"
  using reachable_ok [OF assms] by (simp add: agent_ok_def)

theorem agent_invariant_witness:
  "\<exists>s. (agent_step cl_env)\<^sup>*\<^sup>* ex_started s \<and> SafeMap_Get (informers s) (gvk_key ex_gvk) \<noteq> None \<and> sys_inv s"
proof -
  have run: "(agent_step cl_env)\<^sup>*\<^sup>* ex_started ex_watching"
    using ex_added ex_step_recorded ex_step_watching by (meson rtranclp.rtrancl_into_rtrancl)
  then show ?thesis using agent_invariant [OF ex_started run] ex_watching_informer by blast
qed

text \<open>
  Property C9: in every state reachable by such a run, of events, work items and goroutines executed one at a time, as long as API discovery succeeds and the caches hold
  unstructured objects, nothing the agent may do next, executed alone, panics: not the processing of any queued item
  (whatever order maps are ranged over), not a pending goroutine, not an event with objects. In
  particular no stopper is missing or closed twice and no index runs out of range. Two workers whose operations overlap may panic:
  \<open>concurrent_stops_panic\<close>.
\<close>

theorem agent_no_panic:
  assumes "started E s0" "(agent_step E)\<^sup>*\<^sup>* s0 s" "discovery_ok E" "unstructured_caches E"
  shows "(\<forall>item ord. offered (workqueue s) item \<longrightarrow> range_orders ord \<longrightarrow>
      returns (processNextWorkItem (E\<lparr>go_range := ord\<rparr>) (Some item) (wq_log [WQ_Get item] s))) \<and>
    (\<forall>(gvrs, uids) \<in> set (spawned s). returns (startInformers E gvrs uids s)) \<and>
    (\<forall>old obj. returns (on_event E (Added (AnyObject obj)) s) \<and>
       returns (on_event E (Updated (AnyObject old) (AnyObject obj)) s) \<and> returns (on_event E (Deleted (AnyObject obj)) s))"
proof (intro conjI)
  have ok: "sys_inv s" "list_all queued_ok (workqueue s)" "restMapper s \<noteq> None"
    using reachable_ok [OF assms(1,2)] assms(3) by (simp_all add: agent_ok_def)
  show "\<forall>item ord. offered (workqueue s) item \<longrightarrow> range_orders ord \<longrightarrow>
      returns (processNextWorkItem (E\<lparr>go_range := ord\<rparr>) (Some item) (wq_log [WQ_Get item] s))"
  proof (intro allI impI)
    fix item ord assume i: "offered (workqueue s) item" and o: "range_orders ord"
    show "returns (processNextWorkItem (E\<lparr>go_range := ord\<rparr>) (Some item) (wq_log [WQ_Get item] s))"
      using processNextWorkItem_returns [of "E\<lparr>go_range := ord\<rparr>" "wq_log [WQ_Get item] s" item] ok offered_ok [OF ok(2) i] o assms(4)
      by (auto simp: returns_iff unstructured_caches_def)
  qed
  show "\<forall>(gvrs, uids) \<in> set (spawned s). returns (startInformers E gvrs uids s)"
    using startInformers_returns [OF assms(3)] sys_invD(3) [OF ok(1)] by (fastforce simp: returns_iff spawned_wf_def)
  show "\<forall>old obj. returns (on_event E (Added (AnyObject obj)) s) \<and>
       returns (on_event E (Updated (AnyObject old) (AnyObject obj)) s) \<and> returns (on_event E (Deleted (AnyObject obj)) s)"
    using on_event_returns [where E = E and s = s] by (auto simp: returns_iff simp del: on_event.simps)
qed

theorem agent_no_panic_witness:
  "returns (processNextWorkItem (cl_env\<lparr>go_range := sorted_order\<rparr>) (Some (ItemKey (key_of ex_amw_object)))
     (wq_log [WQ_Add (key_of ex_amw_object), WQ_Get (ItemKey (key_of ex_amw_object))] ex_started))"
  using agent_no_panic [OF ex_started ex_added cl_discovery_ok ex_docs(4)] sorted_order_range
  by (simp add: offered_def)

text \<open>
  Property C20: a worker marks each item done exactly once and last, and keeps it or drops it, never
  both: an item is put back with back-off exactly when its reconciliation asked for a retry or
  failed, and otherwise its failures are forgotten; nothing else is done to the queue.
\<close>

theorem processNextWorkItem_protocol:
  assumes "sys_inv s" "processNextWorkItem E (Some item) s = Ret (b, t)"
  shows "b \<and> (if \<exists>key rq err u. item = ItemKey key \<and> reconcile E key s = Ret ((rq, err), u) \<and> (rq \<or> err \<noteq> None)
    then workqueue t = workqueue s @ [WQ_AddRateLimited item, WQ_Done item]
    else workqueue t = workqueue s @ [WQ_Forget item, WQ_Done item])"
  using assms(2)
proof (cases rule: processNextWorkItem_cases)
  case (retry key rq err u)
  then show ?thesis using reconcile_workqueue [OF assms(1) retry(3)] by auto
next
  case (finished key u)
  then show ?thesis using reconcile_workqueue [OF assms(1) finished(3)] by auto
qed simp

text \<open>A key that is retried: the deployment is cached, its applied manifest work is not.\<close>

definition ex_orphaned :: "(unit, cluster) sys" where
  "ex_orphaned = ex_watching\<lparr>world := ex_world\<lparr>cl_objs := [(''deployments'', ex_deployment)]\<rparr>\<rparr>"

lemma ex_orphaned_facts:
  "sys_inv ex_orphaned" "cached cl_env ex_deployment ex_orphaned = Inr ex_deployment"
  "\<exists>e. GetAppliedManifestWork cl_env (cache_view cl_env (world ex_orphaned)) ex_deployment (listers ex_orphaned) = Ret (Inl e)"
proof -
  obtain l l' where l: "SafeMap_Get (listers ex_watching) amw_key = Some l" "lst_Resource l = AppliedManifestWorkResource"
    "SafeMap_Get (listers ex_watching) (gvk_key (obj_gvk ex_deployment)) = Some l'" "lst_Resource l' = ''deployments''"
    by (rule ex_watching_listers)
  have "(agent_step cl_env)\<^sup>*\<^sup>* ex_started ex_orphaned"
    using ex_added ex_step_recorded ex_step_watching agent_step.outside [of cl_env ex_watching] unfolding ex_orphaned_def
    by (meson rtranclp.rtrancl_into_rtrancl)
  then show "sys_inv ex_orphaned" using reachable_ok [OF ex_started] by (simp add: agent_ok_def)
  show "cached cl_env ex_deployment ex_orphaned = Inr ex_deployment"
    using l(3,4) by (simp add: cached_def ex_orphaned_def getObject_def cl_find_def) (simp add: ex_deployment_def new_meta_def)
  have "cl_find (world ex_orphaned) l '''' ''hub-work'' = Inl (cl_not_found ''hub-work'')"
    using l(2) by (simp add: cl_find_def ex_orphaned_def AppliedManifestWorkResource_def)
  then show "\<exists>e. GetAppliedManifestWork cl_env (cache_view cl_env (world ex_orphaned)) ex_deployment (listers ex_orphaned) = Ret (Inl e)"
    using l(1) by (simp add: GetAppliedManifestWork_def ex_owner) (simp add: ex_orphaned_def)
qed

theorem processNextWorkItem_protocol_witness:
  "\<exists>t. processNextWorkItem cl_env (Some (ItemKey (key_of ex_deployment))) ex_orphaned = Ret (True, t) \<and>
     workqueue t = workqueue ex_orphaned @ [WQ_AddRateLimited (ItemKey (key_of ex_deployment)), WQ_Done (ItemKey (key_of ex_deployment))]"
proof -
  have "\<not> IsAppliedManifestWork (AnyObject ex_deployment)" "IsManagedByAppliedManifestWork ex_deployment"
    by (simp_all add: IsManagedByAppliedManifestWork_def ex_owner) (simp add: IsAppliedManifestWork_iff ex_deployment_def workv1_Group_def)
  then obtain e where r: "reconcile cl_env (key_of ex_deployment) ex_orphaned = Ret ((False, Some e), ex_orphaned)"
    using reconcile_key_of [OF ex_docs(1,3) ex_orphaned_facts(2)] ex_orphaned_facts(3) by (auto simp: handleWorkStatus_def)
  then obtain t where t: "processNextWorkItem cl_env (Some (ItemKey (key_of ex_deployment))) ex_orphaned = Ret (True, t)"
    by (simp add: processNextWorkItem_def)
  have "\<exists>b. \<not> b" by blast
  then show ?thesis using processNextWorkItem_protocol [OF ex_orphaned_facts(1) t] t r by simp
qed

text \<open>
  The deletion of a managed object is carried to the reconciler: when the deletion event comes after the
  object has left the cache, the queued key has a copy of the object, and reconciling the key later deletes
  the WorkStatus of the original object.
\<close>

lemma deleted_object_reconciled:
  assumes "key_docs E" "plain_names obj" "cached E obj s = Inl e" "IsNotFound E e"
    and "cached E obj s' = Inl e'" "IsNotFound E e'"
    and "\<not> IsAppliedManifestWork (AnyObject obj)" "IsManagedByAppliedManifestWork obj"
  shows "\<exists>key. on_event E (Deleted (AnyObject obj)) s = Ret (wq_log [WQ_Add key] s) \<and>
    reconcile E key s' = bindO (handleWorkStatus E obj True s') (\<lambda>(err, t). Ret ((False, err), t))"
proof -
  let ?key = "(key_of obj)\<lparr>DeletedObject := Some (CopyObjectMetaAndType obj)\<rparr>"
  have "on_event E (Deleted (AnyObject obj)) s = Ret (wq_log [WQ_Add ?key] s)"
    using handleObject_documented [OF assms(1,2)] assms(3,4) by (simp add: shouldSkipDelete_def)
  with reconcile_deleted [OF assms(1,2,5-8)] show ?thesis by blast
qed

text \<open>The agent after the deployments' informer was started, with the deployment gone from the cluster.\<close>

definition ex_gone :: "(unit, cluster) sys" where
  "ex_gone = (track_object \<lparr>gvr_Group = ''apps'', gvr_Version = ''v1'', gvr_Resource = ''deployments''\<rparr> (obj_gvk ex_deployment) ''u-web''
     ex_started)\<lparr>world := ex_world\<lparr>cl_objs := [(AppliedManifestWorkResource, ex_amw_object)]\<rparr>\<rparr>"

lemma ex_gone_cached: "cached cl_env ex_deployment ex_gone = Inl (cl_not_found ''web'')"
proof -
  have "SafeMap_Get (listers (track_object g k u s)) (gvk_key k) \<noteq> None" if "uids_of (objectsCount s) (gvk_key k) = {}"
    for g k u and s :: "(unit, cluster) sys"
    using that by (cases rule: track_object_cases [of s k u g]) auto
  moreover have "uids_of (objectsCount ex_started) k = {}" for k by (simp add: ex_started_def new_agent_def)
  ultimately obtain l where "SafeMap_Get (listers ex_gone) (gvk_key (obj_gvk ex_deployment)) = Some l"
    by (fastforce simp: ex_gone_def)
  then show ?thesis
    by (simp add: cached_def getObject_def cl_find_def ex_gone_def ex_deployment_def new_meta_def ex_amw_object_def)
qed

text \<open>
  An event of an object that is cached queues a key without a copy, and reconciling that key later acts on
  the version cached at that time, as an existing object: an applied manifest work, an object without
  an owning work (nothing is done), or an object to report.
\<close>

lemma existing_object_reconciled:
  assumes "key_docs E" "plain_names obj" "cached E obj s = Inr x" "cached E obj s' = Inr obj'"
  shows "\<exists>key. on_event E (Added (AnyObject obj)) s = Ret (wq_log [WQ_Add key] s) \<and> DeletedObject key = None \<and>
    reconcile E key s' =
      (if IsAppliedManifestWork (AnyObject obj') then handleAppliedManifestWork E obj' False s'
       else if IsManagedByAppliedManifestWork obj'
       then bindO (handleWorkStatus E obj' False s') (\<lambda>(err, t). Ret ((False, err), t))
       else Ret ((False, None), s'))"
proof -
  have "on_event E (Added (AnyObject obj)) s = Ret (wq_log [WQ_Add (key_of obj)] s)"
    using handleObject_documented [OF assms(1,2)] assms(3) by simp
  moreover have "DeletedObject (key_of obj) = None" by (simp add: key_of_def)
  ultimately show ?thesis using reconcile_key_of [OF assms(1,2,4)] by blast
qed

text \<open>
  Property C36: when API discovery fails, \<^verbatim>\<open>startInformers\<close> goes on with a nil REST mapper and panics on
  the first resource, and \<^verbatim>\<open>stopInformers\<close>, if it gets to its end, leaves a nil REST mapper, on which
  the next call that maps a kind panics.
\<close>

theorem discovery_failure_panics:
  assumes "GetAPIGroupResources E (world s) = (Inl e, w')"
  shows "\<not> returns (startInformers E (gvr # gvrs) uids s) \<and>
    (\<exists>t. stopInformers E no_info s = Ret t \<and> \<not> returns (stopInformers E \<lparr>ObjectUIDs = [u], GVRs = [gvr]\<rparr> t))"
  using assms
  by (simp add: startInformers_def stopInformers_def update_restMapper_def getRestMapper_def no_info_def)

theorem discovery_failure_panics_witness:
  "\<not> returns (startInformers (cl_env\<lparr>GetAPIGroupResources := \<lambda>w. (Inl (Extern ''Timeout'' ''timeout''), w)\<rparr>)
     [ex_gvr ''deployments''] [''u1''] ex_started)"
  using discovery_failure_panics [of "cl_env\<lparr>GetAPIGroupResources := \<lambda>w. (Inl (Extern ''Timeout'' ''timeout''), w)\<rparr>"
      ex_started "Extern ''Timeout'' ''timeout''" "world ex_started" "ex_gvr ''deployments''" "[]" "[''u1'']"] by simp

text \<open>
  The tombstone an informer delivers for a deletion it missed panics: the event handler
  asserts that the value is an object.
\<close>

lemma tombstone_panics: "\<not> returns (on_event E (Deleted (DeletedFinalStateUnknown k x)) s)"
  by (simp add: shouldSkipDelete_def handleObject_def)

text \<open>
  A queued key whose kind has no lister any more is dropped: \<^verbatim>\<open>reconcile\<close> returns without an error or a
  retry and without any effect.
\<close>

lemma reconcile_no_lister:
  assumes "not_found_doc E" "SafeMap_Get (listers s) (GvkKey key) = None"
  shows "reconcile E key s = Ret ((False, None), s)"
  using assms IsListerNotFound_missing [of "GvkKey key"]
  by (simp add: reconcile_def GetObjectFromKey_missing not_found_doc_def lister_missing_def)

end
