(* ===== verification/Tracking.thy ===== *)
theory Tracking
  imports Agent
begin

text \<open>
  The contract of the tracking of applied objects (pkg/agent/reconcilers.go and
  pkg/agent/informers.go together): the recorded UIDs and the informers that run are those of the
  objects the tracked works list. The abstract state is the map of tracked works; \<open>watched\<close> gives
  the UIDs of a kind it stands for, and \<open>settled\<close> relates the agent's state to it. The refinement
  holds for one work processed after the other, each goroutine run before the next work
  (\<open>settle\<close>), with a REST mapper that does not change and knows every resource, and works that
  share no object; \<open>serial_step\<close> are the runs of the whole agent of this kind. The theory also shows what happens when these conditions do not hold.
\<close>

section \<open>Definitions\<close>

definition settle :: "('w, 'm, 'g) env \<Rightarrow> runtime_object \<Rightarrow> bool \<Rightarrow> ('m, 'w) sys \<Rightarrow>
    ((bool \<times> go_error option) \<times> ('m, 'w) sys) outcome" where
  "settle E obj isBeingDeleted s =
     bindO (handleAppliedManifestWork E obj isBeingDeleted s) (\<lambda>(r, s).
       case spawned s of
         [] \<Rightarrow> Ret (r, s)
       | (gvrs, uids) # rest \<Rightarrow> bindO (startInformers E gvrs uids (s\<lparr>spawned := rest\<rparr>)) (\<lambda>s. Ret (r, s)))"

text \<open>The abstract view: the UIDs of a kind, over all tracked works.\<close>

definition watched :: "('w, 'm, 'g) env \<Rightarrow> 'm \<Rightarrow> AppliedManifestInfo SafeMap \<Rightarrow> string \<Rightarrow> string set" where
  "watched E m T k = {u. \<exists>name info. SafeMap_Get T name = Some info \<and> u \<in> uids_for E m (info_pairs info) k}"

definition other_kinds :: "('w, 'm, 'g) env \<Rightarrow> 'm \<Rightarrow> GroupVersionResource list \<Rightarrow> bool" where
  "other_kinds E m gvrs \<longleftrightarrow> (\<forall>g \<in> set gvrs. \<forall>gvk. KindFor E m g = Inr gvk \<longrightarrow> gvk_key gvk \<noteq> amw_key)"

definition info_ok :: "('w, 'm, 'g) env \<Rightarrow> 'm \<Rightarrow> AppliedManifestInfo \<Rightarrow> bool" where
  "info_ok E m info \<longleftrightarrow> wf_info info \<and> distinct (ObjectUIDs info) \<and> knows E m (GVRs info) \<and> other_kinds E m (GVRs info)"

definition apart :: "AppliedManifestInfo SafeMap \<Rightarrow> string \<Rightarrow> AppliedManifestInfo \<Rightarrow> bool" where
  "apart T name info \<longleftrightarrow> (\<forall>name' info'. name' \<noteq> name \<longrightarrow> SafeMap_Get T name' = Some info' \<longrightarrow>
     set (ObjectUIDs info) \<inter> set (ObjectUIDs info') = {})"

definition works_ok :: "('w, 'm, 'g) env \<Rightarrow> 'm \<Rightarrow> AppliedManifestInfo SafeMap \<Rightarrow> bool" where
  "works_ok E m T \<longleftrightarrow> (\<forall>name info. SafeMap_Get T name = Some info \<longrightarrow> info_ok E m info \<and> apart T name info)"

definition settled :: "('w, 'm, 'g) env \<Rightarrow> 'm \<Rightarrow> ('m, 'w) sys \<Rightarrow> bool" where
  "settled E m s \<longleftrightarrow> sys_inv s \<and> spawned s = [] \<and> restMapper s = Some m \<and> single_inv s \<and>
     works_ok E m (trackedAppliedManifests s) \<and>
     (\<forall>k. uids_of (objectsCount s) k = watched E m (trackedAppliedManifests s) k)"

text \<open>Discovery always gives the same mapper.\<close>

definition stable :: "('w, 'm, 'g) env \<Rightarrow> 'm \<Rightarrow> bool" where
  "stable E m \<longleftrightarrow> (\<forall>w. \<exists>w'. getRestMapper E w = (Inr m, w'))"

text \<open>
  A work that may come next: its objects have different UIDs, none of another tracked work, known
  resources, and an object it had before has the same resource.
\<close>

definition work_info :: "AppliedManifestWork \<Rightarrow> AppliedManifestInfo" where
  "work_info aWork = \<lparr>ObjectUIDs = GetTrackedObjectsUID aWork, GVRs = ListGVRs aWork\<rparr>"

definition admissible :: "('w, 'm, 'g) env \<Rightarrow> 'm \<Rightarrow> runtime_object \<Rightarrow> ('m, 'w) sys \<Rightarrow> bool" where
  "admissible E m obj s \<longleftrightarrow>
     (\<forall>aWork. ToAppliedManifestWork E obj = Inr aWork \<longrightarrow>
        info_ok E m (work_info aWork) \<and> apart (trackedAppliedManifests s) (om_Name (obj_meta obj)) (work_info aWork) \<and>
        (\<forall>old u g g'. SafeMap_Get (trackedAppliedManifests s) (om_Name (obj_meta obj)) = Some old \<longrightarrow>
           info_map old u = Some g \<longrightarrow> info_map (work_info aWork) u = Some g' \<longrightarrow> g = g'))"

section \<open>The two loops in a settled state\<close>

lemma stable_update:
  assumes "stable E m" shows "restMapper (update_restMapper E s) = Some m"
proof -
  obtain w' where "getRestMapper E (world s) = (Inr m, w')" using assms by (auto simp: stable_def)
  then show ?thesis by (simp add: update_restMapper_def)
qed

lemma startInformers_loop_single_inv:
  "agent_inv s \<Longrightarrow> single_inv s \<Longrightarrow> restMapper s = Some m \<Longrightarrow> other_kinds E m gvrs \<Longrightarrow>
   distinct (drop i uids) \<Longrightarrow> (\<And>u k. u \<in> set (drop i uids) \<Longrightarrow> u \<notin> uids_of (objectsCount s) k) \<Longrightarrow>
   startInformers_loop E i gvrs uids s = Ret t \<Longrightarrow> single_inv t"
proof (induction gvrs arbitrary: i s)
  case (Cons gvr gvrs)
  show ?case
  proof (cases "KindFor E m gvr")
    case (Inl e) then show ?thesis using Cons.prems(2,3,7) by simp
  next
    case (Inr gvk)
    have other: "gvk_key gvk \<noteq> amw_key" "other_kinds E m gvrs"
      using Cons.prems(4) Inr by (auto simp: other_kinds_def)
    have sub: "set (drop (Suc i) uids) \<subseteq> set (drop i uids)" "distinct (drop (Suc i) uids)"
      using distinct_drop [OF Cons.prems(5), of 1] by (simp_all add: set_drop_subset_set_drop)
    show ?thesis
    proof (cases "GroupVersionKind_String E gvk \<in> set excludedGVKs")
      case True
      then show ?thesis
        using Cons.IH [of s "Suc i", OF Cons.prems(1-3) other(2) sub(2)] Cons.prems(3,6,7) Inr sub(1) by auto
    next
      case False
      let ?t = "track_object gvr gvk (uids ! i) s"
      have i: "i < length uids" and rest: "startInformers_loop E (Suc i) gvrs uids ?t = Ret t"
        using Cons.prems(3,7) Inr False by (auto split: if_splits)
      have hd: "drop i uids = uids ! i # drop (Suc i) uids" using i by (simp add: Cons_nth_drop_Suc)
      have "single_inv ?t"
        using track_object_single_inv [OF Cons.prems(1,2) _ other(1)] Cons.prems(6) hd by simp
      moreover have "u \<notin> uids_of (objectsCount ?t) k" if "u \<in> set (drop (Suc i) uids)" for u k
        using Cons.prems(5,6) that hd by auto
      ultimately show ?thesis
        using Cons.IH [of ?t "Suc i"] track_object_agent_inv [OF Cons.prems(1)] Cons.prems(3) other(2) sub(2) rest by simp
    qed
  qed
qed simp

lemma startInformers_settled:
  assumes "stable E m" "agent_inv s" "single_inv s" "info_ok E m \<lparr>ObjectUIDs = uids, GVRs = gvrs\<rparr>"
    and "\<And>u k. u \<in> set uids \<Longrightarrow> u \<notin> uids_of (objectsCount s) k"
    and "startInformers E gvrs uids s = Ret t"
  shows "single_inv t" and "restMapper t = Some m"
    and "uids_of (objectsCount t) k = uids_of (objectsCount s) k \<union> uids_for E m (zip uids gvrs) k"
proof -
  let ?s = "update_restMapper E s"
  have m: "restMapper ?s = Some m" by (rule stable_update [OF assms(1)])
  have s: "agent_inv ?s" "single_inv ?s"
    using assms(2,3) by (simp_all add: agent_inv_same [OF update_restMapper_same] single_inv_same [OF update_restMapper_same])
  have i: "length uids = length gvrs" "distinct uids" "knows E m gvrs" "other_kinds E m gvrs"
    using assms(4) by (simp_all add: info_ok_def wf_info_def)
  have l: "startInformers_loop E 0 gvrs uids ?s = Ret t" using assms(6) by (simp add: startInformers_def)
  show "single_inv t"
    using startInformers_loop_single_inv [OF s m i(4) _ _ l] i(2) assms(5) by simp
  show "restMapper t = Some m"
    using startInformers_loop_same_rest [OF l] m by (simp add: same_rest_def)
  show "uids_of (objectsCount t) k = uids_of (objectsCount s) k \<union> uids_for E m (zip uids gvrs) k"
    using startInformers_loop_uids [OF m i(3) _ l] i(1) by simp
qed

lemma stopInformers_settled:
  assumes "stable E m" "agent_inv s" "single_inv s" "restMapper s = Some m" "wf_info info" "knows E m (GVRs info)"
    and "stopInformers E info s = Ret t"
  shows "single_inv t" and "restMapper t = Some m"
    and "uids_of (objectsCount t) k = uids_of (objectsCount s) k - uids_at E m (info_pairs info) k"
proof -
  obtain b u where u: "stopInformers_loop E 0 (GVRs info) (ObjectUIDs info) s = Ret (b, u)"
    "t = (if b then update_restMapper E u else u)"
    using assms(7) by (auto simp: stopInformers_def bindO_eq_Ret)
  have l: "length (GVRs info) + 0 \<le> length (ObjectUIDs info)" using assms(5) by (simp add: wf_info_def)
  note loop = stopInformers_loop_uids [OF assms(2,4,6) l u(1)]
  show "single_inv t" by (rule stopInformers_single_inv [OF assms(2,3,7)])
  show "restMapper t = Some m" using u(2) loop [of k] stable_update [OF assms(1)] by simp
  show "uids_of (objectsCount t) k = uids_of (objectsCount s) k - uids_at E m (info_pairs info) k"
    using u(2) loop [of k] by (simp add: info_pairs_def)
qed

section \<open>Tracked works as sets of objects\<close>

lemma uids_for_iff:
  "info_ok E m i \<Longrightarrow> u \<in> uids_for E m (info_pairs i) k \<longleftrightarrow>
     (\<exists>g gvk. info_map i u = Some g \<and> tracked_kind E m g = Some gvk \<and> gvk_key gvk = k)"
  by (simp add: uids_for_def info_ok_def info_pairs_distinct)

lemma uids_at_iff:
  "wf_info i \<Longrightarrow> distinct (ObjectUIDs i) \<Longrightarrow> u \<in> uids_at E m (info_pairs i) k \<longleftrightarrow>
     (\<exists>g gvk. info_map i u = Some g \<and> KindFor E m g = Inr gvk \<and> gvk_key gvk = k)"
  by (simp add: uids_at_def info_pairs_distinct)

lemma tracked_kind_KindFor: "tracked_kind E m g = Some gvk \<Longrightarrow> KindFor E m g = Inr gvk"
  by (auto simp: tracked_kind_def split: sum.splits if_splits)

lemma info_map_uid: "wf_info i \<Longrightarrow> info_map i u = Some g \<Longrightarrow> u \<in> set (ObjectUIDs i)"
  using dom_info_map [of i] by auto

lemma info_restrict_gvrs:
  assumes "wf_info j" "distinct (ObjectUIDs j)" "wf_info l" "distinct (ObjectUIDs l)" "info_map j = info_map l |` S"
  shows "set (GVRs j) \<subseteq> set (GVRs l)"
proof
  fix g assume "g \<in> set (GVRs j)"
  then obtain n where n: "n < length (GVRs j)" "GVRs j ! n = g" by (auto simp: in_set_conv_nth)
  then have "(ObjectUIDs j ! n, g) \<in> set (info_pairs j)"
    using assms(1) by (auto simp: info_pairs_def wf_info_def in_set_zip)
  then have "info_map l (ObjectUIDs j ! n) = Some g"
    using assms(1,2,5) by (auto simp: info_pairs_distinct restrict_map_def split: if_splits)
  then have "(ObjectUIDs j ! n, g) \<in> set (info_pairs l)" using assms(3,4) by (simp add: info_pairs_distinct)
  then show "g \<in> set (GVRs l)" unfolding info_pairs_def by (rule set_zip_rightD)
qed

text \<open>An object of the kind in a work other than \<open>name\<close>.\<close>

definition elsewhere :: "('w, 'm, 'g) env \<Rightarrow> 'm \<Rightarrow> AppliedManifestInfo SafeMap \<Rightarrow> string \<Rightarrow> string \<Rightarrow> string set" where
  "elsewhere E m T name k = {u. \<exists>name' i. name' \<noteq> name \<and> SafeMap_Get T name' = Some i \<and> u \<in> uids_for E m (info_pairs i) k}"

lemma watched_split:
  "watched E m T k = elsewhere E m T name k \<union>
     (case SafeMap_Get T name of Some i \<Rightarrow> uids_for E m (info_pairs i) k | None \<Rightarrow> {})"
  by (auto simp: watched_def elsewhere_def split: option.split)
    (metis option.distinct(1), metis option.inject)

lemma elsewhere_set [simp]: "elsewhere E m (SafeMap_Set name i T) name k = elsewhere E m T name k"
  by (auto simp: elsewhere_def)

lemma elsewhere_delete [simp]: "elsewhere E m (SafeMap_Delete name T) name k = elsewhere E m T name k"
  by (auto simp: elsewhere_def)

lemma elsewhere_apart:
  assumes "works_ok E m T" "apart T name i" "u \<in> elsewhere E m T name k"
  shows "u \<notin> set (ObjectUIDs i)"
proof -
  obtain n j where j: "n \<noteq> name" "SafeMap_Get T n = Some j" "u \<in> uids_for E m (info_pairs j) k"
    using assms(3) by (auto simp: elsewhere_def)
  then have "info_ok E m j" using assms(1) by (simp add: works_ok_def)
  then have "u \<in> set (ObjectUIDs j)"
    using j(3) info_map_uid [of j u] by (auto simp: uids_for_iff info_ok_def)
  then show ?thesis using assms(2) j(1,2) unfolding apart_def by blast
qed

lemma works_ok_set:
  assumes "works_ok E m T" "info_ok E m i" "apart T name i"
  shows "works_ok E m (SafeMap_Set name i T)"
  using assms unfolding works_ok_def apart_def by (auto split: if_splits) blast+

lemma works_ok_delete: "works_ok E m T \<Longrightarrow> works_ok E m (SafeMap_Delete name T)"
  unfolding works_ok_def apart_def by (auto split: if_splits)

text \<open>Replacing the objects of a work by others, removing first, gives the new objects.\<close>

lemma watched_replace:
  assumes "works_ok E m T" "SafeMap_Get T name = Some old" "info_ok E m new" "apart T name new"
    and same: "\<And>u g g'. info_map old u = Some g \<Longrightarrow> info_map new u = Some g' \<Longrightarrow> g = g'"
    and added: "info_ok E m added" "info_map added = info_map new |` (- set (ObjectUIDs old))"
    and removed: "wf_info removed" "distinct (ObjectUIDs removed)" "info_map removed = info_map old |` (- set (ObjectUIDs new))"
  shows "(watched E m T k - uids_at E m (info_pairs removed) k) \<union> uids_for E m (info_pairs added) k =
    watched E m (SafeMap_Set name new T) k"
proof -
  have old: "info_ok E m old" "apart T name old" using assms(1,2) by (simp_all add: works_ok_def)
  have wf: "wf_info old" "wf_info new" using old(1) assms(3) by (simp_all add: info_ok_def)
  have uid: "u \<in> set (ObjectUIDs i) \<longleftrightarrow> info_map i u \<noteq> None" if "wf_info i" for u i
    using dom_info_map [OF that] by auto
  have e: "u \<notin> uids_at E m (info_pairs removed) k" if "u \<in> elsewhere E m T name k" for u
    using elsewhere_apart [OF assms(1) old(2) that] removed(3) by (auto simp: uids_at_iff [OF removed(1,2)] uid wf restrict_map_def)
  have "u \<in> (uids_for E m (info_pairs old) k - uids_at E m (info_pairs removed) k) \<union> uids_for E m (info_pairs added) k \<longleftrightarrow>
      u \<in> uids_for E m (info_pairs new) k" for u
    unfolding Un_iff Diff_iff uids_for_iff [OF old(1)] uids_for_iff [OF assms(3)] uids_for_iff [OF added(1)]
      uids_at_iff [OF removed(1,2)] added(2) removed(3)
    using same [of u] by (auto simp: restrict_map_def uid wf dest: tracked_kind_KindFor split: if_splits)
  then have "(uids_for E m (info_pairs old) k - uids_at E m (info_pairs removed) k) \<union> uids_for E m (info_pairs added) k =
      uids_for E m (info_pairs new) k" by blast
  with e show ?thesis
    unfolding watched_split [where name = name] by (auto simp: assms(2))
qed

lemma watched_forget:
  assumes "works_ok E m T" "SafeMap_Get T name = Some old"
  shows "watched E m T k - uids_at E m (info_pairs old) k = watched E m (SafeMap_Delete name T) k"
proof -
  have old: "info_ok E m old" "apart T name old" using assms by (simp_all add: works_ok_def)
  have "wf_info old" "distinct (ObjectUIDs old)" using old(1) by (simp_all add: info_ok_def)
  then have at: "u \<in> uids_at E m (info_pairs old) k \<Longrightarrow> u \<in> set (ObjectUIDs old)" for u
    using info_map_uid [of old u] by (auto simp: uids_at_iff)
  have sub: "uids_for E m (info_pairs old) k \<subseteq> uids_at E m (info_pairs old) k"
    by (fastforce simp: uids_for_def uids_at_def dest: tracked_kind_KindFor)
  from at sub elsewhere_apart [OF assms(1) old(2)] show ?thesis
    unfolding watched_split [where name = name] by (auto simp: assms(2))
qed

section \<open>One work after the other\<close>

lemma settled_fresh:
  assumes "settled E m s" "apart (trackedAppliedManifests s) name i" "u \<in> set (ObjectUIDs i)"
    and "\<And>old. SafeMap_Get (trackedAppliedManifests s) name = Some old \<Longrightarrow> u \<notin> set (ObjectUIDs old)"
  shows "u \<notin> uids_of (objectsCount s) k"
proof -
  have T: "works_ok E m (trackedAppliedManifests s)" using assms(1) by (simp add: settled_def)
  have "u \<notin> elsewhere E m (trackedAppliedManifests s) name k" using elsewhere_apart [OF T assms(2)] assms(3) by blast
  moreover have "u \<notin> uids_for E m (info_pairs old) k" if "SafeMap_Get (trackedAppliedManifests s) name = Some old" for old
  proof -
    have ok: "info_ok E m old" using T that by (simp add: works_ok_def)
    then have "wf_info old" by (simp add: info_ok_def)
    with assms(4) [OF that] show ?thesis using info_map_uid by (auto simp: uids_for_iff [OF ok])
  qed
  ultimately show ?thesis
    using assms(1) watched_split [of E m "trackedAppliedManifests s" k name]
    by (auto simp: settled_def split: option.splits)
qed

lemma settle_new:
  assumes "stable E m" "settled E m s" "admissible E m obj s" "ToAppliedManifestWork E obj = Inr aWork"
    and none: "SafeMap_Get (trackedAppliedManifests s) (om_Name (obj_meta obj)) = None"
    and t: "startInformers E (ListGVRs aWork) (GetTrackedObjectsUID aWork)
      (s\<lparr>trackedAppliedManifests := SafeMap_Set (om_Name (obj_meta obj)) (work_info aWork) (trackedAppliedManifests s), spawned := []\<rparr>) = Ret t"
  shows "settled E m t"
proof -
  let ?T = "trackedAppliedManifests s" and ?n = "om_Name (obj_meta obj)" and ?i = "work_info aWork"
  let ?s = "s\<lparr>trackedAppliedManifests := SafeMap_Set ?n ?i ?T, spawned := []\<rparr>"
  have i: "info_ok E m ?i" "apart ?T ?n ?i" using assms(3,4) by (simp_all add: admissible_def)
  have s: "sys_inv s" "single_inv s" "works_ok E m ?T" using assms(2) by (simp_all add: settled_def)
  have inv: "sys_inv ?s" using s(1) i(1) by (auto simp: sys_inv_def tracked_wf_def spawned_wf_def info_ok_def)
  have fresh: "u \<notin> uids_of (objectsCount ?s) k" if "u \<in> set (GetTrackedObjectsUID aWork)" for u k
    using settled_fresh [OF assms(2) i(2), of u k] that none by (simp add: work_info_def)
  note start = startInformers_settled [OF assms(1) sys_invD(1) [OF inv] _ i(1) [unfolded work_info_def] fresh t]
  have "uids_of (objectsCount t) k = watched E m (SafeMap_Set ?n ?i ?T) k" for k
  proof -
    have "uids_of (objectsCount t) k = watched E m ?T k \<union> uids_for E m (info_pairs ?i) k"
      using start(3) s(2) assms(2) by (simp add: settled_def info_pairs_def work_info_def)
    then show ?thesis
      using watched_split [of E m ?T k ?n] watched_split [of E m "SafeMap_Set ?n ?i ?T" k ?n] none by simp
  qed
  then show ?thesis
    using start(1,2) s(2) startInformers_sys_inv [OF inv t] startInformers_frame [OF t] works_ok_set [OF s(3) i]
    by (simp add: settled_def)
qed

lemma settle_changed:
  assumes "range_orders (go_range E)" "stable E m" "settled E m s" "admissible E m obj s" "ToAppliedManifestWork E obj = Inr aWork"
    and old: "SafeMap_Get (trackedAppliedManifests s) (om_Name (obj_meta obj)) = Some old"
    and diff: "GetAddedRemovedInfo (go_range E) old (work_info aWork) = Ret (added, removed)"
    and u: "stopInformers E removed (s\<lparr>trackedAppliedManifests := SafeMap_Set (om_Name (obj_meta obj)) (work_info aWork)
        (trackedAppliedManifests s), spawned := [(GVRs added, ObjectUIDs added)]\<rparr>) = Ret u"
    and t: "startInformers E (GVRs added) (ObjectUIDs added) (u\<lparr>spawned := []\<rparr>) = Ret t"
  shows "settled E m t"
proof -
  let ?T = "trackedAppliedManifests s" and ?n = "om_Name (obj_meta obj)" and ?i = "work_info aWork"
  let ?s = "s\<lparr>trackedAppliedManifests := SafeMap_Set ?n ?i ?T, spawned := [(GVRs added, ObjectUIDs added)]\<rparr>"
  have i: "info_ok E m ?i" "apart ?T ?n ?i"
    and same: "\<And>u g g'. info_map old u = Some g \<Longrightarrow> info_map ?i u = Some g' \<Longrightarrow> g = g'"
    using assms(4,5) old by (auto simp: admissible_def)
  have s: "sys_inv s" "single_inv s" "works_ok E m ?T" "spawned s = []" "restMapper s = Some m" using assms(3) by (simp_all add: settled_def)
  have o: "info_ok E m old" using s(3) old by (simp add: works_ok_def)
  have wf: "wf_info old" "wf_info ?i" "distinct (ObjectUIDs old)" "distinct (ObjectUIDs ?i)" using o i(1) by (simp_all add: info_ok_def)
  have d: "wf_info added" "wf_info removed" "info_map added = info_map ?i |` (- set (ObjectUIDs old))"
    "info_map removed = info_map old |` (- set (ObjectUIDs ?i))"
    using GetAddedRemovedInfo_spec [OF assms(1) wf(1,2)] diff by (metis Pair_inject outcome.inject(1))+
  have dd: "distinct (ObjectUIDs added)" "distinct (ObjectUIDs removed)"
    using GetAddedRemovedInfo_distinct [OF assms(1) wf diff] by simp_all
  have a: "info_ok E m added"
    using i(1) d(1) dd(1) info_restrict_gvrs [OF d(1) dd(1) wf(2,4) d(3)] by (auto simp: info_ok_def knows_def other_kinds_def)
  have kr: "knows E m (GVRs removed)"
    using o info_restrict_gvrs [OF d(2) dd(2) wf(1,3) d(4)] by (auto simp: info_ok_def knows_def)
  have inv: "sys_inv ?s" using record_info_inv [OF s(1) wf(2), of "GVRs added" "ObjectUIDs added" ?n] d(1) s(4) by (simp add: wf_info_def)
  note stop = stopInformers_settled [OF assms(2) sys_invD(1) [OF inv] _ _ d(2) kr u]
  have st: "single_inv ?s" "restMapper ?s = Some m" using s by simp_all
  have ufr: "trackedAppliedManifests u = SafeMap_Set ?n ?i ?T" using stopInformers_frame [OF sys_invD(1) [OF inv] u] by simp
  have uinv: "sys_inv (u\<lparr>spawned := []\<rparr>)"
    using stopInformers_sys_inv [OF inv u] by (simp add: sys_inv_def tracked_wf_def spawned_wf_def)
  have fresh: "x \<notin> uids_of (objectsCount (u\<lparr>spawned := []\<rparr>)) k" if x: "x \<in> set (ObjectUIDs added)" for x k
  proof -
    have "x \<in> set (ObjectUIDs ?i)" "x \<notin> set (ObjectUIDs old)" using dom_info_restrict [OF d(1) wf(2) d(3)] x by auto
    then have "x \<notin> uids_of (objectsCount s) k" using settled_fresh [OF assms(3) i(2)] old by simp
    then show ?thesis using stop(3) [OF st] by simp
  qed
  note start = startInformers_settled [OF assms(2) sys_invD(1) [OF uinv] _ _ fresh t]
  have us: "single_inv (u\<lparr>spawned := []\<rparr>)" using stop(1) [OF st] by simp
  have ai: "info_ok E m \<lparr>ObjectUIDs = ObjectUIDs added, GVRs = GVRs added\<rparr>" using a by (cases added) simp
  have repl: "(watched E m ?T k - uids_at E m (info_pairs removed) k) \<union> uids_for E m (info_pairs added) k =
      watched E m (SafeMap_Set ?n ?i ?T) k" for k
    by (rule watched_replace [OF s(3) old i _ a d(3) d(2) dd(2) d(4)]) (rule same)
  have "uids_of (objectsCount t) k = watched E m (SafeMap_Set ?n ?i ?T) k" for k
    using start(3) [OF us ai, of k] stop(3) [OF st, of k] repl [of k] assms(3)
    by (simp add: settled_def info_pairs_def)
  then show ?thesis
    using start(1,2) [OF us ai] startInformers_sys_inv [OF uinv t] startInformers_frame [OF t] works_ok_set [OF s(3) i] ufr
    by (simp add: settled_def)
qed

lemma settle_deleted:
  assumes "stable E m" "settled E m s"
    and old: "SafeMap_Get (trackedAppliedManifests s) name = Some old"
    and u: "stopInformers E old s = Ret u"
  shows "settled E m (u\<lparr>trackedAppliedManifests := SafeMap_Delete name (trackedAppliedManifests u)\<rparr>)"
proof -
  let ?T = "trackedAppliedManifests s"
  have s: "sys_inv s" "single_inv s" "works_ok E m ?T" "spawned s = []" "restMapper s = Some m" using assms(2) by (simp_all add: settled_def)
  have o: "wf_info old" "knows E m (GVRs old)" using s(3) old by (simp_all add: works_ok_def info_ok_def)
  note stop = stopInformers_settled [OF assms(1) sys_invD(1) [OF s(1)] s(2,5) o u]
  note fr = stopInformers_frame [OF sys_invD(1) [OF s(1)] u]
  have "uids_of (objectsCount u) k = watched E m (SafeMap_Delete name ?T) k" for k
    using stop(3) [of k] watched_forget [OF s(3) old, of k] assms(2) by (simp add: settled_def)
  then show ?thesis
    using stop(1,2) fr s(4) works_ok_delete [OF s(3)] forget_info_inv [OF stopInformers_sys_inv [OF s(1) u]]
    by (simp add: settled_def)
qed

text \<open>The abstract operation: a work is recorded, replaced or forgotten.\<close>

definition spec_works :: "('w, 'm, 'g) env \<Rightarrow> runtime_object \<Rightarrow> bool \<Rightarrow>
    (string \<rightharpoonup> AppliedManifestInfo) \<Rightarrow> (string \<rightharpoonup> AppliedManifestInfo)" where
  "spec_works E obj isBeingDeleted W =
     (case ToAppliedManifestWork E obj of
        Inl err \<Rightarrow> W
      | Inr aWork \<Rightarrow>
          if isBeingDeleted then W(om_Name (obj_meta obj) := None)
          else if ListGVRs aWork = [] then W
          else W(om_Name (obj_meta obj) \<mapsto> work_info aWork))"

lemma stable_discovery:
  assumes "stable E m" shows "discovery_ok E"
  unfolding discovery_ok_def
proof (intro allI notI)
  fix w e w' assume "GetAPIGroupResources E w = (Inl e, w')"
  then have "getRestMapper E w = (Inl e, w')" by (simp add: getRestMapper_def)
  moreover obtain w2 where "getRestMapper E w = (Inr m, w2)" using assms unfolding stable_def by blast
  ultimately show False by simp
qed

lemma settle_step:
  assumes "range_orders (go_range E)" "stable E m" "settled E m s" "admissible E m obj s"
    and h: "handleAppliedManifestWork E obj del s = Ret ((rq, err), t)"
  shows "\<exists>u. settle E obj del s = Ret ((rq, err), u) \<and> settled E m u \<and>
    SafeMap_Get (trackedAppliedManifests u) = spec_works E obj del (SafeMap_Get (trackedAppliedManifests s))"
proof -
  have sp: "spawned s = []" "sys_inv s" using assms(3) by (simp_all add: settled_def)
  have same: ?thesis if "t = s" "SafeMap_Get (trackedAppliedManifests s) = spec_works E obj del (SafeMap_Get (trackedAppliedManifests s))"
    using that assms(3) h sp by (simp add: settle_def)
  note start = startInformers_returns [OF stable_discovery [OF assms(2)]]
  show ?thesis
    using h
  proof (cases rule: handleAMW_cases)
    case (changed aWork old added removed)
    note c = changed [folded work_info_def]
    note ch = settle_changed [OF assms(1-4) c(1,4,6)]
    have "sys_inv (s\<lparr>trackedAppliedManifests := SafeMap_Set (om_Name (obj_meta obj)) (work_info aWork) (trackedAppliedManifests s),
        spawned := spawned s @ [(GVRs added, ObjectUIDs added)]\<rparr>)" and len: "length (GVRs added) = length (ObjectUIDs added)"
      using GetAddedRemovedInfo_spec [OF assms(1) sys_invD(4) [OF sp(2) c(4)] tracked_info_wf [of aWork, folded work_info_def]] c(6)
        record_info_inv [OF sp(2) tracked_info_wf [of aWork, folded work_info_def], of "GVRs added" "ObjectUIDs added"]
      by (metis Pair_inject outcome.inject(1) wf_info_def)+
    then have fr: "spawned t = [(GVRs added, ObjectUIDs added)]"
      "trackedAppliedManifests t = SafeMap_Set (om_Name (obj_meta obj)) (work_info aWork) (trackedAppliedManifests s)"
      using stopInformers_frame [OF sys_invD(1) c(7)] sp(1) by simp_all
    obtain u where u: "startInformers E (GVRs added) (ObjectUIDs added) (t\<lparr>spawned := []\<rparr>) = Ret u" using start [OF len] by blast
    have "settled E m u" using ch [OF _ u] c(7) sp(1) by simp
    then show ?thesis
      using h u fr c(1-3) startInformers_frame [OF u] by (auto simp: settle_def spec_works_def fun_eq_iff)
  next
    case (new aWork)
    note n = new [folded work_info_def]
    have len: "length (ListGVRs aWork) = length (GetTrackedObjectsUID aWork)" by (simp add: ListGVRs_eq GetTrackedObjectsUID_eq)
    obtain u where u: "startInformers E (ListGVRs aWork) (GetTrackedObjectsUID aWork) (t\<lparr>spawned := []\<rparr>) = Ret u"
      using start [OF len] by blast
    have "settled E m u" using settle_new [OF assms(2-4) n(1,4)] u n(5) by simp
    then show ?thesis
      using h u n(1-3,5) sp(1) startInformers_frame [OF u] by (auto simp: settle_def spec_works_def fun_eq_iff)
  next
    case (deleted aWork info u)
    have "spawned t = []" "trackedAppliedManifests u = trackedAppliedManifests s"
      using stopInformers_frame [OF sys_invD(1) [OF sp(2)] deleted(4)] sp(1) deleted(5) by simp_all
    then show ?thesis
      using settle_deleted [OF assms(2,3) deleted(3,4)] h deleted(1,2,5) by (auto simp: settle_def spec_works_def fun_eq_iff)
  qed (rule same; auto simp: spec_works_def work_info_def fun_eq_iff)+
qed

section \<open>Properties\<close>

text \<open>
  Property C1: in a settled agent (no goroutine is pending, and the recorded UIDs and running informers are those of the tracked works), with discovery that
  always gives one REST mapper, processing an applied manifest work that is admissible (its objects have different UIDs, none of
  which another tracked work lists, the mapper knows their resources, and an object it had before has the same resource), and
  then its goroutine, before any other work, returns and refines the
  abstract operation: the tracked works become those of the specification, and the agent is settled
  again, so the recorded UIDs of every kind are exactly those of the tracked works' objects and one
  informer runs per kind that has some. This covers a new work, a changed one (only the difference
  is applied), an unchanged one, a deleted one, and one whose object cannot be decoded. What happens without these
  conditions is the subject of \<open>discovery_failure_panics\<close>, \<open>shared_object_two_informers\<close>, \<open>unknown_kind_aborts\<close> and \<open>deleted_before_started\<close>.
\<close>

theorem settle_refines:
  assumes "range_orders (go_range E)" "stable E m" "settled E m s" "admissible E m (Unstructured g om c) s"
  shows "\<exists>r t. settle E (Unstructured g om c) isBeingDeleted s = Ret (r, t) \<and> settled E m t \<and>
    SafeMap_Get (trackedAppliedManifests t) =
      spec_works E (Unstructured g om c) isBeingDeleted (SafeMap_Get (trackedAppliedManifests s))"
proof -
  obtain rq err t where "handleAppliedManifestWork E (Unstructured g om c) isBeingDeleted s = Ret ((rq, err), t)"
    using handleAMW_returns [OF assms(1), of s g om c isBeingDeleted] assms(3) by (auto simp: settled_def)
  from settle_step [OF assms this] show ?thesis by blast
qed

lemma ex_started_settled: "settled cl_env () ex_started"
proof -
  have "sys_inv ex_started" "single_inv ex_started"
    using started_agent_ok [OF ex_started] started_single_inv [OF ex_started] by (simp_all add: agent_ok_def)
  then show ?thesis
    by (simp add: settled_def ex_started_def new_agent_def works_ok_def watched_def)
qed

lemma ex_stable: "stable cl_env ()"
  by (simp add: stable_def getRestMapper_def)

lemma ex_admissible: "admissible cl_env () ex_amw_object ex_started"
proof -
  have "ToAppliedManifestWork cl_env ex_amw_object = Inr ex_aWork" by (simp add: ToAppliedManifestWork_def ex_decode)
  moreover have "info_ok cl_env () (work_info ex_aWork)"
    by (simp add: info_ok_def wf_info_def work_info_def ListGVRs_eq GetTrackedObjectsUID_eq ex_aWork_def knows_def other_kinds_def
        cl_KindFor_def cl_kinds_def gvk_key_def KeyForGroupVersionKind_def amw_key_def workv1_Group_def)
  ultimately show ?thesis
    by (simp add: admissible_def apart_def ex_started_def new_agent_def)
qed

theorem settle_refines_witness:
  "\<exists>r t. settle cl_env ex_amw_object False ex_started = Ret (r, t) \<and> settled cl_env () t \<and>
     SafeMap_Get (trackedAppliedManifests t) ''hub-work'' = Some (work_info ex_aWork)"
proof -
  obtain g om c where u: "ex_amw_object = Unstructured g om c" by (simp add: ex_amw_object_def)
  have name: "om_Name (obj_meta ex_amw_object) = ''hub-work''" by (simp add: ex_amw_object_def new_meta_def)
  have "spec_works cl_env ex_amw_object False W ''hub-work'' = Some (work_info ex_aWork)" for W
    by (simp add: spec_works_def ToAppliedManifestWork_def ex_decode name ListGVRs_eq) (simp add: ex_aWork_def)
  then show ?thesis
    using settle_refines [OF cl_env_laws(8) ex_stable ex_started_settled, of g om c False] ex_admissible by (fastforce simp: u [symmetric])
qed

text \<open>The informers of a settled agent.\<close>

lemma settled_one_informer:
  assumes "settled E m s" "k \<noteq> amw_key"
  shows "if watched E m (trackedAppliedManifests s) k = {} then live s k = []
    else \<exists>i c l. live s k = [(k, i, c)] \<and> SafeMap_Get (stoppers s) k = Some c \<and>
      SafeMap_Get (listers s) k = Some l \<and> lst_informer l = i"
proof -
  have inv: "registry_inv s" "count_inv s" "single_inv s"
    and uids: "uids_of (objectsCount s) k = watched E m (trackedAppliedManifests s) k"
    using assms(1) by (simp_all add: settled_def sys_inv_def agent_inv_def)
  have live: "live s k = registered s k" using inv(3) by (simp add: single_inv_def)
  show ?thesis
  proof (cases "uids_of (objectsCount s) k = {}")
    case True
    then have "SafeMap_Get (informers s) k = None" using inv(3) assms(2) by (auto simp: single_inv_def)
    then show ?thesis using True uids live by (simp add: registered_def)
  next
    case False
    then obtain i where i: "SafeMap_Get (informers s) k = Some i" using inv(2) by (auto simp: count_inv_def)
    then have "k \<in> dom (SafeMap_Get (stoppers s))" "k \<in> dom (SafeMap_Get (listers s))"
      using registry_invD(1,2) [OF inv(1)] by auto
    then obtain c l where "SafeMap_Get (stoppers s) k = Some c" "SafeMap_Get (listers s) k = Some l" by blast
    then show ?thesis using False uids live i registry_invD(7) [OF inv(1) i] by (auto simp: registered_def)
  qed
qed


section \<open>Runs of the agent, one item with its goroutine after the other\<close>

text \<open>
  \<open>run_goroutine\<close> runs the goroutine that a work item has spawned, if it has. A step of \<open>serial_step\<close> is an event of an
  informer; a worker that takes an item of the queue and processes it, and then the goroutine; or a change of the world outside.
  An item whose key leads to an applied manifest work (in the cache, or the copy the key has) must be of an admissible one.
\<close>

definition run_goroutine :: "('w, 'm, 'g) env \<Rightarrow> ('m, 'w) sys \<Rightarrow> ('m, 'w) sys outcome" where
  "run_goroutine E s = (case spawned s of [] \<Rightarrow> Ret s | (gvrs, uids) # rest \<Rightarrow> startInformers E gvrs uids (s\<lparr>spawned := rest\<rparr>))"

definition admissible_item :: "('w, 'm, 'g) env \<Rightarrow> 'm \<Rightarrow> wq_item \<Rightarrow> ('m, 'w) sys \<Rightarrow> bool" where
  "admissible_item E m item s \<longleftrightarrow> (\<forall>key obj. item = ItemKey key \<longrightarrow>
     GetObjectFromKey E (cache_view E (world s)) (listers s) key = Inr obj \<or> DeletedObject key = Some obj \<longrightarrow>
     IsAppliedManifestWork (AnyObject obj) \<longrightarrow> admissible E m obj s)"

inductive serial_step :: "('w, 'm, 'g) env \<Rightarrow> 'm \<Rightarrow> ('m, 'w) sys \<Rightarrow> ('m, 'w) sys \<Rightarrow> bool" for E m where
  event: "dynamic_event ev \<Longrightarrow> on_event E ev s = Ret t \<Longrightarrow> serial_step E m s t"
| work: "offered (workqueue s) item \<Longrightarrow> range_orders ord \<Longrightarrow> admissible_item E m item s \<Longrightarrow>
    processNextWorkItem (E\<lparr>go_range := ord\<rparr>) (Some item) (wq_log [WQ_Get item] s) = Ret (b, u) \<Longrightarrow>
    run_goroutine E u = Ret t \<Longrightarrow> serial_step E m s t"
| outside: "serial_step E m s (s\<lparr>world := w\<rparr>)"

text \<open>These are runs of the agent.\<close>

lemma serial_agent_run: "serial_step E m s t \<Longrightarrow> (agent_step E)\<^sup>*\<^sup>* s t"
proof (induction rule: serial_step.induct)
  case (event ev s t)
  then show ?case by (intro r_into_rtranclp agent_step.event)
next
  case (work s item ord b u t)
  have 1: "agent_step E s u" by (rule agent_step.work [OF work(1,2,4)])
  show ?case
  proof (cases "spawned u")
    case Nil
    then show ?thesis using 1 work(5) by (auto simp: run_goroutine_def)
  next
    case (Cons p rest)
    obtain gvrs uids where p: "p = (gvrs, uids)" by (cases p)
    have "agent_step E u t"
      using agent_step.goroutine [of u "[]" gvrs uids rest E t] work(5) Cons p by (simp add: run_goroutine_def)
    then show ?thesis using 1 by (meson converse_rtranclp_into_rtranclp r_into_rtranclp)
  qed
next
  case (outside s w)
  then show ?case by (intro r_into_rtranclp agent_step.outside)
qed

lemma ranged_tracking:
  fixes E :: "('w, 'm, 'g) env"
  shows "stable (E\<lparr>go_range := ord\<rparr>) m = stable E m" "settled (E\<lparr>go_range := ord\<rparr>) m s = settled E m s"
    "admissible (E\<lparr>go_range := ord\<rparr>) m obj s = admissible E m obj s"
    "startInformers (E\<lparr>go_range := ord\<rparr>) gvrs uids s = startInformers E gvrs uids s"
    "GetObjectFromKey (E\<lparr>go_range := ord\<rparr>) V ls key = GetObjectFromKey E V ls key"
proof -
  have k: "tracked_kind (E\<lparr>go_range := ord\<rparr>) = tracked_kind E" by (simp add: tracked_kind_def fun_eq_iff split: sum.split)
  have u: "uids_for (E\<lparr>go_range := ord\<rparr>) = uids_for E" by (simp add: uids_for_def k fun_eq_iff)
  have w: "watched (E\<lparr>go_range := ord\<rparr>) = watched E" by (simp add: watched_def u fun_eq_iff)
  have i: "info_ok (E\<lparr>go_range := ord\<rparr>) = info_ok E" by (simp add: info_ok_def knows_def other_kinds_def fun_eq_iff)
  have g: "getRestMapper (E\<lparr>go_range := ord\<rparr>) = getRestMapper E" by (simp add: getRestMapper_def fun_eq_iff split: prod.split sum.split)
  have a: "ToAppliedManifestWork (E\<lparr>go_range := ord\<rparr>) = ToAppliedManifestWork E" by (simp add: ToAppliedManifestWork_def fun_eq_iff)
  have l: "startInformers_loop (E\<lparr>go_range := ord\<rparr>) n gvrs uids s = startInformers_loop E n gvrs uids s" for n s
    by (induction gvrs arbitrary: n s) (simp_all split: option.split sum.split)
  show "stable (E\<lparr>go_range := ord\<rparr>) m = stable E m" by (simp add: stable_def g)
  show "settled (E\<lparr>go_range := ord\<rparr>) m s = settled E m s" by (simp add: settled_def works_ok_def w i)
  show "admissible (E\<lparr>go_range := ord\<rparr>) m obj s = admissible E m obj s" by (simp add: admissible_def a i)
  show "startInformers (E\<lparr>go_range := ord\<rparr>) gvrs uids s = startInformers E gvrs uids s"
    by (simp add: startInformers_def l update_restMapper_def g)
  show "GetObjectFromKey (E\<lparr>go_range := ord\<rparr>) V ls key = GetObjectFromKey E V ls key"
    by (simp add: GetObjectFromKey_def split: option.split sum.split)
qed

text \<open>The calls on the queue concern nothing that the goroutine reads or writes.\<close>

lemma settled_wq_log [simp]: "settled E m (wq_log calls s) = settled E m s"
  by (simp add: settled_def)

lemma track_object_wq_log: "track_object gvr gvk uid (wq_log calls s) = wq_log calls (track_object gvr gvk uid s)"
  by (simp add: track_object_def startInformer_def wq_log_def Let_def)

lemma run_goroutine_wq_log:
  fixes E :: "('w, 'm, 'g) env" and s :: "('m, 'w) sys"
  shows "run_goroutine E (wq_log calls s) = bindO (run_goroutine E s) (\<lambda>t. Ret (wq_log calls t))"
proof -
  have l: "startInformers_loop E i gvrs uids (wq_log calls s) = bindO (startInformers_loop E i gvrs uids s) (\<lambda>t. Ret (wq_log calls t))"
    for i gvrs uids and s :: "('m, 'w) sys"
    by (induction gvrs arbitrary: i s) (simp_all add: track_object_wq_log split: option.split sum.split)
  have "update_restMapper E ((wq_log calls s)\<lparr>spawned := x\<rparr>) = wq_log calls (update_restMapper E (s\<lparr>spawned := x\<rparr>))" for x
    by (simp add: update_restMapper_def wq_log_def split: prod.split sum.split)
  then show ?thesis by (simp add: run_goroutine_def startInformers_def l split: list.split)
qed

lemma settle_run: "settle E obj del s = bindO (handleAppliedManifestWork E obj del s) (\<lambda>(r, t). bindO (run_goroutine E t) (\<lambda>u. Ret (r, u)))"
proof (cases "handleAppliedManifestWork E obj del s")
  case (Ret x)
  then show ?thesis by (cases x) (simp add: settle_def run_goroutine_def split: list.split)
qed (simp add: settle_def)

lemma settled_handler:
  assumes "settled E m s" "handleWorkStatus E' obj del s = Ret (err, t)"
  shows "settled E m t" "run_goroutine E t = Ret t"
  using handleWorkStatus_state [OF assms(2)] assms(1) by (auto simp: settled_def put_io_def run_goroutine_def)

lemma reconcile_settled:
  assumes "range_orders (go_range E)" "stable E m" "settled E m s" "admissible_item E m (ItemKey key) s"
    and "reconcile E key s = Ret ((rq, err), u)" "run_goroutine E u = Ret t"
  shows "settled E m t"
proof -
  have same: "settled E m t" if "u = s"
    using that assms(3,6) by (simp add: settled_def run_goroutine_def)
  have disp: "settled E m t"
    if obj: "GetObjectFromKey E (cache_view E (world s)) (listers s) key = Inr obj \<or> DeletedObject key = Some obj"
      and d: "(if IsAppliedManifestWork (AnyObject obj) then handleAppliedManifestWork E obj del s
            else if \<not> IsManagedByAppliedManifestWork obj then Ret ((False, None), s)
            else bindO (handleWorkStatus E obj del s) (\<lambda>(err, s). Ret ((False, err), s))) = Ret ((rq, err), u)" for obj del
  proof (cases "IsAppliedManifestWork (AnyObject obj)")
    case True
    then have adm: "admissible E m obj s" using assms(4) obj by (auto simp: admissible_item_def)
    have h: "handleAppliedManifestWork E obj del s = Ret ((rq, err), u)" using d True by simp
    from settle_step [OF assms(1-3) adm h] obtain u' where "settle E obj del s = Ret ((rq, err), u')" "settled E m u'" by blast
    then show ?thesis using h assms(6) by (simp add: settle_run)
  next
    case False
    show ?thesis
    proof (cases "IsManagedByAppliedManifestWork obj")
      case True
      then have "handleWorkStatus E obj del s = Ret (err, u)" using d False by (auto simp: bindO_eq_Ret)
      from settled_handler [OF assms(3) this] assms(6) show ?thesis by simp
    qed (use d same False in simp)
  qed
  show ?thesis
  proof (cases "GetObjectFromKey E (cache_view E (world s)) (listers s) key")
    case (Inr obj)
    then show ?thesis using disp [of obj False] assms(5) by (simp add: reconcile_def Let_def)
  next
    case (Inl e)
    then show ?thesis using disp [of _ True] same assms(5) by (auto simp: reconcile_def Let_def split: if_splits option.splits)
  qed
qed

lemma serial_settled:
  assumes "stable E m" "settled E m s" "serial_step E m s t"
  shows "settled E m t"
  using assms(3)
proof cases
  case (event ev)
  then show ?thesis using on_event_log [OF event(2,1)] assms(2) by auto
next
  case (work item ord b u)
  let ?E = "E\<lparr>go_range := ord\<rparr>" and ?s = "wq_log [WQ_Get item] s"
  have s: "settled ?E m ?s" "stable ?E m" using assms(1,2) by (simp_all add: ranged_tracking)
  have o: "range_orders (go_range ?E)" using work(2) by simp
  have adm: "admissible_item ?E m item ?s"
    using work(3) by (simp add: admissible_item_def ranged_tracking) (simp add: admissible_def)
  have run: "run_goroutine ?E x = run_goroutine E x" for x :: "('b, 'a) sys"
    by (simp add: run_goroutine_def ranged_tracking split: list.split)
  have rec: "settled E m t" if i: "item = ItemKey key" "reconcile ?E key ?s = Ret (r, v)" "u = wq_log calls v" for key r v calls
  proof -
    obtain x where x: "run_goroutine E v = Ret x" "t = wq_log calls x"
      using work(5) i(3) by (auto simp: run_goroutine_wq_log bindO_eq_Ret)
    obtain rq err where "r = (rq, err)" by (cases r)
    then have "settled ?E m x" using reconcile_settled [OF o s(2) s(1) [unfolded i(1)] adm [unfolded i(1)], of rq err v x] i(1,2) x(1) run by simp
    then show ?thesis using x(2) by (simp add: ranged_tracking)
  qed
  from work(4) show ?thesis
  proof (cases rule: processNextWorkItem_cases)
    case (other d)
    then have "settled E m u" using assms(2) by simp
    then show ?thesis using work(5) by (simp add: run_goroutine_def settled_def)
  qed (use rec in blast)+
next
  case (outside w)
  have "single_inv (s\<lparr>world := w\<rparr>) = single_inv s" by (simp add: single_inv_def live_def registered_def)
  then show ?thesis using outside assms(2) by (simp add: settled_def)
qed

interpretation serial: step_invariant "serial_step E m" "\<lambda>s. stable E m \<and> settled E m s" for E m
  by unfold_locales (blast intro: serial_settled)

lemma started_settled:
  assumes "stable E m" "started E s0"
  shows "settled E m s0"
proof -
  obtain d h kc cluster agent w w' s sync n where
    a: "NewAgent E d h kc cluster agent w = Ret (Inr s, w')" and r: "run E sync n s = (RunServing n, s0)"
    using assms(2) unfolding started_def by blast
  obtain w2 where "getRestMapper E w = (Inr m, w2)" using assms(1) unfolding stable_def by blast
  then have "s = new_agent cluster agent m w2"
    using a by (auto simp: NewAgent_def bindO_eq_Ret split: option.splits)
  moreover have "s0 = open_stopper s" using r by (simp add: run_def Let_def split: cache_sync.splits)
  moreover have "sys_inv s0" "single_inv s0"
    using started_agent_ok [OF assms(2)] started_single_inv [OF assms(2)] by (simp_all add: agent_ok_def)
  ultimately show ?thesis by (simp add: settled_def new_agent_def works_ok_def watched_def)
qed

text \<open>
  Property C11: one informer per watched kind. Let the agent start as \<^verbatim>\<open>NewAgent\<close> and \<^verbatim>\<open>run\<close> leave it, and run with one REST mapper that discovery always
  gives, handling one item after the other, each with its goroutine, in any order that the events and the queue allow, where
  the applied manifest works that it handles are admissible (see \<open>settle_refines\<close>). Then after every such step, for every kind other than the
  applied manifest works', exactly one informer runs if some tracked work has an object of that
  kind that is not excluded, with the stopper and the lister registered for the kind, and none runs
  otherwise.
\<close>

theorem settled_informers:
  assumes "started E s0" "stable E m" "(serial_step E m)\<^sup>*\<^sup>* s0 s" "k \<noteq> amw_key"
  shows "if watched E m (trackedAppliedManifests s) k = {} then live s k = []
    else \<exists>i c l. live s k = [(k, i, c)] \<and> SafeMap_Get (stoppers s) k = Some c \<and>
      SafeMap_Get (listers s) k = Some l \<and> lst_informer l = i"
proof (rule settled_one_informer [OF _ assms(4)])
  show "settled E m s" using serial.reach [OF assms(3)] started_settled [OF assms(2,1)] assms(2) by simp
qed

lemma ex_serial: "(serial_step cl_env ())\<^sup>*\<^sup>* ex_started ex_watching"
proof -
  let ?k = "key_of ex_amw_object" and ?s = "wq_log [WQ_Add (key_of ex_amw_object)] ex_started"
  have "on_event cl_env (Added (AnyObject ex_amw_object)) ex_started = Ret ?s"
    by (simp add: handleObject_documented [OF ex_docs(1,2)] ex_started_cached)
  then have 1: "serial_step cl_env () ex_started ?s"
    by (intro serial_step.event [of "Added (AnyObject ex_amw_object)"]) (simp_all add: ex_amw_object_def)
  have "GetObjectFromKey cl_env (cache_view cl_env (world ?s)) (listers ?s) ?k = Inr ex_amw_object"
    using GetObjectFromKey_key_of [OF ex_docs(1,2), of ?s None] ex_started_cached by (simp add: GetObjectFromKey_drop)
  moreover have "DeletedObject ?k = None" by (simp add: key_of_def)
  ultimately have "admissible_item cl_env () (ItemKey ?k) ?s"
    using ex_admissible by (simp add: admissible_item_def) (simp add: admissible_def)
  moreover have "run_goroutine cl_env ex_recorded = Ret ex_watching"
    using ex_goroutine by (simp add: run_goroutine_def)
  ultimately have "serial_step cl_env () ?s ex_watching"
    using ex_process_recorded by (intro serial_step.work [OF _ sorted_order_range]) (simp_all add: offered_def)
  with 1 show ?thesis by (meson converse_rtranclp_into_rtranclp r_into_rtranclp)
qed

theorem settled_informers_witness:
  "\<exists>i c. (serial_step cl_env ())\<^sup>*\<^sup>* ex_started ex_watching \<and> live ex_watching (gvk_key ex_gvk) = [(gvk_key ex_gvk, i, c)]"
proof -
  have "gvk_key ex_gvk \<noteq> amw_key"
    by (simp add: gvk_key_def ex_gvk_def KeyForGroupVersionKind_def amw_key_def workv1_Group_def)
  note s = settled_informers [OF ex_started ex_stable ex_serial this]
  have "SafeMap_Get (trackedAppliedManifests ex_watching) (om_Name (obj_meta ex_amw_object)) = Some (work_info ex_aWork)"
    by (simp add: ex_watching_def ex_recorded_def Let_def work_info_def)
  moreover have "''u-web'' \<in> uids_for cl_env () (info_pairs (work_info ex_aWork)) (gvk_key ex_gvk)"
    by (simp add: uids_for_def info_pairs_def work_info_def ListGVRs_eq GetTrackedObjectsUID_eq ex_aWork_def tracked_kind_def
        cl_KindFor_def cl_kinds_def doc_lib_def excludedGVKs_def ex_gvk_def)
  ultimately have "watched cl_env () (trackedAppliedManifests ex_watching) (gvk_key ex_gvk) \<noteq> {}"
    unfolding watched_def by blast
  with s ex_serial show ?thesis by auto
qed

text \<open>
  Property C38: an object that a second work also lists breaks the one-informer contract. If it is the
  only recorded object of its kind, recording it again starts a second informer: two run, and the
  stopper of the first is in no registry any more, so nothing can stop it.
\<close>

theorem shared_object_two_informers:
  assumes "agent_inv s" "single_inv s" "uids_of (objectsCount s) (gvk_key gvk) = {uid}"
  shows "length (live (track_object gvr gvk uid s) (gvk_key gvk)) = 2 \<and>
    (\<exists>i c. live s (gvk_key gvk) = [(gvk_key gvk, i, c)] \<and>
       (\<forall>k. SafeMap_Get (stoppers (track_object gvr gvk uid s)) k \<noteq> Some c))"
proof (cases rule: track_object_cases [of s gvk uid gvr])
  case start
  have reg: "registry_inv s" using assms(1) by (simp add: agent_inv_def)
  obtain i where i: "SafeMap_Get (informers s) (gvk_key gvk) = Some i"
    using assms(1,3) by (auto simp: agent_inv_def count_inv_def)
  then have "gvk_key gvk \<in> dom (SafeMap_Get (stoppers s))" using registry_invD(1) [OF reg] by auto
  then obtain c where c: "SafeMap_Get (stoppers s) (gvk_key gvk) = Some c" by auto
  have l: "live s (gvk_key gvk) = [(gvk_key gvk, i, c)]"
    using assms(2) i c by (simp add: single_inv_def registered_def)
  have n: "next_chan s \<notin> set (closed_chans s)" "next_chan s \<noteq> c"
    using registry_invD(8) [OF reg, of "next_chan s"] registry_invD(3) [OF reg c] by auto
  have "live (track_object gvr gvk uid s) (gvk_key gvk) =
      live s (gvk_key gvk) @ [(gvk_key gvk, Informer (next_factory s) gvr, next_chan s)]"
    using n(1) by (simp add: start(2) live_startInformer) (simp add: live_def)
  moreover have "SafeMap_Get (stoppers (track_object gvr gvk uid s)) k \<noteq> Some c" for k
    using n(2) registry_invD(5) [OF reg c, of k] by (auto simp: start(2))
  ultimately show ?thesis using l by simp
next
  case keep
  then show ?thesis using assms(3) by simp
qed

theorem shared_object_two_informers_witness:
  "length (live (track_object (ex_gvr ''deployments'') ex_gvk ''u1'' (track_object (ex_gvr ''deployments'') ex_gvk ''u1'' ex_started))
     (gvk_key ex_gvk)) = 2"
proof -
  let ?s = "track_object (ex_gvr ''deployments'') ex_gvk ''u1'' ex_started"
  have s: "agent_inv ex_started" "single_inv ex_started" and u: "uids_of (objectsCount ex_started) k = {}" for k
    using ex_started_settled by (simp_all add: settled_def sys_invD) (simp add: ex_started_def new_agent_def)
  have "gvk_key ex_gvk \<noteq> amw_key"
    by (simp add: gvk_key_def ex_gvk_def KeyForGroupVersionKind_def amw_key_def workv1_Group_def)
  then have 1: "single_inv ?s" using track_object_single_inv [OF s] u by simp
  have 2: "uids_of (objectsCount ?s) (gvk_key ex_gvk) = {''u1''}" using u by simp
  show ?thesis
    using shared_object_two_informers [OF track_object_agent_inv [OF s(1)] 1 2] by (rule conjunct1)
qed

text \<open>
  Property C39: a resource that the REST mapper does not know ends the goroutine. If it is the first
  of a new work, none of the work's objects is recorded; and as the work itself is recorded, later
  events of the unchanged work do nothing, so its other objects are never watched.
\<close>

theorem unknown_kind_aborts:
  assumes "stable E m" "KindFor E m gvr = Inl e"
    and "ToAppliedManifestWork E (Unstructured g om c) = Inr aWork" "ListGVRs aWork = gvr # gvrs"
    and "SafeMap_Get (trackedAppliedManifests s) (om_Name om) = None" "spawned s = []"
  shows "\<exists>r t. settle E (Unstructured g om c) False s = Ret (r, t) \<and> objectsCount t = objectsCount s \<and>
    settle E (Unstructured g om c) False t = Ret ((False, None), t)"
proof -
  let ?s = "s\<lparr>trackedAppliedManifests := SafeMap_Set (om_Name om) (work_info aWork) (trackedAppliedManifests s), spawned := []\<rparr>"
  have "startInformers E (ListGVRs aWork) (GetTrackedObjectsUID aWork) ?s = Ret (update_restMapper E ?s)"
    using assms(2,4) stable_update [OF assms(1), of ?s] by (simp add: startInformers_def)
  then have "settle E (Unstructured g om c) False s = Ret ((False, None), update_restMapper E ?s)"
    using assms(3-6) by (simp add: settle_def handleAppliedManifestWork_def work_info_def Let_def)
  moreover have "settle E (Unstructured g om c) False (update_restMapper E ?s) = Ret ((False, None), update_restMapper E ?s)"
    using assms(3,4) by (simp add: settle_def handleAppliedManifestWork_def work_info_def Let_def)
  ultimately show ?thesis by fastforce
qed

definition ex_unknown :: runtime_object where
  "ex_unknown = Unstructured amw_gvk (new_meta '''' ''w'') (fmupd ''status''
     (JArray [JArray (map JString [''x.org'', ''v1'', ''xs'', ''ns'', ''x'', ''u-x'']),
              JArray (map JString [''apps'', ''v1'', ''deployments'', ''ns'', ''web'', ''u-web''])]) fmempty)"

theorem unknown_kind_aborts_witness:
  "\<exists>r t. settle cl_env ex_unknown False ex_started = Ret (r, t) \<and> objectsCount t = objectsCount ex_started"
proof -
  obtain aWork gvrs where a: "ToAppliedManifestWork cl_env ex_unknown = Inr aWork"
    "ListGVRs aWork = \<lparr>gvr_Group = ''x.org'', gvr_Version = ''v1'', gvr_Resource = ''xs''\<rparr> # gvrs"
    by (simp add: ToAppliedManifestWork_def cl_decode_def ex_unknown_def ListGVRs_eq cl_resource_def cl_string_def)
  have k: "KindFor cl_env () \<lparr>gvr_Group = ''x.org'', gvr_Version = ''v1'', gvr_Resource = ''xs''\<rparr> = Inl (Extern ''NoMatch'' ''no matches'')"
    by (simp add: cl_KindFor_def cl_kinds_def)
  obtain g om c where u: "ex_unknown = Unstructured g om c" by (simp add: ex_unknown_def)
  have "SafeMap_Get (trackedAppliedManifests ex_started) n = None" "spawned ex_started = []" for n
    by (simp_all add: ex_started_def new_agent_def)
  then show ?thesis
    using unknown_kind_aborts [OF ex_stable k a(1) [unfolded u] a(2), of ex_started] by (auto simp: u)
qed

text \<open>
  Property C37: a work deleted before its goroutine ran leaves its objects recorded: when the
  goroutine runs after the deletion, the UIDs of the objects stay recorded, and so an informer
  is started, although no work is tracked under the name.
\<close>

theorem deleted_before_started:
  assumes "stable E m" "settled E m s" "admissible E m obj s" "ToAppliedManifestWork E obj = Inr aWork" "ListGVRs aWork \<noteq> []"
    and "SafeMap_Get (trackedAppliedManifests s) (om_Name (obj_meta obj)) = None"
    and "handleAppliedManifestWork E obj False s = Ret (r1, s1)"
    and "om_Name (obj_meta obj') = om_Name (obj_meta obj)" "handleAppliedManifestWork E obj' True s1 = Ret ((False, None), s2)"
    and "ToAppliedManifestWork E obj' = Inr aWork'"
    and "spawned s2 = [(gvrs, uids)]" "startInformers E gvrs uids (s2\<lparr>spawned := []\<rparr>) = Ret t"
  shows "SafeMap_Get (trackedAppliedManifests t) (om_Name (obj_meta obj)) = None \<and>
    uids_for E m (info_pairs (work_info aWork)) k \<subseteq> uids_of (objectsCount t) k"
proof -
  let ?n = "om_Name (obj_meta obj)"
  obtain rq err where r1: "r1 = (rq, err)" by (cases r1)
  have s1: "s1 = s\<lparr>trackedAppliedManifests := SafeMap_Set ?n (work_info aWork) (trackedAppliedManifests s),
      spawned := [(ListGVRs aWork, GetTrackedObjectsUID aWork)]\<rparr>"
    using assms(7) [unfolded r1] by (cases rule: handleAMW_cases) (use assms(2,4-6) in \<open>auto simp: settled_def work_info_def\<close>)
  have i: "info_ok E m (work_info aWork)" using assms(3,4) by (simp add: admissible_def)
  have inv: "agent_inv s1" using assms(2) by (simp add: s1 settled_def sys_inv_def)
  have s2: "SafeMap_Get (trackedAppliedManifests s2) ?n = None \<and> spawned s2 = spawned s1 \<and> agent_inv s2"
    using assms(9)
  proof (cases rule: handleAMW_cases)
    case (deleted aw info u)
    then show ?thesis
      using stopInformers_frame [OF inv deleted(4)] stopInformers_inv [OF inv deleted(4)] assms(8) by simp
  qed (use assms(8,10) s1 in simp_all)
  then have g: "gvrs = ListGVRs aWork" "uids = GetTrackedObjectsUID aWork" using assms(11) s1 by simp_all
  have m: "restMapper (update_restMapper E (s2\<lparr>spawned := []\<rparr>)) = Some m" by (rule stable_update [OF assms(1)])
  have "uids_of (objectsCount t) k = uids_of (objectsCount s2) k \<union> uids_for E m (zip uids gvrs) k"
    using startInformers_loop_uids [OF m, where E = E and gvrs = gvrs and i = 0 and uids = uids and t = t and k = k] assms(12) i
    by (simp add: startInformers_def info_ok_def work_info_def g wf_info_def)
  then show ?thesis
    using s2 startInformers_frame [OF assms(12)] by (simp add: g info_pairs_def work_info_def)
qed

lemma ex_deleted_early:
  obtains s1 s2 where "handleAppliedManifestWork cl_env ex_amw_object False ex_started = Ret ((False, None), s1)"
    "handleAppliedManifestWork cl_env ex_amw_object True s1 = Ret ((False, None), s2)"
    "spawned s2 = [(ListGVRs ex_aWork, GetTrackedObjectsUID ex_aWork)]"
proof -
  let ?g = "\<lparr>gvr_Group = ''apps'', gvr_Version = ''v1'', gvr_Resource = ''deployments''\<rparr>"
  obtain g m c where u: "ex_amw_object = Unstructured g m c" by (simp add: ex_amw_object_def)
  have gvrs: "ListGVRs ex_aWork = [?g]" by (simp add: ListGVRs_eq ex_aWork_def)
  have a: "ToAppliedManifestWork cl_env ex_amw_object = Inr ex_aWork" by (simp add: ToAppliedManifestWork_def ex_decode)
  have e: "SafeMap_Get (trackedAppliedManifests ex_started) n = None" "spawned ex_started = []"
    "SafeMap_Get (informers ex_started) (gvk_key ex_gvk) = None" "restMapper ex_started = Some ()" for n
    by (simp_all add: ex_started_def new_agent_def open_stopper_def startAppliedManifestWorkInformer_def Let_def gvk_key_def ex_gvk_def
        KeyForGroupVersionKind_def workv1_Group_def)
  have kind: "cl_KindFor () ?g = Inr ex_gvk" by (simp add: cl_KindFor_def cl_kinds_def ex_gvk_def)
  let ?s1 = "ex_started\<lparr>trackedAppliedManifests := SafeMap_Set (om_Name (obj_meta ex_amw_object)) (work_info ex_aWork)
      (trackedAppliedManifests ex_started), spawned := [(ListGVRs ex_aWork, GetTrackedObjectsUID ex_aWork)]\<rparr>"
  have 1: "handleAppliedManifestWork cl_env ex_amw_object False ex_started = Ret ((False, None), ?s1)"
    using a e(1,2) gvrs by (simp add: handleAppliedManifestWork_def u work_info_def Let_def)
  have "stopInformers cl_env (work_info ex_aWork) ?s1 = Ret (update_restMapper cl_env ?s1)"
    using e(3,4) gvrs kind by (simp add: stopInformers_def work_info_def)
  then have "handleAppliedManifestWork cl_env ex_amw_object True ?s1 = Ret ((False, None), (update_restMapper cl_env ?s1)
      \<lparr>trackedAppliedManifests := SafeMap_Delete (om_Name (obj_meta ex_amw_object)) (trackedAppliedManifests ?s1)\<rparr>)"
    using a by (simp add: handleAppliedManifestWork_def u Let_def)
  from that [OF 1 this] show thesis by simp
qed

theorem deleted_before_started_witness:
  "\<exists>s1 s2 t. handleAppliedManifestWork cl_env ex_amw_object False ex_started = Ret ((False, None), s1) \<and>
     handleAppliedManifestWork cl_env ex_amw_object True s1 = Ret ((False, None), s2) \<and>
     startInformers cl_env (ListGVRs ex_aWork) (GetTrackedObjectsUID ex_aWork) (s2\<lparr>spawned := []\<rparr>) = Ret t \<and>
     SafeMap_Get (trackedAppliedManifests t) (om_Name (obj_meta ex_amw_object)) = None \<and>
     ''u-web'' \<in> uids_of (objectsCount t) (gvk_key ex_gvk)"
proof -
  have a: "ToAppliedManifestWork cl_env ex_amw_object = Inr ex_aWork" by (simp add: ToAppliedManifestWork_def ex_decode)
  have ne: "ListGVRs ex_aWork \<noteq> []" by (simp add: ListGVRs_eq ex_aWork_def)
  have none: "SafeMap_Get (trackedAppliedManifests ex_started) n = None" for n by (simp add: ex_started_def new_agent_def)
  obtain s1 s2 where s: "handleAppliedManifestWork cl_env ex_amw_object False ex_started = Ret ((False, None), s1)"
    "handleAppliedManifestWork cl_env ex_amw_object True s1 = Ret ((False, None), s2)"
    "spawned s2 = [(ListGVRs ex_aWork, GetTrackedObjectsUID ex_aWork)]" by (rule ex_deleted_early)
  obtain t where t: "startInformers cl_env (ListGVRs ex_aWork) (GetTrackedObjectsUID ex_aWork) (s2\<lparr>spawned := []\<rparr>) = Ret t"
    using startInformers_returns [OF cl_discovery_ok, of "ListGVRs ex_aWork" "GetTrackedObjectsUID ex_aWork"]
    by (auto simp: ListGVRs_eq GetTrackedObjectsUID_eq)
  have "''u-web'' \<in> uids_for cl_env () (info_pairs (work_info ex_aWork)) (gvk_key ex_gvk)"
    by (simp add: uids_for_def info_pairs_def work_info_def ListGVRs_eq GetTrackedObjectsUID_eq ex_aWork_def tracked_kind_def
        cl_KindFor_def cl_kinds_def doc_lib_def excludedGVKs_def ex_gvk_def)
  then show ?thesis
    using deleted_before_started [OF ex_stable ex_started_settled ex_admissible a ne none s(1) refl s(2) a s(3) t] s t by blast
qed

end
