(* ===== verification/Tasks.thy ===== *)
theory Tasks
  imports Tracking
begin

text \<open>
  The loops of pkg/agent/informers.go as threads. A worker runs \<open>stopInformers\<close>, a goroutine runs
  \<open>startInformers\<close>, and several of both run at the same time: they share the agent's maps, whose
  methods are atomic under their mutexes, and the field \<open>restMapper\<close>. A task is a position in one of
  the two functions with its local variables; a step of a task is one access to the shared state,
  with the local computation that follows it up to the next access. The theory shows that a task that
  runs alone computes what \<open>startInformers\<close> and \<open>stopInformers\<close> compute, and that every interleaving
  ends.
\<close>

section \<open>Definitions\<close>

text \<open>What is left of a loop: the next index, the resources from there on, and all UIDs.\<close>

type_synonym todo = "nat \<times> GroupVersionResource list \<times> string list"

datatype 'm task =
    Start_Discover "GroupVersionResource list" "string list"
  | Start_Assign "'m option" "GroupVersionResource list" "string list"
  | Start_Head todo
  | Start_Add GroupVersionResource GroupVersionKind string todo
  | Start_Count GroupVersionResource GroupVersionKind todo
  | Start_Informer GroupVersionResource GroupVersionKind nat todo
  | Start_Lister GroupVersionResource GroupVersionKind informer nat todo
  | Start_Stopper GroupVersionKind informer nat todo
  | Start_Run GroupVersionKind informer nat todo
  | Stop_Head todo
  | Stop_Lookup GroupVersionKind todo
  | Stop_Delete GroupVersionKind string todo
  | Stop_Count GroupVersionKind todo
  | Stop_Get GroupVersionKind todo
  | Stop_Close GroupVersionKind nat todo
  | Stop_Informer GroupVersionKind todo
  | Stop_Lister GroupVersionKind todo
  | Stop_Stopper GroupVersionKind todo
  | Stop_Discover
  | Stop_Assign "'m option"
  | Task_Done

text \<open>Discovery, and the value that is then assigned to \<open>a.restMapper\<close>.\<close>

definition discovered :: "go_error + 'm \<Rightarrow> 'm option" where
  "discovered r = (case r of Inl err \<Rightarrow> None | Inr m \<Rightarrow> Some m)"

definition start_head :: "('w, 'm, 'g) env \<Rightarrow> todo \<Rightarrow> ('m, 'w) sys \<Rightarrow> 'm task outcome" where
  "start_head E td s =
     (case td of (i, gvrs, uids) \<Rightarrow>
        (case gvrs of
           [] \<Rightarrow> Ret Task_Done
         | gvr # gvrs \<Rightarrow>
             (case restMapper s of
                None \<Rightarrow> Panic ''nil pointer dereference''
              | Some m \<Rightarrow>
                  (case KindFor E m gvr of
                     Inl err \<Rightarrow> Ret Task_Done
                   | Inr gvk \<Rightarrow>
                       if GroupVersionKind_String E gvk \<in> set excludedGVKs then Ret (Start_Head (Suc i, gvrs, uids))
                       else if i < length uids then Ret (Start_Add gvr gvk (uids ! i) (Suc i, gvrs, uids))
                       else Panic ''index out of range''))))"

definition stop_head :: "('w, 'm, 'g) env \<Rightarrow> todo \<Rightarrow> ('m, 'w) sys \<Rightarrow> 'm task outcome" where
  "stop_head E td s =
     (case td of (i, gvrs, uids) \<Rightarrow>
        (case gvrs of
           [] \<Rightarrow> Ret Stop_Discover
         | gvr # gvrs \<Rightarrow>
             (case restMapper s of
                None \<Rightarrow> Panic ''nil pointer dereference''
              | Some m \<Rightarrow>
                  (case KindFor E m gvr of
                     Inl err \<Rightarrow> Ret Task_Done
                   | Inr gvk \<Rightarrow> Ret (Stop_Lookup gvk (i, gvrs, uids))))))"

fun task_step :: "('w, 'm, 'g) env \<Rightarrow> 'm task \<Rightarrow> ('m, 'w) sys \<Rightarrow> ('m task \<times> ('m, 'w) sys) outcome" where
  "task_step E (Start_Discover gvrs uids) s =
     (case getRestMapper E (world s) of (r, w) \<Rightarrow> Ret (Start_Assign (discovered r) gvrs uids, s\<lparr>world := w\<rparr>))"
| "task_step E (Start_Assign mo gvrs uids) s = Ret (Start_Head (0, gvrs, uids), s\<lparr>restMapper := mo\<rparr>)"
| "task_step E (Start_Head td) s = bindO (start_head E td s) (\<lambda>t. Ret (t, s))"
| "task_step E (Start_Add gvr gvk uid td) s =
     Ret (Start_Count gvr gvk td, s\<lparr>objectsCount := AddUID (gvk_key gvk) uid (objectsCount s)\<rparr>)"
| "task_step E (Start_Count gvr gvk td) s =
     (if GetUIDCount (objectsCount s) (gvk_key gvk) = 1
      then Ret (Start_Informer gvr gvk (next_chan s) td, s\<lparr>next_chan := Suc (next_chan s)\<rparr>)
      else Ret (Start_Head td, s))"
| "task_step E (Start_Informer gvr gvk c td) s =
     (let im = Informer (next_factory s) gvr
      in Ret (Start_Lister gvr gvk im c td,
              s\<lparr>next_factory := Suc (next_factory s), informers := SafeMap_Set (gvk_key gvk) im (informers s),
                handlers := handlers s @ [im]\<rparr>))"
| "task_step E (Start_Lister gvr gvk im c td) s =
     Ret (Start_Stopper gvk im c td,
          s\<lparr>listers := SafeMap_Set (gvk_key gvk)
              \<lparr>lst_informer = im, lst_Group = gvr_Group gvr, lst_Resource = gvr_Resource gvr\<rparr> (listers s)\<rparr>)"
| "task_step E (Start_Stopper gvk im c td) s =
     Ret (Start_Run gvk im c td, s\<lparr>stoppers := SafeMap_Set (gvk_key gvk) c (stoppers s)\<rparr>)"
| "task_step E (Start_Run gvk im c td) s = Ret (Start_Head td, s\<lparr>running := running s @ [(gvk_key gvk, im, c)]\<rparr>)"
| "task_step E (Stop_Head td) s = bindO (stop_head E td s) (\<lambda>t. Ret (t, s))"
| "task_step E (Stop_Lookup gvk (i, gvrs, uids)) s =
     (case SafeMap_Get (informers s) (gvk_key gvk) of
        None \<Rightarrow> Ret (Stop_Head (Suc i, gvrs, uids), s)
      | Some im \<Rightarrow> if i < length uids then Ret (Stop_Delete gvk (uids ! i) (Suc i, gvrs, uids), s)
                    else Panic ''index out of range'')"
| "task_step E (Stop_Delete gvk uid td) s =
     Ret (Stop_Count gvk td, s\<lparr>objectsCount := DeleteUID (gvk_key gvk) uid (objectsCount s)\<rparr>)"
| "task_step E (Stop_Count gvk td) s =
     Ret (if GetUIDCount (objectsCount s) (gvk_key gvk) = 0 then Stop_Get gvk td else Stop_Head td, s)"
| "task_step E (Stop_Get gvk td) s =
     (case SafeMap_Get (stoppers s) (gvk_key gvk) of
        None \<Rightarrow> Panic ''interface conversion: interface is nil''
      | Some c \<Rightarrow> Ret (Stop_Close gvk c td, s))"
| "task_step E (Stop_Close gvk c td) s =
     (if c \<in> set (closed_chans s) then Panic ''close of closed channel''
      else Ret (Stop_Informer gvk td, s\<lparr>closed_chans := c # closed_chans s\<rparr>))"
| "task_step E (Stop_Informer gvk td) s =
     Ret (Stop_Lister gvk td, s\<lparr>informers := SafeMap_Delete (gvk_key gvk) (informers s)\<rparr>)"
| "task_step E (Stop_Lister gvk td) s =
     Ret (Stop_Stopper gvk td, s\<lparr>listers := SafeMap_Delete (gvk_key gvk) (listers s)\<rparr>)"
| "task_step E (Stop_Stopper gvk td) s =
     Ret (Stop_Head td, s\<lparr>stoppers := SafeMap_Delete (gvk_key gvk) (stoppers s)\<rparr>)"
| "task_step E Stop_Discover s =
     (case getRestMapper E (world s) of (r, w) \<Rightarrow> Ret (Stop_Assign (discovered r), s\<lparr>world := w\<rparr>))"
| "task_step E (Stop_Assign mo) s = Ret (Task_Done, s\<lparr>restMapper := mo\<rparr>)"
| "task_step E Task_Done s = Ret (Task_Done, s)"

text \<open>The call \<^verbatim>\<open>go a.startInformers(gvrs, uids)\<close> and the call \<^verbatim>\<open>a.stopInformers(info)\<close> at their entry.\<close>

definition start_task :: "GroupVersionResource list \<Rightarrow> string list \<Rightarrow> 'm task" where
  "start_task gvrs uids = Start_Discover gvrs uids"

definition stop_task :: "AppliedManifestInfo \<Rightarrow> 'm task" where
  "stop_task info = Stop_Head (0, GVRs info, ObjectUIDs info)"

text \<open>The tasks at their entry: goroutines that start informers, and workers that stop some.\<close>

definition conc_tasks :: "(GroupVersionResource list \<times> string list) list \<Rightarrow> AppliedManifestInfo list \<Rightarrow> 'm task list" where
  "conc_tasks starts stops = map (\<lambda>(gvrs, uids). start_task gvrs uids) starts @ map stop_task stops"

text \<open>One of the tasks that are not done makes a step.\<close>

inductive conc_step :: "('w, 'm, 'g) env \<Rightarrow> 'm task list \<times> ('m, 'w) sys \<Rightarrow> 'm task list \<times> ('m, 'w) sys \<Rightarrow> bool" for E where
  step: "i < length ts \<Longrightarrow> ts ! i \<noteq> Task_Done \<Longrightarrow> task_step E (ts ! i) s = Ret (t, s') \<Longrightarrow>
    conc_step E (ts, s) (ts[i := t], s')"

inductive_cases conc_stepE: "conc_step E (ts, s) (ts', s')"

definition conc_panics :: "('w, 'm, 'g) env \<Rightarrow> 'm task list \<times> ('m, 'w) sys \<Rightarrow> bool" where
  "conc_panics E c \<longleftrightarrow> (\<exists>t \<in> set (fst c). \<not> returns (task_step E t (snd c)))"

definition conc_done :: "'m task list \<times> ('m, 'w) sys \<Rightarrow> bool" where
  "conc_done c \<longleftrightarrow> (\<forall>t \<in> set (fst c). t = Task_Done)"

section \<open>Every task ends\<close>

text \<open>An upper bound of the steps a task has left: seven per object to start, nine per object to stop.\<close>

fun task_left :: "'m task \<Rightarrow> nat" where
  "task_left (Start_Discover gvrs uids) = 7 * length gvrs + 3"
| "task_left (Start_Assign mo gvrs uids) = 7 * length gvrs + 2"
| "task_left (Start_Head (i, gvrs, uids)) = 7 * length gvrs + 1"
| "task_left (Start_Add gvr gvk uid (i, gvrs, uids)) = 7 * length gvrs + 7"
| "task_left (Start_Count gvr gvk (i, gvrs, uids)) = 7 * length gvrs + 6"
| "task_left (Start_Informer gvr gvk c (i, gvrs, uids)) = 7 * length gvrs + 5"
| "task_left (Start_Lister gvr gvk im c (i, gvrs, uids)) = 7 * length gvrs + 4"
| "task_left (Start_Stopper gvk im c (i, gvrs, uids)) = 7 * length gvrs + 3"
| "task_left (Start_Run gvk im c (i, gvrs, uids)) = 7 * length gvrs + 2"
| "task_left (Stop_Head (i, gvrs, uids)) = 9 * length gvrs + 3"
| "task_left (Stop_Lookup gvk (i, gvrs, uids)) = 9 * length gvrs + 11"
| "task_left (Stop_Delete gvk uid (i, gvrs, uids)) = 9 * length gvrs + 10"
| "task_left (Stop_Count gvk (i, gvrs, uids)) = 9 * length gvrs + 9"
| "task_left (Stop_Get gvk (i, gvrs, uids)) = 9 * length gvrs + 8"
| "task_left (Stop_Close gvk c (i, gvrs, uids)) = 9 * length gvrs + 7"
| "task_left (Stop_Informer gvk (i, gvrs, uids)) = 9 * length gvrs + 6"
| "task_left (Stop_Lister gvk (i, gvrs, uids)) = 9 * length gvrs + 5"
| "task_left (Stop_Stopper gvk (i, gvrs, uids)) = 9 * length gvrs + 4"
| "task_left Stop_Discover = 2"
| "task_left (Stop_Assign mo) = 1"
| "task_left Task_Done = 0"

lemma task_left_step: "task_step E t s = Ret (t', s') \<Longrightarrow> t \<noteq> Task_Done \<Longrightarrow> task_left t' < task_left t"
  by (cases t rule: task_left.cases)
    (auto simp: bindO_eq_Ret start_head_def stop_head_def Let_def
      split: prod.splits list.splits option.splits sum.splits if_splits)

lemma task_left_zero [simp]: "task_left t = 0 \<longleftrightarrow> t = Task_Done"
  by (cases t rule: task_left.cases) simp_all

definition conc_left :: "'m task list \<Rightarrow> nat" where
  "conc_left ts = sum_list (map task_left ts)"

lemma conc_left_step: "conc_step E (ts, s) (ts', s') \<Longrightarrow> conc_left ts' < conc_left ts"
proof (erule conc_stepE)
  fix i t assume i: "i < length ts" "ts ! i \<noteq> Task_Done" "task_step E (ts ! i) s = Ret (t, s')" "ts' = ts[i := t]"
  have "task_left t < task_left (ts ! i)" by (rule task_left_step [OF i(3,2)])
  moreover have "task_left (ts ! i) \<le> conc_left ts"
    using i(1) by (simp add: conc_left_def member_le_sum_list)
  ultimately show "conc_left ts' < conc_left ts"
    using i(1,4) by (simp add: conc_left_def map_update sum_list_update)
qed

lemma conc_run_bounded: "(conc_step E ^^ n) (ts, s) (ts', s') \<Longrightarrow> n + conc_left ts' \<le> conc_left ts"
proof (induction n arbitrary: ts' s')
  case (Suc n)
  then obtain us u where us: "(conc_step E ^^ n) (ts, s) (us, u)" "conc_step E (us, u) (ts', s')"
    by (metis relpowp_Suc_E surj_pair)
  from Suc.IH [OF us(1)] conc_left_step [OF us(2)] show ?case by simp
qed simp

lemma conc_progress:
  assumes "\<not> conc_done (ts, s)" "\<not> conc_panics E (ts, s)"
  shows "\<exists>c. conc_step E (ts, s) c"
proof -
  from assms(1) obtain i where i: "i < length ts" "ts ! i \<noteq> Task_Done"
    by (auto simp: conc_done_def in_set_conv_nth)
  with assms(2) have "returns (task_step E (ts ! i) s)" by (auto simp: conc_panics_def)
  then obtain t s' where "task_step E (ts ! i) s = Ret (t, s')" by (auto simp: returns_iff)
  with i show ?thesis by (blast intro: conc_step.step)
qed

lemma conc_completes:
  "\<exists>ts' s'. (conc_step E)\<^sup>*\<^sup>* (ts, s) (ts', s') \<and> (conc_done (ts', s') \<or> conc_panics E (ts', s'))"
proof (induction "conc_left ts" arbitrary: ts s rule: less_induct)
  case less
  show ?case
  proof (cases "conc_done (ts, s) \<or> conc_panics E (ts, s)")
    case False
    then obtain us u where us: "conc_step E (ts, s) (us, u)" using conc_progress by (metis surj_pair)
    from less [OF conc_left_step [OF us]] us show ?thesis by (meson converse_rtranclp_into_rtranclp)
  qed blast
qed

section \<open>A task that runs alone\<close>

lemma bindO_cong [fundef_cong]: "m = m' \<Longrightarrow> (\<And>x. m' = Ret x \<Longrightarrow> f x = g x) \<Longrightarrow> bindO m f = bindO m' g"
  by (cases m') auto

function run_task :: "('w, 'm, 'g) env \<Rightarrow> 'm task \<Rightarrow> ('m, 'w) sys \<Rightarrow> ('m, 'w) sys outcome" where
  "run_task E t s = (if t = Task_Done then Ret s else bindO (task_step E t s) (\<lambda>(t', s'). run_task E t' s'))"
  by pat_completeness auto
termination
  by (relation "measure (\<lambda>(E, t, s). task_left t)") (auto dest: task_left_step)

declare run_task.simps [simp del]

lemma run_task_Done [simp]: "run_task E Task_Done s = Ret s"
  by (simp add: run_task.simps)

lemma run_task_step:
  "t \<noteq> Task_Done \<Longrightarrow> run_task E t s = bindO (task_step E t s) (\<lambda>(t', s'). run_task E t' s')"
  by (subst run_task.simps) simp

text \<open>The steps inside one round of a loop, without the heads of the loops.\<close>

lemmas run_start_steps =
  run_task_step [of "Start_Discover gvrs uids" for gvrs uids] run_task_step [of "Start_Assign mo gvrs uids" for mo gvrs uids]
  run_task_step [of "Start_Add gvr gvk uid td" for gvr gvk uid td] run_task_step [of "Start_Count gvr gvk td" for gvr gvk td]
  run_task_step [of "Start_Informer gvr gvk c td" for gvr gvk c td]
  run_task_step [of "Start_Lister gvr gvk im c td" for gvr gvk im c td]
  run_task_step [of "Start_Stopper gvk im c td" for gvk im c td] run_task_step [of "Start_Run gvk im c td" for gvk im c td]

lemmas run_stop_steps =
  run_task_step [of "Stop_Delete gvk uid td" for gvk uid td] run_task_step [of "Stop_Count gvk td" for gvk td]
  run_task_step [of "Stop_Get gvk td" for gvk td] run_task_step [of "Stop_Close gvk c td" for gvk c td]
  run_task_step [of "Stop_Informer gvk td" for gvk td] run_task_step [of "Stop_Lister gvk td" for gvk td]
  run_task_step [of "Stop_Stopper gvk td" for gvk td] run_task_step [of Stop_Discover]
  run_task_step [of "Stop_Assign mo" for mo]

lemma run_Start_Add:
  "run_task E (Start_Add gvr gvk uid td) s = run_task E (Start_Head td) (track_object gvr gvk uid s)"
proof -
  let ?s = "s\<lparr>objectsCount := AddUID (gvk_key gvk) uid (objectsCount s)\<rparr>"
  have start: "run_task E (Start_Informer gvr gvk c td) u = run_task E (Start_Head td) (startInformer gvr gvk c True u)" for c u
    by (simp add: run_start_steps startInformer_def Let_def)
  have "run_task E (Start_Add gvr gvk uid td) s = run_task E (Start_Count gvr gvk td) ?s" by (simp add: run_start_steps)
  also have "\<dots> = (if GetUIDCount (objectsCount ?s) (gvk_key gvk) = 1
      then run_task E (Start_Informer gvr gvk (next_chan ?s) td) (?s\<lparr>next_chan := Suc (next_chan ?s)\<rparr>)
      else run_task E (Start_Head td) ?s)"
    by (subst run_task_step) simp_all
  finally show ?thesis by (simp add: track_object_def Let_def start)
qed

lemma run_Start_Head:
  "run_task E (Start_Head (i, gvrs, uids)) s = startInformers_loop E i gvrs uids s"
proof (induction gvrs arbitrary: i s)
  case Nil
  then show ?case by (simp add: run_task_step start_head_def)
next
  case (Cons gvr gvrs)
  have "run_task E (Start_Head (i, gvr # gvrs, uids)) s =
    bindO (start_head E (i, gvr # gvrs, uids) s) (\<lambda>t. run_task E t s)"
    by (simp add: run_task_step bindO_assoc)
  then show ?case
    by (auto simp: start_head_def Cons.IH run_Start_Add split: option.split sum.split)
qed

lemma run_Stop_Delete:
  "run_task E (Stop_Delete gvk uid td) s = bindO (untrack_object (gvk_key gvk) uid s) (run_task E (Stop_Head td))"
proof -
  let ?s = "s\<lparr>objectsCount := DeleteUID (gvk_key gvk) uid (objectsCount s)\<rparr>"
  have get: "run_task E (Stop_Get gvk td) u = bindO (stopInformer (gvk_key gvk) u) (run_task E (Stop_Head td))" for u
    by (cases "SafeMap_Get (stoppers u) (gvk_key gvk)") (simp_all add: run_stop_steps stopInformer_def)
  have "run_task E (Stop_Delete gvk uid td) s = run_task E (Stop_Count gvk td) ?s" by (simp add: run_stop_steps)
  also have "\<dots> = (if GetUIDCount (objectsCount ?s) (gvk_key gvk) = 0 then run_task E (Stop_Get gvk td) ?s
      else run_task E (Stop_Head td) ?s)"
    by (subst run_task_step) auto
  finally show ?thesis by (simp add: untrack_object_def Let_def get)
qed

lemma run_Stop_end: "run_task E Stop_Discover s = Ret (update_restMapper E s)"
  by (cases "getRestMapper E (world s)")
    (simp add: run_stop_steps update_restMapper_def discovered_def split: sum.split)

lemma run_Stop_Head:
  "run_task E (Stop_Head (i, gvrs, uids)) s =
     bindO (stopInformers_loop E i gvrs uids s) (\<lambda>(finished, s). Ret (if finished then update_restMapper E s else s))"
proof (induction gvrs arbitrary: i s)
  case Nil
  then show ?case by (simp add: run_task_step stop_head_def run_Stop_end)
next
  case (Cons gvr gvrs)
  have head: "run_task E (Stop_Head (i, gvr # gvrs, uids)) s =
    bindO (stop_head E (i, gvr # gvrs, uids) s) (\<lambda>t. run_task E t s)"
    by (subst run_task_step) (simp_all add: bindO_assoc)
  have lookup: "run_task E (Stop_Lookup gvk (i, gvrs, uids)) s =
      (case SafeMap_Get (informers s) (gvk_key gvk) of
         None \<Rightarrow> run_task E (Stop_Head (Suc i, gvrs, uids)) s
       | Some im \<Rightarrow> if i < length uids then run_task E (Stop_Delete gvk (uids ! i) (Suc i, gvrs, uids)) s
                     else Panic ''index out of range'')" for gvk
    by (subst run_task_step) (simp_all split: option.split)
  have IH: "run_task E (Stop_Head (Suc i, gvrs, uids)) = (\<lambda>s. bindO (stopInformers_loop E (Suc i) gvrs uids s)
      (\<lambda>(finished, s). Ret (if finished then update_restMapper E s else s)))"
    by (rule ext) (rule Cons.IH)
  show ?case
    unfolding head
    by (auto simp: stop_head_def lookup IH run_Stop_Delete bindO_assoc Let_def split: option.split sum.split)
qed

lemma run_start_task: "run_task E (start_task gvrs uids) s = startInformers E gvrs uids s"
proof (cases "getRestMapper E (world s)")
  case (Pair r w)
  have order: "startInformers_loop E 0 gvrs uids (s\<lparr>world := w, restMapper := x\<rparr>) =
      startInformers_loop E 0 gvrs uids (s\<lparr>restMapper := x, world := w\<rparr>)" for x
    by (rule arg_cong [where f = "startInformers_loop E 0 gvrs uids"]) simp
  from Pair show ?thesis
    by (cases r) (simp_all add: start_task_def startInformers_def run_start_steps run_Start_Head
        update_restMapper_def discovered_def order)
qed

lemma run_stop_task: "run_task E (stop_task info) s = stopInformers E info s"
  by (simp add: stop_task_def stopInformers_def run_Stop_Head)

lemma conc_single: "conc_step E ([t], s) ([t'], s') \<longleftrightarrow> t \<noteq> Task_Done \<and> task_step E t s = Ret (t', s')"
  by (auto elim!: conc_stepE intro: conc_step.step [of 0 "[t]" E s t' s', simplified] simp: less_Suc_eq)

lemma conc_single_length: "(conc_step E)\<^sup>*\<^sup>* ([t], s) (ts, u) \<Longrightarrow> \<exists>t'. ts = [t']"
proof (induction rule: rtranclp_induct2)
  case (step us v ts u)
  then obtain t' where "us = [t']" by blast
  with step(2) show ?case by (auto elim!: conc_stepE simp: less_Suc_eq)
qed blast

lemma conc_single_run:
  "(conc_step E)\<^sup>*\<^sup>* ([t], s) ([Task_Done], u) \<longleftrightarrow> run_task E t s = Ret u"
proof
  assume "(conc_step E)\<^sup>*\<^sup>* ([t], s) ([Task_Done], u)"
  moreover have "run_task E t' s' = run_task E t s" if "(conc_step E)\<^sup>*\<^sup>* ([t], s) (ts, s')" "ts = [t']" for ts t' s'
    using that
  proof (induction arbitrary: t' rule: rtranclp_induct2)
    case (step us v ts' v')
    obtain r where r: "us = [r]" using conc_single_length [OF step(1)] by blast
    have "r \<noteq> Task_Done" "task_step E r v = Ret (t', v')" using step(2,4) by (simp_all add: r conc_single)
    then have "run_task E r v = run_task E t' v'" by (simp add: run_task_step)
    with step(3) [OF r] show ?case by simp
  qed simp
  ultimately show "run_task E t s = Ret u" by fastforce
next
  assume "run_task E t s = Ret u"
  then show "(conc_step E)\<^sup>*\<^sup>* ([t], s) ([Task_Done], u)"
  proof (induction E t s rule: run_task.induct)
    case (1 E t s)
    show ?case
    proof (cases "t = Task_Done")
      case True then show ?thesis using 1(2) by simp
    next
      case False
      then obtain t' s' where st: "task_step E t s = Ret (t', s')" "run_task E t' s' = Ret u"
        using 1(2) by (auto simp: run_task_step bindO_eq_Ret)
      from 1(1) [OF False st(1) refl st(2)] False st(1) show ?thesis
        by (meson conc_single converse_rtranclp_into_rtranclp)
    qed
  qed
qed

section \<open>Properties\<close>

text \<open>
  The two models of the same lines agree: a task that no other task disturbs does exactly what the atomic operations of the
  other theories do. The goroutine of \<open>startInformers\<close>, and the call of \<open>stopInformers\<close>, reach their end in
  the state that these return, and they can reach their end in no other.
\<close>

lemma tasks_alone:
  "((conc_step E)\<^sup>*\<^sup>* ([start_task gvrs uids], s) ([Task_Done], t) \<longleftrightarrow> startInformers E gvrs uids s = Ret t) \<and>
   ((conc_step E)\<^sup>*\<^sup>* ([stop_task info], s) ([Task_Done], t) \<longleftrightarrow> stopInformers E info s = Ret t)"
  by (simp add: conc_single_run run_start_task run_stop_task)

text \<open>
  No schedule of the tasks runs forever. A run has at most seven steps per object to
  start and nine per object to stop, and three per task; it can always go on until every task
  is done or one of them panics.
\<close>

lemma interleavings_end:
  fixes E :: "('w, 'm, 'g) env"
  shows "(\<forall>n c. (conc_step E ^^ n) (conc_tasks starts stops, s) c \<longrightarrow>
      n \<le> (\<Sum>(gvrs, uids) \<leftarrow> starts. 7 * length gvrs + 3) + (\<Sum>info \<leftarrow> stops. 9 * length (GVRs info) + 3)) \<and>
   (\<forall>c. (conc_step E)\<^sup>*\<^sup>* (conc_tasks starts stops, s) c \<longrightarrow>
      (\<exists>d. (conc_step E)\<^sup>*\<^sup>* c d \<and> (conc_done d \<or> conc_panics E d)))"
proof -
  have left: "conc_left (conc_tasks starts stops :: 'm task list) =
      (\<Sum>(gvrs, uids) \<leftarrow> starts. 7 * length gvrs + 3) + (\<Sum>info \<leftarrow> stops. 9 * length (GVRs info) + 3)"
    by (simp add: conc_left_def conc_tasks_def start_task_def stop_task_def comp_def case_prod_unfold)
  have "n \<le> conc_left (conc_tasks starts stops :: 'm task list)" if "(conc_step E ^^ n) (conc_tasks starts stops, s) c" for n c
    using conc_run_bounded [of n E "conc_tasks starts stops" s "fst c" "snd c"] that by simp
  moreover have "\<exists>d. (conc_step E)\<^sup>*\<^sup>* c d \<and> (conc_done d \<or> conc_panics E d)" for c
    using conc_completes [of E "fst c" "snd c"] by (metis surjective_pairing)
  ultimately show ?thesis using left by auto
qed

end
