(* ===== verification/Interleaving.thy ===== *)
theory Interleaving
  imports Tasks
begin

text \<open>
  Tasks that run at the same time. Tasks whose objects have different kinds keep the agent's
  invariant in every interleaving; the proof gives each key of the registries to the one task that
  works on it, and each stopper to the key it was made for. Two tasks on one kind can interfere: the
  last two theorems show how two workers make the agent panic, and how two goroutines leave a kind
  without an informer.
\<close>

section \<open>Tasks on different kinds\<close>

text \<open>The kind a task is working on, the loop it has left, and the keys it may still touch.\<close>

fun task_kind :: "'m task \<Rightarrow> GroupVersionKind option" where
  "task_kind (Start_Add gvr gvk uid td) = Some gvk"
| "task_kind (Start_Count gvr gvk td) = Some gvk"
| "task_kind (Start_Informer gvr gvk c td) = Some gvk"
| "task_kind (Start_Lister gvr gvk im c td) = Some gvk"
| "task_kind (Start_Stopper gvk im c td) = Some gvk"
| "task_kind (Start_Run gvk im c td) = Some gvk"
| "task_kind (Stop_Lookup gvk td) = Some gvk"
| "task_kind (Stop_Delete gvk uid td) = Some gvk"
| "task_kind (Stop_Count gvk td) = Some gvk"
| "task_kind (Stop_Get gvk td) = Some gvk"
| "task_kind (Stop_Close gvk c td) = Some gvk"
| "task_kind (Stop_Informer gvk td) = Some gvk"
| "task_kind (Stop_Lister gvk td) = Some gvk"
| "task_kind (Stop_Stopper gvk td) = Some gvk"
| "task_kind _ = None"

fun task_todo :: "'m task \<Rightarrow> todo" where
  "task_todo (Start_Discover gvrs uids) = (0, gvrs, uids)"
| "task_todo (Start_Assign mo gvrs uids) = (0, gvrs, uids)"
| "task_todo (Start_Head td) = td"
| "task_todo (Start_Add gvr gvk uid td) = td"
| "task_todo (Start_Count gvr gvk td) = td"
| "task_todo (Start_Informer gvr gvk c td) = td"
| "task_todo (Start_Lister gvr gvk im c td) = td"
| "task_todo (Start_Stopper gvk im c td) = td"
| "task_todo (Start_Run gvk im c td) = td"
| "task_todo (Stop_Head td) = td"
| "task_todo (Stop_Lookup gvk (i, gvrs, uids)) = (Suc i, gvrs, uids)"
| "task_todo (Stop_Delete gvk uid td) = td"
| "task_todo (Stop_Count gvk td) = td"
| "task_todo (Stop_Get gvk td) = td"
| "task_todo (Stop_Close gvk c td) = td"
| "task_todo (Stop_Informer gvk td) = td"
| "task_todo (Stop_Lister gvk td) = td"
| "task_todo (Stop_Stopper gvk td) = td"
| "task_todo _ = (0, [], [])"

definition task_key :: "'m task \<Rightarrow> string option" where
  "task_key t = map_option gvk_key (task_kind t)"

definition kind_keys :: "('w, 'm, 'g) env \<Rightarrow> 'm \<Rightarrow> GroupVersionResource list \<Rightarrow> string set" where
  "kind_keys E m gvrs = {gvk_key gvk | g gvk. g \<in> set gvrs \<and> KindFor E m g = Inr gvk}"

definition task_keys :: "('w, 'm, 'g) env \<Rightarrow> 'm \<Rightarrow> 'm task \<Rightarrow> string set" where
  "task_keys E m t = set_option (task_key t) \<union> kind_keys E m (fst (snd (task_todo t)))"

text \<open>A task with enough UIDs, known resources, and a mapper to assign.\<close>

definition todo_wf :: "('w, 'm, 'g) env \<Rightarrow> 'm \<Rightarrow> todo \<Rightarrow> bool" where
  "todo_wf E m td \<longleftrightarrow> (case td of (i, gvrs, uids) \<Rightarrow> i + length gvrs \<le> length uids \<and> knows E m gvrs)"

fun task_assigns :: "'m \<Rightarrow> 'm task \<Rightarrow> bool" where
  "task_assigns m (Start_Assign mo gvrs uids) \<longleftrightarrow> mo = Some m"
| "task_assigns m (Stop_Assign mo) \<longleftrightarrow> mo = Some m"
| "task_assigns m _ \<longleftrightarrow> True"

definition task_wf :: "('w, 'm, 'g) env \<Rightarrow> 'm \<Rightarrow> 'm task \<Rightarrow> bool" where
  "task_wf E m t \<longleftrightarrow> todo_wf E m (task_todo t) \<and> task_assigns m t"

text \<open>
  The registries at a key: all three have an entry, which is a running informer with an open
  stopper, or none has. At a key no task works on, a recorded object has an informer.
\<close>

definition key_struct :: "('m, 'w) sys \<Rightarrow> string \<Rightarrow> bool" where
  "key_struct s k \<longleftrightarrow>
     (case (SafeMap_Get (informers s) k, SafeMap_Get (listers s) k, SafeMap_Get (stoppers s) k) of
        (Some im, Some l, Some c) \<Rightarrow> c \<notin> set (closed_chans s) \<and> (k, im, c) \<in> set (running s) \<and> lst_informer l = im
      | (None, None, None) \<Rightarrow> True
      | _ \<Rightarrow> False)"

definition key_idle :: "('m, 'w) sys \<Rightarrow> string \<Rightarrow> bool" where
  "key_idle s k \<longleftrightarrow> key_struct s k \<and> (uids_of (objectsCount s) k \<noteq> {} \<longrightarrow> SafeMap_Get (informers s) k \<noteq> None)"

text \<open>What holds at the key of a task, by its position.\<close>

fun phase_ok :: "'m task \<Rightarrow> ('m, 'w) sys \<Rightarrow> bool" where
  "phase_ok (Start_Add gvr gvk uid td) s \<longleftrightarrow> key_idle s (gvk_key gvk)"
| "phase_ok (Start_Count gvr gvk td) s \<longleftrightarrow> key_struct s (gvk_key gvk) \<and>
     (SafeMap_Get (informers s) (gvk_key gvk) = None \<longrightarrow> GetUIDCount (objectsCount s) (gvk_key gvk) = 1)"
| "phase_ok (Start_Informer gvr gvk c td) s \<longleftrightarrow> c \<notin> set (closed_chans s)"
| "phase_ok (Start_Lister gvr gvk im c td) s \<longleftrightarrow> c \<notin> set (closed_chans s) \<and> SafeMap_Get (informers s) (gvk_key gvk) = Some im"
| "phase_ok (Start_Stopper gvk im c td) s \<longleftrightarrow> c \<notin> set (closed_chans s) \<and> SafeMap_Get (informers s) (gvk_key gvk) = Some im \<and>
     map_option lst_informer (SafeMap_Get (listers s) (gvk_key gvk)) = Some im"
| "phase_ok (Start_Run gvk im c td) s \<longleftrightarrow> c \<notin> set (closed_chans s) \<and> SafeMap_Get (informers s) (gvk_key gvk) = Some im \<and>
     map_option lst_informer (SafeMap_Get (listers s) (gvk_key gvk)) = Some im \<and> SafeMap_Get (stoppers s) (gvk_key gvk) = Some c"
| "phase_ok (Stop_Lookup gvk td) s \<longleftrightarrow> key_idle s (gvk_key gvk)"
| "phase_ok (Stop_Delete gvk uid td) s \<longleftrightarrow> key_struct s (gvk_key gvk) \<and> SafeMap_Get (informers s) (gvk_key gvk) \<noteq> None"
| "phase_ok (Stop_Count gvk td) s \<longleftrightarrow> key_struct s (gvk_key gvk) \<and> SafeMap_Get (informers s) (gvk_key gvk) \<noteq> None"
| "phase_ok (Stop_Get gvk td) s \<longleftrightarrow> key_struct s (gvk_key gvk) \<and> SafeMap_Get (informers s) (gvk_key gvk) \<noteq> None \<and>
     uids_of (objectsCount s) (gvk_key gvk) = {}"
| "phase_ok (Stop_Close gvk c td) s \<longleftrightarrow> key_struct s (gvk_key gvk) \<and> SafeMap_Get (stoppers s) (gvk_key gvk) = Some c \<and>
     uids_of (objectsCount s) (gvk_key gvk) = {}"
| "phase_ok (Stop_Informer gvk td) s \<longleftrightarrow> uids_of (objectsCount s) (gvk_key gvk) = {}"
| "phase_ok (Stop_Lister gvk td) s \<longleftrightarrow> uids_of (objectsCount s) (gvk_key gvk) = {} \<and> SafeMap_Get (informers s) (gvk_key gvk) = None"
| "phase_ok (Stop_Stopper gvk td) s \<longleftrightarrow> uids_of (objectsCount s) (gvk_key gvk) = {} \<and> SafeMap_Get (informers s) (gvk_key gvk) = None \<and>
     SafeMap_Get (listers s) (gvk_key gvk) = None"
| "phase_ok _ s \<longleftrightarrow> True"

fun task_chan :: "'m task \<Rightarrow> nat option" where
  "task_chan (Start_Informer gvr gvk c td) = Some c"
| "task_chan (Start_Lister gvr gvk im c td) = Some c"
| "task_chan (Start_Stopper gvk im c td) = Some c"
| "task_chan (Start_Run gvk im c td) = Some c"
| "task_chan _ = None"

lemma key_struct_count [simp]: "key_struct (s\<lparr>objectsCount := x\<rparr>) k = key_struct s k"
  by (simp add: key_struct_def split: option.split)

lemma key_struct_chan [simp]: "key_struct (s\<lparr>next_chan := n\<rparr>) k = key_struct s k"
  by (simp add: key_struct_def split: option.split)

lemma kind_keys_Nil [simp]: "kind_keys E m [] = {}"
  by (simp add: kind_keys_def)

lemma kind_keys_Cons:
  "kind_keys E m (g # gs) = (case KindFor E m g of Inr gvk \<Rightarrow> {gvk_key gvk} | Inl e \<Rightarrow> {}) \<union> kind_keys E m gs"
  by (auto simp: kind_keys_def split: sum.split)

text \<open>Steps elsewhere leave a key as it is: its entries, its UIDs, and the state of the channels it owns.\<close>

definition same_at :: "(nat \<Rightarrow> string) \<Rightarrow> string \<Rightarrow> ('m, 'w) sys \<Rightarrow> ('m, 'w) sys \<Rightarrow> bool" where
  "same_at own k s s' \<longleftrightarrow>
     SafeMap_Get (informers s') k = SafeMap_Get (informers s) k \<and> SafeMap_Get (listers s') k = SafeMap_Get (listers s) k \<and>
     SafeMap_Get (stoppers s') k = SafeMap_Get (stoppers s) k \<and> uids_of (objectsCount s') k = uids_of (objectsCount s) k \<and>
     set (running s) \<subseteq> set (running s') \<and> (\<forall>c. own c = k \<longrightarrow> c \<in> set (closed_chans s') \<longleftrightarrow> c \<in> set (closed_chans s))"

definition owned :: "(nat \<Rightarrow> string) \<Rightarrow> ('m, 'w) sys \<Rightarrow> bool" where
  "owned own s \<longleftrightarrow> (\<forall>k c. SafeMap_Get (stoppers s) k = Some c \<longrightarrow> own c = k \<and> c < next_chan s) \<and>
     (\<forall>c \<in> set (closed_chans s). c < next_chan s) \<and> (\<forall>(k, im, c) \<in> set (running s). c < next_chan s)"

lemma same_at_struct: "same_at own k s s' \<Longrightarrow> owned own s \<Longrightarrow> key_struct s k \<Longrightarrow> key_struct s' k"
  unfolding same_at_def owned_def key_struct_def by (auto split: option.splits)

lemma same_at_idle: "same_at own k s s' \<Longrightarrow> owned own s \<Longrightarrow> key_idle s k \<Longrightarrow> key_idle s' k"
  using same_at_struct [of own k s s'] by (simp add: key_idle_def) (simp add: same_at_def)

lemma same_at_phase:
  assumes "same_at own k s s'" "owned own s" "task_key t = Some k" "\<And>c. task_chan t = Some c \<Longrightarrow> own c = k" "phase_ok t s"
  shows "phase_ok t s'"
  using assms same_at_struct [OF assms(1,2)] same_at_idle [OF assms(1,2)]
  by (cases t) (auto simp: task_key_def same_at_def uid.count_card)

lemma phase_ok_other: "task_key t = None \<Longrightarrow> phase_ok t s"
  by (cases t) (auto simp: task_key_def)

text \<open>One step, seen from the key of the task.\<close>

lemma step_elsewhere:
  assumes "task_step E t s = Ret (t', s')" "owned own s" "phase_ok t s" "\<And>k. k \<in> set_option (task_key t) \<Longrightarrow> k \<noteq> k0"
  shows "same_at own k0 s s'"
proof -
  have close: "own c \<noteq> k0" if "t = Stop_Close gvk c td" for gvk c td
    using that assms(2,3) assms(4) [of "gvk_key gvk"] by (auto simp: owned_def task_key_def)
  show ?thesis
    using assms(1,4) close unfolding same_at_def
    by (cases t rule: task_left.cases)
      (auto simp: task_key_def Let_def bindO_eq_Ret split: prod.splits option.splits if_splits)
qed

lemma step_inside:
  assumes "task_step E t s = Ret (t', s')" "task_key t = Some k" "phase_ok t s" "owned own s"
  shows "task_key t' = Some k \<and> phase_ok t' s' \<or> task_key t' = None \<and> key_idle s' k"
proof (cases t)
  case (Stop_Count gvk td)
  then show ?thesis
    using assms uid.count_zero_iff [of "objectsCount s" k]
    by (auto simp: task_key_def key_idle_def split: if_splits)
next
  case (Start_Count gvr gvk td)
  have "next_chan s \<notin> set (closed_chans s)" using assms(4) by (auto simp: owned_def)
  then show ?thesis using assms(1-3) Start_Count
    by (auto simp: task_key_def key_idle_def split: if_splits)
next
  case (Stop_Lookup gvk td)
  then show ?thesis using assms(1-3)
    by (cases td) (auto simp: task_key_def key_idle_def split: option.splits if_splits)
next
  case (Start_Add gvr gvk uid td)
  then show ?thesis using assms uid.count_add_one_iff [of k uid "objectsCount s"]
    by (auto simp: task_key_def key_idle_def)
qed (use assms(1-3) in \<open>auto simp: task_key_def key_idle_def key_struct_def Let_def split: option.splits if_splits\<close>)

lemma step_enter:
  assumes "task_step E t s = Ret (t', s')" "task_key t = None" "restMapper s = Some m"
  shows "task_key t' = Some k \<Longrightarrow> k \<in> task_keys E m t \<and> (key_idle s k \<longrightarrow> phase_ok t' s')"
  using assms
  by (cases t rule: task_left.cases)
    (auto simp: task_key_def task_keys_def kind_keys_Cons bindO_eq_Ret start_head_def stop_head_def
      split: prod.splits list.splits option.splits sum.splits if_splits)

lemma step_chans:
  assumes "task_step E t s = Ret (t', s')"
  shows "next_chan s' \<noteq> next_chan s \<Longrightarrow> \<exists>gvr gvk td. t = Start_Count gvr gvk td"
    and "phase_ok t s \<Longrightarrow> SafeMap_Get (stoppers s') k = Some c \<Longrightarrow>
      SafeMap_Get (stoppers s) k = Some c \<or> task_chan t = Some c \<and> task_key t = Some k"
    and "phase_ok t s \<Longrightarrow> c \<in> set (closed_chans s') \<Longrightarrow> c \<in> set (closed_chans s) \<or> (\<exists>k. SafeMap_Get (stoppers s) k = Some c)"
    and "phase_ok t s \<Longrightarrow> r \<in> set (running s') \<Longrightarrow> r \<in> set (running s) \<or> task_chan t = Some (snd (snd r))"
  using assms
  by (cases t rule: task_left.cases; force simp: task_key_def Let_def bindO_eq_Ret split: prod.splits option.splits if_splits)+

lemma step_own:
  assumes "task_step E t s = Ret (t', s')" "owned own s" "phase_ok t s"
    and "\<And>c. task_chan t = Some c \<Longrightarrow> c < next_chan s \<and> task_key t = Some (own c)"
  obtains own' where "\<And>c. c < next_chan s \<Longrightarrow> own' c = own c" "owned own' s'" "next_chan s \<le> next_chan s'"
    and "\<And>c. task_chan t' = Some c \<Longrightarrow> c < next_chan s' \<and> task_key t' = Some (own' c)"
proof (cases "\<exists>gvr gvk td. t = Start_Count gvr gvk td")
  case True
  then obtain gvr gvk td where t: "t = Start_Count gvr gvk td" by blast
  have "SafeMap_Get (stoppers s) k \<noteq> Some (next_chan s)" for k using assms(2) by (auto simp: owned_def)
  then show thesis
    by (intro that [of "own(next_chan s := gvk_key gvk)"])
      (use assms(1,2) in \<open>auto simp: t owned_def task_key_def less_Suc_eq split: if_splits\<close>)
next
  case False
  have n: "next_chan s' = next_chan s" using step_chans(1) [OF assms(1)] False by blast
  have "owned own s'"
    unfolding owned_def n using step_chans(2-4) [OF assms(1,3)] assms(2,4) unfolding owned_def by fastforce
  moreover have "c < next_chan s' \<and> task_key t' = Some (own c)" if "task_chan t' = Some c" for c
    using assms(1,4) False that
    by (cases t rule: task_left.cases)
      (auto simp: task_key_def Let_def bindO_eq_Ret start_head_def stop_head_def
        split: prod.splits list.splits option.splits sum.splits if_splits)
  ultimately show thesis using n by (intro that [of own]) simp_all
qed

lemma step_keys:
  assumes "task_step E t s = Ret (t', s')" "restMapper s = Some m" "task_wf E m t" "stable E m"
  shows "task_keys E m t' \<subseteq> task_keys E m t" and "task_wf E m t'" and "restMapper s' = Some m"
proof -
  have st: "discovered r = Some m" if "getRestMapper E w = (r, w')" for w w' r
  proof -
    obtain w'' where "getRestMapper E w = (Inr m, w'')" using assms(4) unfolding stable_def by blast
    with that show ?thesis by (auto simp: discovered_def)
  qed
  show "task_keys E m t' \<subseteq> task_keys E m t"
    using assms(1,2)
    by (cases t rule: task_left.cases)
      (auto simp: task_key_def task_keys_def kind_keys_Cons bindO_eq_Ret start_head_def stop_head_def Let_def
        split: prod.splits list.splits option.splits sum.splits if_splits)
  show "task_wf E m t'"
    using assms(1-3) st
    by (cases t rule: task_left.cases)
      (auto simp: task_wf_def todo_wf_def knows_def bindO_eq_Ret start_head_def stop_head_def Let_def
        split: prod.splits list.splits option.splits sum.splits if_splits)
  show "restMapper s' = Some m"
    using assms(1-3)
    by (cases t rule: task_left.cases)
      (auto simp: task_wf_def bindO_eq_Ret Let_def split: prod.splits option.splits if_splits)
qed

lemma step_returns:
  assumes "restMapper s = Some m" "task_wf E m t" "phase_ok t s"
  shows "returns (task_step E t s)"
  using assms
  by (cases t rule: task_left.cases)
    (auto simp: task_wf_def todo_wf_def key_struct_def start_head_def stop_head_def bindO_returns Let_def
      split: prod.splits list.splits option.splits sum.splits if_splits)

subsection \<open>The objects the tasks still record and remove\<close>

definition todo_pairs :: "todo \<Rightarrow> (string \<times> GroupVersionResource) list" where
  "todo_pairs td = (case td of (i, gvrs, uids) \<Rightarrow> zip (drop i uids) gvrs)"

fun task_adds :: "('w, 'm, 'g) env \<Rightarrow> 'm \<Rightarrow> 'm task \<Rightarrow> string \<Rightarrow> string set" where
  "task_adds E m (Start_Discover gvrs uids) k = uids_for E m (todo_pairs (0, gvrs, uids)) k"
| "task_adds E m (Start_Assign mo gvrs uids) k = uids_for E m (todo_pairs (0, gvrs, uids)) k"
| "task_adds E m (Start_Head td) k = uids_for E m (todo_pairs td) k"
| "task_adds E m (Start_Add gvr gvk uid td) k = (if k = gvk_key gvk then {uid} else {}) \<union> uids_for E m (todo_pairs td) k"
| "task_adds E m (Start_Count gvr gvk td) k = uids_for E m (todo_pairs td) k"
| "task_adds E m (Start_Informer gvr gvk c td) k = uids_for E m (todo_pairs td) k"
| "task_adds E m (Start_Lister gvr gvk im c td) k = uids_for E m (todo_pairs td) k"
| "task_adds E m (Start_Stopper gvk im c td) k = uids_for E m (todo_pairs td) k"
| "task_adds E m (Start_Run gvk im c td) k = uids_for E m (todo_pairs td) k"
| "task_adds E m _ k = {}"

fun task_dels :: "('w, 'm, 'g) env \<Rightarrow> 'm \<Rightarrow> 'm task \<Rightarrow> string \<Rightarrow> string set" where
  "task_dels E m (Stop_Head td) k = uids_at E m (todo_pairs td) k"
| "task_dels E m (Stop_Lookup gvk (i, gvrs, uids)) k =
     (if k = gvk_key gvk then {uids ! i} else {}) \<union> uids_at E m (todo_pairs (Suc i, gvrs, uids)) k"
| "task_dels E m (Stop_Delete gvk uid td) k = (if k = gvk_key gvk then {uid} else {}) \<union> uids_at E m (todo_pairs td) k"
| "task_dels E m (Stop_Count gvk td) k = uids_at E m (todo_pairs td) k"
| "task_dels E m (Stop_Get gvk td) k = uids_at E m (todo_pairs td) k"
| "task_dels E m (Stop_Close gvk c td) k = uids_at E m (todo_pairs td) k"
| "task_dels E m (Stop_Informer gvk td) k = uids_at E m (todo_pairs td) k"
| "task_dels E m (Stop_Lister gvk td) k = uids_at E m (todo_pairs td) k"
| "task_dels E m (Stop_Stopper gvk td) k = uids_at E m (todo_pairs td) k"
| "task_dels E m _ k = {}"

definition task_goal :: "('w, 'm, 'g) env \<Rightarrow> 'm \<Rightarrow> 'm task \<Rightarrow> ('m, 'w) sys \<Rightarrow> string \<Rightarrow> string set" where
  "task_goal E m t s k = (uids_of (objectsCount s) k \<union> task_adds E m t k) - task_dels E m t k"

lemma todo_pairs_Nil [simp]: "todo_pairs (i, [], uids) = []"
  by (simp add: todo_pairs_def)

lemma todo_pairs_Cons: "i < length uids \<Longrightarrow> todo_pairs (i, g # gs, uids) = (uids ! i, g) # todo_pairs (Suc i, gs, uids)"
  by (simp add: todo_pairs_def drop_zip_Cons)

lemma todo_uids_keys:
  "uids_for E m (todo_pairs td) k \<noteq> {} \<Longrightarrow> k \<in> kind_keys E m (fst (snd td))"
  "uids_at E m (todo_pairs td) k \<noteq> {} \<Longrightarrow> k \<in> kind_keys E m (fst (snd td))"
proof -
  have at: "k \<in> kind_keys E m (fst (snd td))" if "u \<in> uids_at E m (todo_pairs td) k" for u
    using that unfolding uids_at_def todo_pairs_def kind_keys_def
    by (cases td) (simp, blast dest: set_zip_rightD)
  have "uids_for E m (todo_pairs td) k \<subseteq> uids_at E m (todo_pairs td) k"
    by (auto simp: uids_for_def uids_at_def dest!: tracked_kind_KindFor)
  with at show "uids_for E m (todo_pairs td) k \<noteq> {} \<Longrightarrow> k \<in> kind_keys E m (fst (snd td))"
    and "uids_at E m (todo_pairs td) k \<noteq> {} \<Longrightarrow> k \<in> kind_keys E m (fst (snd td))" by blast+
qed

lemma task_uids_keys:
  assumes "k \<notin> task_keys E m t" shows "task_adds E m t k = {}" and "task_dels E m t k = {}"
  using assms todo_uids_keys [of E m "task_todo t" k]
  by (cases t rule: task_left.cases; force simp: task_keys_def task_key_def)+

lemma step_goal:
  assumes "task_step E t s = Ret (t', s')" "restMapper s = Some m" "task_wf E m t" "phase_ok t s"
  shows "task_goal E m t' s' k = task_goal E m t s k"
  using assms
  by (cases t rule: task_left.cases)
    (auto simp: task_goal_def task_wf_def todo_wf_def knows_def key_idle_def bindO_eq_Ret start_head_def stop_head_def Let_def
      todo_pairs_Cons uids_for_Cons uids_at_Cons tracked_kind_def
      split: prod.splits list.splits option.splits sum.splits if_splits)

subsection \<open>The invariant of the tasks and the state together\<close>

definition task_inv :: "('w, 'm, 'g) env \<Rightarrow> 'm \<Rightarrow> (string \<Rightarrow> string set) \<Rightarrow> (nat \<Rightarrow> string) \<Rightarrow> ('m, 'w) sys \<Rightarrow> 'm task \<Rightarrow> bool" where
  "task_inv E m goal own s t \<longleftrightarrow> task_wf E m t \<and> phase_ok t s \<and>
     (\<forall>c. task_chan t = Some c \<longrightarrow> c < next_chan s \<and> task_key t = Some (own c)) \<and>
     (\<forall>k \<in> task_keys E m t. task_goal E m t s k = goal k)"

text \<open>The keys that no task of a set works on, or will work on.\<close>

definition rest_inv :: "('w, 'm, 'g) env \<Rightarrow> 'm \<Rightarrow> (string \<Rightarrow> string set) \<Rightarrow> ('m, 'w) sys \<Rightarrow> 'm task set \<Rightarrow> bool" where
  "rest_inv E m goal s T \<longleftrightarrow> (\<forall>k. (\<forall>t \<in> T. task_key t \<noteq> Some k) \<longrightarrow> key_idle s k) \<and>
     (\<forall>k. (\<forall>t \<in> T. k \<notin> task_keys E m t) \<longrightarrow> uids_of (objectsCount s) k = goal k)"

definition keys_apart :: "('w, 'm, 'g) env \<Rightarrow> 'm \<Rightarrow> 'm task list \<Rightarrow> bool" where
  "keys_apart E m ts \<longleftrightarrow> sorted_wrt (\<lambda>t u. task_keys E m t \<inter> task_keys E m u = {}) ts"

definition conc_inv :: "('w, 'm, 'g) env \<Rightarrow> 'm \<Rightarrow> (string \<Rightarrow> string set) \<Rightarrow> 'm task list \<times> ('m, 'w) sys \<Rightarrow> bool" where
  "conc_inv E m goal c \<longleftrightarrow> (case c of (ts, s) \<Rightarrow> restMapper s = Some m \<and> keys_apart E m ts \<and> rest_inv E m goal s (set ts) \<and>
     (\<exists>own. owned own s \<and> (\<forall>t \<in> set ts. task_inv E m goal own s t)))"

lemma task_key_keys: "task_key t = Some k \<Longrightarrow> k \<in> task_keys E m t"
  by (simp add: task_keys_def)

lemma conc_step_split:
  assumes "conc_step E (ts, s) (ts', s')"
  obtains xs t ys t' where "ts = xs @ t # ys" "ts' = xs @ t' # ys" "task_step E t s = Ret (t', s')"
  using assms
proof (rule conc_stepE)
  fix i t assume "i < length ts" "task_step E (ts ! i) s = Ret (t, s')" "ts' = ts[i := t]"
  then show thesis using that id_take_nth_drop [of i ts] upd_conv_take_nth_drop [of i ts t] by metis
qed

lemma other_task_inv:
  assumes "task_step E t s = Ret (t', s')" "owned own s" "phase_ok t s"
    and "task_inv E m goal own s u" "task_keys E m t \<inter> task_keys E m u = {}"
    and own': "\<And>c. c < next_chan s \<Longrightarrow> own' c = own c" "next_chan s \<le> next_chan s'"
  shows "task_inv E m goal own' s' u"
proof -
  have same: "same_at own k s s'" if "k \<in> task_keys E m u" for k
    using step_elsewhere [OF assms(1-3), of k] assms(5) that by (auto simp: task_keys_def)
  have "phase_ok u s'"
  proof (cases "task_key u")
    case (Some k)
    have "own c = k" if "task_chan u = Some c" for c using assms(4) that Some by (auto simp: task_inv_def)
    then show ?thesis
      using same_at_phase [OF same assms(2) Some] task_key_keys [OF Some] assms(4) by (auto simp: task_inv_def)
  qed (rule phase_ok_other)
  moreover have "task_goal E m u s' k = task_goal E m u s k" if "k \<in> task_keys E m u" for k
    using same [OF that] by (simp add: task_goal_def same_at_def)
  ultimately show ?thesis using assms(4) own' unfolding task_inv_def by (metis order_less_le_trans)
qed

lemma moved_task_inv:
  assumes "task_step E t s = Ret (t', s')" "owned own s" "restMapper s = Some m" "stable E m" "task_inv E m goal own s t"
    and idle: "\<And>k. task_key t = None \<Longrightarrow> k \<in> task_keys E m t \<Longrightarrow> key_idle s k"
    and own': "\<And>c. task_chan t' = Some c \<Longrightarrow> c < next_chan s' \<and> task_key t' = Some (own' c)"
  shows "task_inv E m goal own' s' t'"
proof -
  have t: "task_wf E m t" "phase_ok t s" "\<And>k. k \<in> task_keys E m t \<Longrightarrow> task_goal E m t s k = goal k"
    using assms(5) by (simp_all add: task_inv_def)
  note keys = step_keys [OF assms(1,3) t(1) assms(4)]
  have "phase_ok t' s'"
  proof (cases "task_key t'")
    case (Some k)
    show ?thesis
    proof (cases "task_key t")
      case None
      then show ?thesis using step_enter [OF assms(1) None assms(3) Some] idle by blast
    next
      case (Some k')
      then show ?thesis using step_inside [OF assms(1) Some t(2) assms(2)] \<open>task_key t' = Some k\<close> by auto
    qed
  qed (rule phase_ok_other)
  moreover have "task_goal E m t' s' k = goal k" if "k \<in> task_keys E m t'" for k
    using step_goal [OF assms(1,3) t(1,2), of k] t(3) keys(1) that by auto
  ultimately show ?thesis using keys(2) own' unfolding task_inv_def by blast
qed

lemma moved_rest_inv:
  assumes step: "task_step E t s = Ret (t', s')" and own: "owned own s" and m: "restMapper s = Some m" and st: "stable E m"
    and t: "task_inv E m goal own s t" and rest: "rest_inv E m goal s (insert t U)"
    and apart: "\<And>u. u \<in> U \<Longrightarrow> task_keys E m t \<inter> task_keys E m u = {}"
  shows "rest_inv E m goal s' (insert t' U)"
proof -
  have ti: "task_wf E m t" "phase_ok t s" "\<And>k. k \<in> task_keys E m t \<Longrightarrow> task_goal E m t s k = goal k"
    using t by (simp_all add: task_inv_def)
  have "key_idle s' k" if no: "\<forall>u \<in> insert t' U. task_key u \<noteq> Some k" for k
  proof (cases "task_key t = Some k")
    case True
    then show ?thesis using step_inside [OF step True ti(2) own] no by auto
  next
    case False
    then have "same_at own k s s'" using step_elsewhere [OF step own ti(2), of k] by auto
    moreover have "key_idle s k" using rest no False by (auto simp: rest_inv_def)
    ultimately show ?thesis using same_at_idle own by blast
  qed
  moreover have "uids_of (objectsCount s') k = goal k" if no: "\<forall>u \<in> insert t' U. k \<notin> task_keys E m u" for k
  proof (cases "k \<in> task_keys E m t")
    case True
    have "uids_of (objectsCount s') k = task_goal E m t' s' k"
      using task_uids_keys [of k E m t'] no by (simp add: task_goal_def)
    then show ?thesis using step_goal [OF step m ti(1,2)] ti(3) True by simp
  next
    case False
    then have "same_at own k s s'" using step_elsewhere [OF step own ti(2), of k] by (auto simp: task_keys_def)
    moreover have "uids_of (objectsCount s) k = goal k" using rest no False by (auto simp: rest_inv_def)
    ultimately show ?thesis by (simp add: same_at_def)
  qed
  ultimately show ?thesis by (simp add: rest_inv_def)
qed

lemma conc_inv_step:
  assumes inv: "conc_inv E m goal (ts, s)" and st: "stable E m" and step: "conc_step E (ts, s) (ts', s')"
  shows "conc_inv E m goal (ts', s')"
proof -
  obtain xs t ys t' where ts: "ts = xs @ t # ys" "ts' = xs @ t' # ys" and t: "task_step E t s = Ret (t', s')"
    using step by (rule conc_step_split)
  let ?U = "set xs \<union> set ys"
  obtain own where own: "owned own s" "\<And>u. u \<in> insert t ?U \<Longrightarrow> task_inv E m goal own s u"
    and m: "restMapper s = Some m" and apart: "keys_apart E m ts" and rest: "rest_inv E m goal s (insert t ?U)"
    using inv by (auto simp: conc_inv_def ts)
  have ti: "task_inv E m goal own s t" "task_wf E m t" "phase_ok t s" using own(2) [of t] by (simp_all add: task_inv_def)
  have disj: "task_keys E m t \<inter> task_keys E m u = {}" if "u \<in> ?U" for u
    using apart that by (auto simp: ts keys_apart_def sorted_wrt_append)
  obtain own' where own': "\<And>c. c < next_chan s \<Longrightarrow> own' c = own c" "owned own' s'" "next_chan s \<le> next_chan s'"
    "\<And>c. task_chan t' = Some c \<Longrightarrow> c < next_chan s' \<and> task_key t' = Some (own' c)"
    using step_own [OF t own(1) ti(3)] ti(1) unfolding task_inv_def by blast
  have idle: "key_idle s k" if "task_key t = None" "k \<in> task_keys E m t" for k
    using rest disj that task_key_keys [of _ k E m] unfolding rest_inv_def by (metis disjoint_iff insert_iff option.distinct(1))
  note keys = step_keys [OF t m ti(2) st]
  have "keys_apart E m ts'"
    using apart keys(1) unfolding keys_apart_def ts sorted_wrt_append by (auto simp: disjoint_iff)
  moreover have "task_inv E m goal own' s' u" if "u \<in> insert t' ?U" for u
    using moved_task_inv [OF t own(1) m st ti(1) idle own'(4)]
      other_task_inv [OF t own(1) ti(3) own(2) disj own'(1,3)] that by blast
  ultimately show ?thesis
    using keys(3) own'(2) moved_rest_inv [OF t own(1) m st ti(1) rest disj] by (auto simp: conc_inv_def ts)
qed

interpretation conc: step_invariant "conc_step E" "\<lambda>c. stable E m \<and> conc_inv E m goal c" for E m goal
  by unfold_locales (auto dest: conc_inv_step)

lemma agent_inv_idle:
  assumes "agent_inv s" shows "key_idle s k" and "\<exists>own. owned own s"
proof -
  note reg = registry_invD [OF assms [unfolded agent_inv_def, THEN conjunct1]]
  have "(SafeMap_Get (informers s) k = None) = (SafeMap_Get (stoppers s) k = None)"
    "(SafeMap_Get (listers s) k = None) = (SafeMap_Get (stoppers s) k = None)"
    using reg(1,2) by (auto simp: domIff dest!: arg_cong [where f = "\<lambda>A. k \<in> A"])
  then show "key_idle s k"
    using reg(4,6,7) assms unfolding key_idle_def key_struct_def agent_inv_def count_inv_def
    by (cases "SafeMap_Get (stoppers s) k") auto
  have "owned (\<lambda>c. SOME k. SafeMap_Get (stoppers s) k = Some c) s"
    unfolding owned_def using reg(3,5,8,9) by (auto intro: some_equality)
  then show "\<exists>own. owned own s" by blast
qed

lemma idle_agent_inv:
  assumes "\<And>k. key_idle s k" "owned own s" shows "agent_inv s"
proof -
  have st: "key_struct s k" for k using assms(1) by (simp add: key_idle_def)
  have "k \<in> dom (SafeMap_Get (informers s)) \<longleftrightarrow> k \<in> dom (SafeMap_Get (stoppers s))"
    "k \<in> dom (SafeMap_Get (listers s)) \<longleftrightarrow> k \<in> dom (SafeMap_Get (stoppers s))" for k
    using st [of k] by (auto simp: key_struct_def split: option.splits)
  then have d: "dom (SafeMap_Get (informers s)) = dom (SafeMap_Get (stoppers s))"
    "dom (SafeMap_Get (listers s)) = dom (SafeMap_Get (stoppers s))" by blast+
  have e: "c \<notin> set (closed_chans s) \<and> (\<forall>im. SafeMap_Get (informers s) k = Some im \<longrightarrow> (k, im, c) \<in> set (running s))"
    if "SafeMap_Get (stoppers s) k = Some c" for k c
    using st [of k] that by (auto simp: key_struct_def split: option.splits)
  have f: "lst_informer l = im" if "SafeMap_Get (informers s) k = Some im" "SafeMap_Get (listers s) k = Some l" for k im l
    using st [of k] that by (auto simp: key_struct_def split: option.splits)
  have own: "own c = k" "c < next_chan s" if "SafeMap_Get (stoppers s) k = Some c" for k c
    using assms(2) that by (auto simp: owned_def)
  have bound: "c \<in> set (closed_chans s) \<Longrightarrow> c < next_chan s" "(k, im, c) \<in> set (running s) \<Longrightarrow> c < next_chan s" for k im c
    using assms(2) by (auto simp: owned_def)
  have "registry_inv s"
  proof (rule registry_invI [OF d])
    show "k = k'" if "SafeMap_Get (stoppers s) k = Some c" "SafeMap_Get (stoppers s) k' = Some c" for k k' c
      using own(1) [OF that(1)] own(1) [OF that(2)] by simp
  qed (use e own(2) in blast, use e in blast, erule (1) f, erule bound(1), erule bound(2))
  then show ?thesis using assms(1) by (simp add: agent_inv_def count_inv_def key_idle_def)
qed

definition conc_goal :: "('w, 'm, 'g) env \<Rightarrow> 'm \<Rightarrow> (GroupVersionResource list \<times> string list) list \<Rightarrow> AppliedManifestInfo list \<Rightarrow>
    SafeUIDMap \<Rightarrow> string \<Rightarrow> string set" where
  "conc_goal E m starts stops u k =
     (uids_of u k \<union> (\<Union>(gvrs, uids) \<in> set starts. uids_for E m (zip uids gvrs) k)) - (\<Union>info \<in> set stops. uids_at E m (info_pairs info) k)"

definition tasks_ok :: "('w, 'm, 'g) env \<Rightarrow> 'm \<Rightarrow> (GroupVersionResource list \<times> string list) list \<Rightarrow> AppliedManifestInfo list \<Rightarrow> bool" where
  "tasks_ok E m starts stops \<longleftrightarrow>
     (\<forall>(gvrs, uids) \<in> set starts. length gvrs = length uids \<and> knows E m gvrs) \<and> (\<forall>info \<in> set stops. wf_info info \<and> knows E m (GVRs info))"

lemma conc_goal_tasks:
  "conc_goal E m starts stops u k =
     (uids_of u k \<union> (\<Union>t \<in> set (conc_tasks starts stops). task_adds E m t k)) - (\<Union>t \<in> set (conc_tasks starts stops). task_dels E m t k)"
  by (force simp: conc_goal_def conc_tasks_def start_task_def stop_task_def todo_pairs_def info_pairs_def)

lemma keys_apart_others:
  assumes "keys_apart E m ts" "t \<in> set ts" "u \<in> set ts" "k \<in> task_keys E m t" "k \<in> task_keys E m u"
  shows "u = t"
proof -
  obtain xs ys where ts: "ts = xs @ t # ys" using assms(2) by (meson split_list)
  then have "u \<notin> set xs \<union> set ys" using assms by (auto simp: keys_apart_def sorted_wrt_append)
  with assms(3) ts show ?thesis by auto
qed

lemma goal_of_task:
  assumes "keys_apart E m ts" "t \<in> set ts" "k \<in> task_keys E m t"
  shows "(\<Union>u \<in> set ts. task_adds E m u k) = task_adds E m t k" and "(\<Union>u \<in> set ts. task_dels E m u k) = task_dels E m t k"
proof -
  have "task_adds E m u k = {} \<and> task_dels E m u k = {}" if "u \<in> set ts" "u \<noteq> t" for u
    using task_uids_keys [of k E m u] keys_apart_others [OF assms(1,2) that(1) assms(3)] that(2) by blast
  then show "(\<Union>u \<in> set ts. task_adds E m u k) = task_adds E m t k" and "(\<Union>u \<in> set ts. task_dels E m u k) = task_dels E m t k"
    using assms(2) by blast+
qed

lemma conc_inv_init:
  assumes "agent_inv s" "restMapper s = Some m" "tasks_ok E m starts stops" "keys_apart E m (conc_tasks starts stops)"
  shows "conc_inv E m (conc_goal E m starts stops (objectsCount s)) (conc_tasks starts stops, s)"
proof -
  let ?ts = "conc_tasks starts stops"
  have entry: "task_wf E m t" "task_key t = None" "task_chan t = None" if "t \<in> set ?ts" for t
    using that assms(3)
    by (auto simp: conc_tasks_def start_task_def stop_task_def tasks_ok_def task_wf_def todo_wf_def task_key_def wf_info_def)
  have "task_goal E m t s k = conc_goal E m starts stops (objectsCount s) k" if "t \<in> set ?ts" "k \<in> task_keys E m t" for t k
    by (simp add: conc_goal_tasks goal_of_task [OF assms(4) that] task_goal_def)
  moreover have "uids_of (objectsCount s) k = conc_goal E m starts stops (objectsCount s) k" if "\<forall>t \<in> set ?ts. k \<notin> task_keys E m t" for k
    using that task_uids_keys [of k E m] by (simp add: conc_goal_tasks)
  moreover have "phase_ok t s" if "t \<in> set ?ts" for t using entry(2) [OF that] by (rule phase_ok_other)
  ultimately show ?thesis
    using assms(2,4) agent_inv_idle [OF assms(1)] entry
    unfolding conc_inv_def rest_inv_def task_inv_def by auto
qed

section \<open>Properties\<close>

text \<open>
  Property C12: tasks on different kinds do not disturb each other. From a state with the agent's
  invariant, with a mapper that does not change and knows the resources, goroutines and workers
  whose objects have different kinds never panic, in any interleaving, and when all of them are done
  the invariant holds and the recorded UIDs are those any sequential order gives.
\<close>

theorem different_kinds_safe:
  assumes "stable E m" "agent_inv s" "restMapper s = Some m" "tasks_ok E m starts stops"
    and "keys_apart E m (conc_tasks starts stops)"
    and run: "(conc_step E)\<^sup>*\<^sup>* (conc_tasks starts stops, s) (ts, t)"
  shows "\<not> conc_panics E (ts, t) \<and>
    (conc_done (ts, t) \<longrightarrow> agent_inv t \<and> (\<forall>k. uids_of (objectsCount t) k = conc_goal E m starts stops (objectsCount s) k))"
proof -
  have inv: "conc_inv E m (conc_goal E m starts stops (objectsCount s)) (ts, t)"
    using conc.reach [OF run] conc_inv_init [OF assms(2-5)] assms(1) by blast
  then have "\<not> conc_panics E (ts, t)"
    by (auto simp: conc_panics_def conc_inv_def task_inv_def dest!: bspec intro: step_returns)
  moreover have "agent_inv t \<and> (\<forall>k. uids_of (objectsCount t) k = conc_goal E m starts stops (objectsCount s) k)"
    if "conc_done (ts, t)"
  proof -
    have none: "task_keys E m u = {}" "task_key u = None" if "u \<in> set ts" for u
      using \<open>conc_done (ts, t)\<close> that by (auto simp: conc_done_def task_keys_def task_key_def)
    obtain own where own: "owned own t" and rest: "rest_inv E m (conc_goal E m starts stops (objectsCount s)) t (set ts)"
      using inv by (auto simp: conc_inv_def)
    have "key_idle t k" "uids_of (objectsCount t) k = conc_goal E m starts stops (objectsCount s) k" for k
      using rest none by (auto simp: rest_inv_def)
    then show ?thesis using idle_agent_inv [OF _ own] by blast
  qed
  ultimately show ?thesis by blast
qed

subsection \<open>Schedules\<close>

text \<open>A schedule names the task that makes the next step; \<open>None\<close> if it cannot.\<close>

fun schedule :: "('w, 'm, 'g) env \<Rightarrow> nat list \<Rightarrow> 'm task list \<times> ('m, 'w) sys \<Rightarrow> ('m task list \<times> ('m, 'w) sys) option" where
  "schedule E [] c = Some c"
| "schedule E (i # is) (ts, s) =
     (if i < length ts \<and> ts ! i \<noteq> Task_Done then
        (case task_step E (ts ! i) s of Ret (t, s') \<Rightarrow> schedule E is (ts[i := t], s') | Panic p \<Rightarrow> None)
      else None)"

lemma schedule_run: "schedule E is c = Some d \<Longrightarrow> (conc_step E)\<^sup>*\<^sup>* c d"
proof (induction E "is" c rule: schedule.induct)
  case (2 E i "is" ts s)
  then show ?case
    by (auto split: if_splits outcome.splits intro: converse_rtranclp_into_rtranclp conc_step.step)
qed simp

lemma stable_choice: "stable E m \<Longrightarrow> \<exists>f. \<forall>w. getRestMapper E w = (Inr m, f w)"
  unfolding stable_def by metis

lemma stops_in_sequence:
  assumes "stable E m" "agent_inv s" "restMapper s \<noteq> None" "wf_info i" "wf_info j"
  shows "\<exists>t. bindO (stopInformers E i s) (stopInformers E j) = Ret t"
proof -
  obtain t where t: "stopInformers E i s = Ret t" using stopInformers_returns [OF assms(2-4)] by blast
  note inv = stopInformers_inv [OF assms(2) t] stopInformers_mapper [OF stable_discovery [OF assms(1)] assms(2,3) t]
  show ?thesis using stopInformers_returns [OF inv assms(5)] t by simp
qed

text \<open>
  Property C34: two works deleted at the same time can crash the agent. If the last two recorded objects of
  a kind belong to two works that two workers handle at the same time, both may find the kind without
  objects; the second then looks for a stopper that the first has removed, and panics. One after the
  other, in either order, the two calls return.
\<close>

theorem concurrent_stops_panic:
  assumes "stable E m" "agent_inv s" "restMapper s = Some m" "KindFor E m g1 = Inr gvk" "KindFor E m g2 = Inr gvk"
    and "uids_of (objectsCount s) (gvk_key gvk) = {u1, u2}"
  defines "i1 \<equiv> \<lparr>ObjectUIDs = [u1], GVRs = [g1]\<rparr>" and "i2 \<equiv> \<lparr>ObjectUIDs = [u2], GVRs = [g2]\<rparr>"
  shows "(\<exists>c. (conc_step E)\<^sup>*\<^sup>* (conc_tasks [] [i1, i2], s) c \<and> conc_panics E c) \<and>
    (\<exists>t. bindO (stopInformers E i1 s) (stopInformers E i2) = Ret t) \<and>
    (\<exists>t. bindO (stopInformers E i2 s) (stopInformers E i1) = Ret t)"
proof -
  have seq: "\<exists>t. bindO (stopInformers E i1 s) (stopInformers E i2) = Ret t" "\<exists>t. bindO (stopInformers E i2 s) (stopInformers E i1) = Ret t"
    using stops_in_sequence [OF assms(1,2)] assms(3) by (simp_all add: i1_def i2_def wf_info_def)
  let ?k = "gvk_key gvk"
  obtain im where im: "SafeMap_Get (informers s) ?k = Some im" using assms(2,6) by (auto simp: agent_inv_def count_inv_def)
  then obtain c where c: "SafeMap_Get (stoppers s) ?k = Some c" "c \<notin> set (closed_chans s)"
    using agent_inv_idle(1) [OF assms(2), of ?k] by (auto simp: key_idle_def key_struct_def split: option.splits)
  have zero: "GetUIDCount (DeleteUID ?k u2 (DeleteUID ?k u1 (objectsCount s))) ?k = 0"
    using assms(6) by (auto simp: uid.count_zero_iff)
  obtain t where "schedule E [0,0,0, 1,1,1, 0, 1, 0,0,0,0,0] (conc_tasks [] [i1, i2], s) = Some ([Stop_Head (1, [], [u1]), Stop_Get gvk (1, [], [u2])], t)"
    "SafeMap_Get (stoppers t) ?k = None"
    using assms(3-5) im c zero by (simp add: conc_tasks_def stop_task_def stop_head_def i1_def i2_def)
  moreover from this(2) have "conc_panics E ([Stop_Head (1, [], [u1]), Stop_Get gvk (1, [], [u2])], t)"
    by (simp add: conc_panics_def)
  ultimately show ?thesis using schedule_run seq by blast
qed

text \<open>
  Property C35: two goroutines that record the first two objects of a kind at the same time can leave it without
  an informer: both count two objects after both have recorded theirs, so neither starts one. The
  objects stay recorded, and no later object of the kind starts an informer either. One after the
  other, the first of the two starts it.
\<close>

theorem concurrent_starts_lose_informer:
  assumes "stable E m" "agent_inv s" "tracked_kind E m g1 = Some gvk" "tracked_kind E m g2 = Some gvk"
    and "uids_of (objectsCount s) (gvk_key gvk) = {}" "SafeMap_Get (informers s) (gvk_key gvk) = None" "u1 \<noteq> u2"
  shows "(\<exists>t. (conc_step E)\<^sup>*\<^sup>* (conc_tasks [([g1], [u1]), ([g2], [u2])] [], s) ([Task_Done, Task_Done], t) \<and>
      uids_of (objectsCount t) (gvk_key gvk) = {u1, u2} \<and> SafeMap_Get (informers t) (gvk_key gvk) = None) \<and>
    (\<exists>t. bindO (startInformers E [g1] [u1] s) (startInformers E [g2] [u2]) = Ret t \<and> SafeMap_Get (informers t) (gvk_key gvk) \<noteq> None)"
proof -
  let ?k = "gvk_key gvk" and ?o = "AddUID (gvk_key gvk) u2 (AddUID (gvk_key gvk) u1 (objectsCount s))"
  obtain f where f: "getRestMapper E w = (Inr m, f w)" for w using stable_choice [OF assms(1)] by blast
  have k: "KindFor E m g1 = Inr gvk" "KindFor E m g2 = Inr gvk" "GroupVersionKind_String E gvk \<notin> set excludedGVKs"
    using assms(3,4) by (auto simp: tracked_kind_def split: sum.splits if_splits)
  have two: "GetUIDCount ?o ?k \<noteq> Suc 0" using assms(5,7) by (simp add: uid.count_card)
  have "\<exists>t. schedule E [0,0,0,0, 1,1,1,1, 0,0, 1,1] (conc_tasks [([g1], [u1]), ([g2], [u2])] [], s) = Some ([Task_Done, Task_Done], t) \<and>
      objectsCount t = ?o \<and> informers t = informers s"
    using k two by (simp add: conc_tasks_def start_task_def start_head_def f discovered_def)
  then have "\<exists>t. (conc_step E)\<^sup>*\<^sup>* (conc_tasks [([g1], [u1]), ([g2], [u2])] [], s) ([Task_Done, Task_Done], t) \<and>
      objectsCount t = ?o \<and> informers t = informers s"
    by (blast intro: schedule_run)
  then have "\<exists>t. (conc_step E)\<^sup>*\<^sup>* (conc_tasks [([g1], [u1]), ([g2], [u2])] [], s) ([Task_Done, Task_Done], t) \<and>
      uids_of (objectsCount t) ?k = {u1, u2} \<and> SafeMap_Get (informers t) ?k = None"
    using assms(5,6) by (auto simp: insert_commute)
  moreover have "\<exists>t. bindO (startInformers E [g1] [u1] s) (startInformers E [g2] [u2]) = Ret t \<and> SafeMap_Get (informers t) ?k \<noteq> None"
  proof -
    let ?s = "track_object g1 gvk u1 (update_restMapper E s)"
    let ?t = "track_object g2 gvk u2 (update_restMapper E ?s)"
    have "agent_inv ?t"
      using assms(2) by (intro track_object_agent_inv) (simp add: agent_inv_same [OF update_restMapper_same] track_object_agent_inv)
    then have "SafeMap_Get (informers ?t) ?k \<noteq> None" by (simp add: agent_inv_def count_inv_def)
    moreover have "bindO (startInformers E [g1] [u1] s) (startInformers E [g2] [u2]) = Ret ?t"
      using k stable_update [OF assms(1)] by (simp add: startInformers_def)
    ultimately show ?thesis by blast
  qed
  ultimately show ?thesis by (rule conjI)
qed

subsection \<open>Examples\<close>

text \<open>Deployments and daemon sets of the example cluster.\<close>

definition ex_deployments :: GroupVersionResource where
  "ex_deployments = \<lparr>gvr_Group = ''apps'', gvr_Version = ''v1'', gvr_Resource = ''deployments''\<rparr>"

definition ex_daemonsets :: GroupVersionResource where
  "ex_daemonsets = \<lparr>gvr_Group = ''apps'', gvr_Version = ''v1'', gvr_Resource = ''daemonsets''\<rparr>"

definition ex_daemonset_gvk :: GroupVersionKind where
  "ex_daemonset_gvk = \<lparr>gvk_Group = ''apps'', gvk_Version = ''v1'', gvk_Kind = ''DaemonSet''\<rparr>"

lemma ex_kinds:
  "cl_KindFor () ex_deployments = Inr ex_gvk" "cl_KindFor () ex_daemonsets = Inr ex_daemonset_gvk"
  "tracked_kind cl_env () ex_deployments = Some ex_gvk" "gvk_key ex_gvk \<noteq> gvk_key ex_daemonset_gvk"
  by (simp_all add: cl_KindFor_def cl_kinds_def ex_deployments_def ex_daemonsets_def ex_gvk_def ex_daemonset_gvk_def
      tracked_kind_def doc_lib_def excludedGVKs_def gvk_key_def KeyForGroupVersionKind_def)

lemma ex_started_free:
  "agent_inv ex_started" "restMapper ex_started = Some ()" "uids_of (objectsCount ex_started) k = {}"
  "SafeMap_Get (informers ex_started) (gvk_key ex_gvk) = None"
proof -
  show "agent_inv ex_started" using ex_started_settled by (simp add: settled_def sys_invD)
  show "restMapper ex_started = Some ()" using ex_started_settled by (simp add: settled_def)
  show u: "uids_of (objectsCount ex_started) k = {}" for k by (simp add: ex_started_def new_agent_def)
  have "gvk_key ex_gvk \<noteq> amw_key"
    by (simp add: gvk_key_def ex_gvk_def KeyForGroupVersionKind_def amw_key_def workv1_Group_def)
  then show "SafeMap_Get (informers ex_started) (gvk_key ex_gvk) = None"
    using ex_started_settled u unfolding settled_def single_inv_def by blast
qed

theorem concurrent_starts_lose_informer_witness:
  "\<exists>t. (conc_step cl_env)\<^sup>*\<^sup>* (conc_tasks [([ex_deployments], [''u1'']), ([ex_deployments], [''u2''])] [], ex_started) ([Task_Done, Task_Done], t) \<and>
     uids_of (objectsCount t) (gvk_key ex_gvk) = {''u1'', ''u2''} \<and> SafeMap_Get (informers t) (gvk_key ex_gvk) = None"
  using concurrent_starts_lose_informer [OF ex_stable ex_started_free(1) ex_kinds(3,3) ex_started_free(3,4), of "''u1''" "''u2''"]
  by simp

theorem concurrent_stops_panic_witness:
  "\<exists>s c. uids_of (objectsCount s) (gvk_key ex_gvk) = {''u1'', ''u2''} \<and>
     (conc_step cl_env)\<^sup>*\<^sup>* (conc_tasks [] [\<lparr>ObjectUIDs = [''u1''], GVRs = [ex_deployments]\<rparr>, \<lparr>ObjectUIDs = [''u2''], GVRs = [ex_deployments]\<rparr>], s) c \<and>
     conc_panics cl_env c"
proof -
  let ?s = "track_object ex_deployments ex_gvk ''u2'' (track_object ex_deployments ex_gvk ''u1'' ex_started)"
  have inv: "agent_inv ?s" "restMapper ?s = Some ()" using ex_started_free by (auto intro: track_object_agent_inv)
  have u: "uids_of (objectsCount ?s) (gvk_key ex_gvk) = {''u1'', ''u2''}" using ex_started_free(3) by (simp add: insert_commute)
  have k: "KindFor cl_env () ex_deployments = Inr ex_gvk" using ex_kinds(1) by simp
  show ?thesis using concurrent_stops_panic [OF ex_stable inv k k u] u by blast
qed

theorem different_kinds_safe_witness:
  "\<exists>ts t. (conc_step cl_env)\<^sup>*\<^sup>* (conc_tasks [([ex_deployments], [''u1'']), ([ex_daemonsets], [''u2''])] [], ex_started) (ts, t) \<and>
     conc_done (ts, t) \<and> agent_inv t \<and> uids_of (objectsCount t) (gvk_key ex_gvk) = {''u1''}"
proof -
  let ?starts = "[([ex_deployments], [''u1'']), ([ex_daemonsets], [''u2''])]"
  have ok: "tasks_ok cl_env () ?starts []" by (simp add: tasks_ok_def knows_def ex_kinds)
  have apart: "keys_apart cl_env () (conc_tasks ?starts [])"
    using ex_kinds(4) by (simp add: keys_apart_def conc_tasks_def start_task_def task_keys_def task_key_def kind_keys_Cons ex_kinds)
  note safe = different_kinds_safe [OF ex_stable ex_started_free(1,2) ok apart]
  obtain ts t where t: "(conc_step cl_env)\<^sup>*\<^sup>* (conc_tasks ?starts [], ex_started) (ts, t)"
    and "conc_done (ts, t) \<or> conc_panics cl_env (ts, t)" using conc_completes by blast
  with safe [OF t] have d: "conc_done (ts, t)" "agent_inv t"
    "uids_of (objectsCount t) (gvk_key ex_gvk) = conc_goal cl_env () ?starts [] (objectsCount ex_started) (gvk_key ex_gvk)" by blast+
  have "uids_for cl_env () [(''u2'', ex_daemonsets)] (gvk_key ex_gvk) = {}"
    using ex_kinds(2,4) by (auto simp: uids_for_Cons tracked_kind_def split: option.splits if_splits)
  then have "uids_of (objectsCount t) (gvk_key ex_gvk) = {''u1''}"
    using d(3) ex_started_free(3) ex_kinds(3) by (simp add: conc_goal_def uids_for_Cons)
  with t d show ?thesis by blast
qed

end
