(* ===== verification/Deepcopy.thy ===== *)
theory Deepcopy
  imports K8s
begin

text \<open>
  The API types of api/v1alpha1 as they lie in memory, and their generated deep copies
  (api/v1alpha1/zz_generated.deepcopy.go). The other theories take a WorkStatus for a value, as if
  two of them never shared a map or an array; this theory shows that the code which client-go relies on
  for this, the methods \<^verbatim>\<open>DeepCopyInto\<close>, \<^verbatim>\<open>DeepCopy\<close> and \<^verbatim>\<open>DeepCopyObject\<close>, does separate them.

  Memory is a map from addresses to cells, with a limit below which addresses are in use. A method
  \<^verbatim>\<open>in.DeepCopyInto(out)\<close> is a function of the values that \<^verbatim>\<open>*in\<close> and \<^verbatim>\<open>*out\<close> have before it, and gives
  the value that \<^verbatim>\<open>*out\<close> has after it and the new memory. The struct types of apimachinery that the
  API types embed (\<^verbatim>\<open>ObjectMeta\<close>, \<^verbatim>\<open>ListMeta\<close>, \<^verbatim>\<open>Time\<close>, \<^verbatim>\<open>RawExtension\<close>) are type parameters, and their
  own copy methods are arguments (\<open>deep_lib\<close>). The locale \<open>deep_copy\<close> is the contract of a copy
  method; it is assumed of those four and shown for the generated ones.
\<close>

section \<open>Memory\<close>

record 'c mem =
  mem_next :: nat
  mem_cells :: "nat \<Rightarrow> 'c option"

definition fresh_mem :: "'c mem \<Rightarrow> bool" where
  "fresh_mem m \<longleftrightarrow> (\<forall>a \<ge> mem_next m. mem_cells m a = None)"

definition extends :: "'c mem \<Rightarrow> 'c mem \<Rightarrow> bool" where
  "extends m m' \<longleftrightarrow> mem_next m \<le> mem_next m' \<and> (\<forall>a < mem_next m. mem_cells m' a = mem_cells m a)"

definition same_on :: "nat set \<Rightarrow> 'c mem \<Rightarrow> 'c mem \<Rightarrow> bool" where
  "same_on A m m' \<longleftrightarrow> (\<forall>a \<in> A. mem_cells m' a = mem_cells m a)"

text \<open>\<^verbatim>\<open>new\<close> and \<^verbatim>\<open>make\<close> take the next address; an assignment through a pointer changes one cell.\<close>

definition mem_alloc :: "'c \<Rightarrow> 'c mem \<Rightarrow> nat \<times> 'c mem" where
  "mem_alloc c m = (mem_next m, m\<lparr>mem_next := Suc (mem_next m), mem_cells := (mem_cells m)(mem_next m \<mapsto> c)\<rparr>)"

definition mem_store :: "nat \<Rightarrow> 'c \<Rightarrow> 'c mem \<Rightarrow> 'c mem" where
  "mem_store a c m = m\<lparr>mem_cells := (mem_cells m)(a \<mapsto> c)\<rparr>"

lemma extends_refl [simp]: "extends m m"
  by (simp add: extends_def)

lemma extends_trans [trans]: "extends m1 m2 \<Longrightarrow> extends m2 m3 \<Longrightarrow> extends m1 m3"
  by (simp add: extends_def)

lemma extends_next: "extends m m' \<Longrightarrow> mem_next m \<le> mem_next m'"
  by (simp add: extends_def)

lemma fresh_dom: "fresh_mem m \<Longrightarrow> dom (mem_cells m) \<subseteq> {..<mem_next m}"
  by (auto simp: fresh_mem_def not_le [symmetric])

lemma extends_same_on: "fresh_mem m \<Longrightarrow> extends m m' \<Longrightarrow> A \<subseteq> dom (mem_cells m) \<Longrightarrow> same_on A m m'"
  using fresh_dom [of m] by (auto simp: extends_def same_on_def)

lemma alloc_extends: "extends m (snd (mem_alloc c m))" "fresh_mem m \<Longrightarrow> fresh_mem (snd (mem_alloc c m))"
  by (simp_all add: mem_alloc_def extends_def fresh_mem_def)

lemma store_extends: "mem_next m \<le> a \<Longrightarrow> extends m m' \<Longrightarrow> extends m (mem_store a c m')"
  by (auto simp: mem_store_def extends_def)

lemma store_fresh: "fresh_mem m \<Longrightarrow> a < mem_next m \<Longrightarrow> fresh_mem (mem_store a c m)"
  by (auto simp: mem_store_def fresh_mem_def)

lemma store_same_on: "a \<notin> A \<Longrightarrow> same_on A m (mem_store a c m)"
  by (auto simp: mem_store_def same_on_def)

lemma mem_store_simps [simp]: "mem_cells (mem_store a c m) a = Some c" "mem_next (mem_store a c m) = mem_next m"
  "b \<noteq> a \<Longrightarrow> mem_cells (mem_store a c m) b = mem_cells m b"
  by (simp_all add: mem_store_def)

section \<open>The contract of a copy method\<close>

text \<open>
  How the values of a type are read: \<open>v_typed\<close> holds if the memory has a cell of the right type at
  each address the value leads to, \<open>v_foot\<close> are these addresses, and \<open>v_denote\<close> is the value with every
  reference replaced by what it leads to.
\<close>

record ('c, 'v, 'x) view =
  v_typed :: "'c mem \<Rightarrow> 'v \<Rightarrow> bool"
  v_foot :: "'c mem \<Rightarrow> 'v \<Rightarrow> nat set"
  v_denote :: "'c mem \<Rightarrow> 'v \<Rightarrow> 'x"

type_synonym ('c, 'v) copy_fun = "'v \<Rightarrow> 'v \<Rightarrow> 'c mem \<Rightarrow> ('v \<times> 'c mem) outcome"

text \<open>What a copy of \<open>v\<close> made in the memory \<open>m\<close> is: typed, equal in value, and all in new memory.\<close>

definition copied :: "('c, 'v, 'x) view \<Rightarrow> 'c mem \<Rightarrow> 'v \<Rightarrow> 'c mem \<Rightarrow> 'v \<Rightarrow> bool" where
  "copied V m v m' v' \<longleftrightarrow> fresh_mem m' \<and> extends m m' \<and> v_typed V m' v' \<and> v_denote V m' v' = v_denote V m v \<and>
     v_foot V m' v' \<subseteq> {mem_next m..<mem_next m'}"

lemma copied_earlier:
  assumes "copied V m1 v m2 u" "extends m m1" "v_denote V m1 v = v_denote V m v"
  shows "copied V m v m2 u"
proof -
  have "{mem_next m1..<mem_next m2} \<subseteq> {mem_next m..<mem_next m2}" using extends_next [OF assms(2)] by auto
  moreover have "v_foot V m2 u \<subseteq> {mem_next m1..<mem_next m2}" "extends m m2"
    using assms(1) extends_trans [OF assms(2), of m2] by (simp_all add: copied_def)
  ultimately show ?thesis using assms(1,3) by (auto simp: copied_def)
qed

locale deep_copy =
  fixes V :: "('c, 'v, 'x) view" and copy :: "('c, 'v) copy_fun"
  assumes foot_dom: "v_typed V m v \<Longrightarrow> v_foot V m v \<subseteq> dom (mem_cells m)"
    and local: "v_typed V m v \<Longrightarrow> same_on (v_foot V m v) m m' \<Longrightarrow>
      v_typed V m' v \<and> v_foot V m' v = v_foot V m v \<and> v_denote V m' v = v_denote V m v"
    and copies: "fresh_mem m \<Longrightarrow> v_typed V m v \<Longrightarrow> \<exists>v' m'. copy v out m = Ret (v', m') \<and> copied V m v m' v'"
begin

lemma kept:
  assumes "fresh_mem m" "extends m m'" "v_typed V m v"
  shows "v_typed V m' v \<and> v_foot V m' v = v_foot V m v \<and> v_denote V m' v = v_denote V m v"
  using local [OF assms(3)] extends_same_on [OF assms(1,2) foot_dom [OF assms(3)]] .

lemma foot_below: "fresh_mem m \<Longrightarrow> v_typed V m v \<Longrightarrow> v_foot V m v \<subseteq> {..<mem_next m}"
  using foot_dom [of m v] fresh_dom [of m] by blast

lemma apart:
  assumes "fresh_mem m" "v_typed V m v" "copied V m v m' v'"
  shows "v_foot V m' v' \<inter> v_foot V m' v = {}"
proof -
  have "extends m m'" "v_foot V m' v' \<subseteq> {mem_next m..<mem_next m'}" using assms(3) by (simp_all add: copied_def)
  moreover from kept [OF assms(1) this(1) assms(2)] have "v_foot V m' v \<subseteq> {..<mem_next m}" using foot_below [OF assms(1,2)] by simp
  moreover have "{mem_next m..<mem_next m'} \<inter> {..<mem_next m} = {}" by auto
  ultimately show ?thesis by blast
qed

text \<open>Writes to the memory of one of the two leave the value of the other.\<close>

lemma independent:
  assumes "fresh_mem m" "v_typed V m v" "copied V m v m' v'"
  shows "same_on (- v_foot V m' v') m' m2 \<Longrightarrow> v_denote V m2 v = v_denote V m v"
    and "same_on (- v_foot V m' v) m' m2 \<Longrightarrow> v_denote V m2 v' = v_denote V m v"
proof -
  have v: "v_typed V m' v" "v_denote V m' v = v_denote V m v"
    using kept [OF assms(1) _ assms(2), of m'] assms(3) by (simp_all add: copied_def)
  have v': "v_typed V m' v'" "v_denote V m' v' = v_denote V m v" using assms(3) by (auto simp: copied_def)
  note dis = apart [OF assms]
  have sub: "same_on (v_foot V m' v) m' m2" if "same_on (- v_foot V m' v') m' m2" using that dis unfolding same_on_def by blast
  have sub': "same_on (v_foot V m' v') m' m2" if "same_on (- v_foot V m' v) m' m2" using that dis unfolding same_on_def by blast
  show "v_denote V m2 v = v_denote V m v" if "same_on (- v_foot V m' v') m' m2"
    using local [OF v(1) sub [OF that]] v(2) by simp
  show "v_denote V m2 v' = v_denote V m v" if "same_on (- v_foot V m' v) m' m2"
    using local [OF v'(1) sub' [OF that]] v'(2) by simp
qed

text \<open>A second copy leaves the first one as it is, and can be made as if from the memory before the first.\<close>

lemma copied_kept:
  assumes "copied V m v m1 v1" "extends m1 m2" "fresh_mem m2"
  shows "copied V m v m2 v1"
proof -
  have c: "fresh_mem m1" "extends m m1" "v_typed V m1 v1" "v_denote V m1 v1 = v_denote V m v"
    "v_foot V m1 v1 \<subseteq> {mem_next m..<mem_next m1}"
    using assms(1) by (simp_all add: copied_def)
  have "{mem_next m..<mem_next m1} \<subseteq> {mem_next m..<mem_next m2}" using extends_next [OF assms(2)] by auto
  with c(5) have "v_foot V m1 v1 \<subseteq> {mem_next m..<mem_next m2}" by (rule subset_trans)
  with kept [OF c(1) assms(2) c(3)] c assms(3) extends_trans [OF c(2) assms(2)] show ?thesis
    by (simp add: copied_def)
qed

lemma copies_after:
  assumes "fresh_mem m" "v_typed V m v" "extends m m1" "fresh_mem m1"
  shows "\<exists>v' m2. copy v out m1 = Ret (v', m2) \<and> copied V m v m2 v' \<and> extends m1 m2 \<and> v_foot V m2 v' \<subseteq> {mem_next m1..<mem_next m2}"
proof -
  note k = kept [OF assms(1,3,2)]
  obtain v' m2 where c: "copy v out m1 = Ret (v', m2)" "copied V m1 v m2 v'" using copies [OF assms(4)] k by blast
  have "copied V m v m2 v'" using copied_earlier [OF c(2) assms(3)] k by simp
  with c show ?thesis by (auto simp: copied_def)
qed

text \<open>An assignment to a new cell that is not part of a copy leaves the copy as it is.\<close>

lemma copied_store:
  assumes "copied V m v m1 u" "a \<notin> v_foot V m1 u" "mem_next m \<le> a" "a < mem_next m1"
  shows "copied V m v (mem_store a c m1) u \<and> v_foot V (mem_store a c m1) u = v_foot V m1 u"
proof -
  have u: "v_typed V m1 u" "fresh_mem m1" "extends m m1" using assms(1) by (simp_all add: copied_def)
  note l = local [OF u(1) store_same_on [OF assms(2), of m1 c]]
  have "fresh_mem (mem_store a c m1)" "extends m (mem_store a c m1)"
    using store_fresh [OF u(2) assms(4)] store_extends [OF assms(3) u(3)] .
  with l assms(1) show ?thesis by (simp add: copied_def)
qed

end

section \<open>Definitions\<close>

text \<open>
  The structs of workstatus_types.go as they lie in memory. \<open>SourceRef\<close> and \<open>WorkStatusSpec\<close> hold strings
  only, which are immutable in Go, and are the records of the other theories. A slice is an array with an
  offset and a length, or nil.
\<close>

record TypeMeta =
  tm_Kind :: string
  tm_APIVersion :: string

record 'tm StatusDetails_mem =
  sd_LastGeneration :: int
  sd_LastGenerationIsApplied :: bool
  sd_LastCurrencyUpdateTime :: 'tm

record 're RawStatus_mem =
  rs_RawExtension :: 're

record ('om, 're, 'tm) WorkStatus_mem =
  wm_TypeMeta :: TypeMeta
  wm_ObjectMeta :: 'om
  wm_Spec :: WorkStatusSpec
  wm_Status :: "'re RawStatus_mem"
  wm_StatusDetails :: "'tm StatusDetails_mem"

record slice =
  sl_array :: nat
  sl_offset :: nat
  sl_len :: nat

record 'lm WorkStatusList_mem =
  wl_TypeMeta :: TypeMeta
  wl_ListMeta :: 'lm
  wl_Items :: "slice option"

datatype ('b, 'om, 're, 'tm, 'lm) cell =
    LibCell (the_LibCell: 'b)
  | RawStatusCell (the_RawStatus: "'re RawStatus_mem")
  | SourceRefCell (the_SourceRef: SourceRef)
  | StatusDetailsCell (the_StatusDetails: "'tm StatusDetails_mem")
  | WorkStatusCell (the_WorkStatus: "('om, 're, 'tm) WorkStatus_mem")
  | WorkStatusListCell (the_WorkStatusList: "'lm WorkStatusList_mem")
  | WorkStatusSpecCell (the_WorkStatusSpec: WorkStatusSpec)
  | ItemsCell (the_Items: "('om, 're, 'tm) WorkStatus_mem list")

text \<open>The copy methods of apimachinery, and the zero values of its types.\<close>

record ('b, 'om, 're, 'tm, 'lm) deep_lib =
  ObjectMeta_DeepCopyInto :: "(('b, 'om, 're, 'tm, 'lm) cell, 'om) copy_fun"
  RawExtension_DeepCopyInto :: "(('b, 'om, 're, 'tm, 'lm) cell, 're) copy_fun"
  Time_DeepCopyInto :: "(('b, 'om, 're, 'tm, 'lm) cell, 'tm) copy_fun"
  ListMeta_DeepCopyInto :: "(('b, 'om, 're, 'tm, 'lm) cell, 'lm) copy_fun"
  zero_ObjectMeta :: 'om
  zero_RawExtension :: 're
  zero_Time :: 'tm
  zero_ListMeta :: 'lm

subsection \<open>DeepCopyInto\<close>

text \<open>Each begins with \<^verbatim>\<open>*out = *in\<close>, after which \<^verbatim>\<open>*out\<close> shares all references with \<^verbatim>\<open>*in\<close>.\<close>

definition RawStatus_DeepCopyInto ::
    "('b, 'om, 're, 'tm, 'lm) deep_lib \<Rightarrow> (('b, 'om, 're, 'tm, 'lm) cell, 're RawStatus_mem) copy_fun" where
  "RawStatus_DeepCopyInto L inn out m =
     (let out = inn in
      bindO (RawExtension_DeepCopyInto L (rs_RawExtension inn) (rs_RawExtension out) m) (\<lambda>(raw, m).
      Ret (out\<lparr>rs_RawExtension := raw\<rparr>, m)))"

definition SourceRef_DeepCopyInto :: "('c, SourceRef) copy_fun" where
  "SourceRef_DeepCopyInto inn out m = (let out = inn in Ret (out, m))"

definition StatusDetails_DeepCopyInto ::
    "('b, 'om, 're, 'tm, 'lm) deep_lib \<Rightarrow> (('b, 'om, 're, 'tm, 'lm) cell, 'tm StatusDetails_mem) copy_fun" where
  "StatusDetails_DeepCopyInto L inn out m =
     (let out = inn in
      bindO (Time_DeepCopyInto L (sd_LastCurrencyUpdateTime inn) (sd_LastCurrencyUpdateTime out) m) (\<lambda>(t, m).
      Ret (out\<lparr>sd_LastCurrencyUpdateTime := t\<rparr>, m)))"

definition WorkStatusSpec_DeepCopyInto :: "('c, WorkStatusSpec) copy_fun" where
  "WorkStatusSpec_DeepCopyInto inn out m =
     (let out = inn; out = out\<lparr>ws_SourceRef := ws_SourceRef inn\<rparr> in Ret (out, m))"

definition WorkStatus_DeepCopyInto ::
    "('b, 'om, 're, 'tm, 'lm) deep_lib \<Rightarrow> (('b, 'om, 're, 'tm, 'lm) cell, ('om, 're, 'tm) WorkStatus_mem) copy_fun" where
  "WorkStatus_DeepCopyInto L inn out m =
     (let out = inn;
          out = out\<lparr>wm_TypeMeta := wm_TypeMeta inn\<rparr> in
      bindO (ObjectMeta_DeepCopyInto L (wm_ObjectMeta inn) (wm_ObjectMeta out) m) (\<lambda>(meta, m).
      let out = out\<lparr>wm_ObjectMeta := meta\<rparr>;
          out = out\<lparr>wm_Spec := wm_Spec inn\<rparr> in
      bindO (RawStatus_DeepCopyInto L (wm_Status inn) (wm_Status out) m) (\<lambda>(status, m).
      let out = out\<lparr>wm_Status := status\<rparr> in
      bindO (StatusDetails_DeepCopyInto L (wm_StatusDetails inn) (wm_StatusDetails out) m) (\<lambda>(details, m).
      Ret (out\<lparr>wm_StatusDetails := details\<rparr>, m)))))"

text \<open>
  The copy of the items: \<^verbatim>\<open>(*in)[i].DeepCopyInto(&(*out)[i])\<close> for each index of the old slice. Reading a
  cell of another type cannot happen in Go; here it is a panic, like an index out of range.
\<close>

fun items_loop :: "('b, 'om, 're, 'tm, 'lm) deep_lib \<Rightarrow> slice \<Rightarrow> slice \<Rightarrow> nat list \<Rightarrow> ('b, 'om, 're, 'tm, 'lm) cell mem \<Rightarrow>
    ('b, 'om, 're, 'tm, 'lm) cell mem outcome" where
  "items_loop L inn out [] m = Ret m"
| "items_loop L inn out (i # is) m =
     (case (mem_cells m (sl_array inn), mem_cells m (sl_array out)) of
        (Some (ItemsCell ws), Some (ItemsCell us)) \<Rightarrow>
          if sl_offset inn + i < length ws \<and> sl_offset out + i < length us then
            bindO (WorkStatus_DeepCopyInto L (ws ! (sl_offset inn + i)) (us ! (sl_offset out + i)) m) (\<lambda>(u, m).
            items_loop L inn out is (mem_store (sl_array out) (ItemsCell (us[sl_offset out + i := u])) m))
          else Panic ''index out of range''
      | _ \<Rightarrow> Panic ''invalid memory'')"

definition zero_TypeMeta :: TypeMeta where
  "zero_TypeMeta = \<lparr>tm_Kind = '''', tm_APIVersion = ''''\<rparr>"

definition zero_RawStatus_mem :: "('b, 'om, 're, 'tm, 'lm) deep_lib \<Rightarrow> 're RawStatus_mem" where
  "zero_RawStatus_mem L = \<lparr>rs_RawExtension = zero_RawExtension L\<rparr>"

definition zero_StatusDetails_mem :: "('b, 'om, 're, 'tm, 'lm) deep_lib \<Rightarrow> 'tm StatusDetails_mem" where
  "zero_StatusDetails_mem L = \<lparr>sd_LastGeneration = 0, sd_LastGenerationIsApplied = False, sd_LastCurrencyUpdateTime = zero_Time L\<rparr>"

definition zero_WorkStatus_mem :: "('b, 'om, 're, 'tm, 'lm) deep_lib \<Rightarrow> ('om, 're, 'tm) WorkStatus_mem" where
  "zero_WorkStatus_mem L = \<lparr>wm_TypeMeta = zero_TypeMeta, wm_ObjectMeta = zero_ObjectMeta L, wm_Spec = \<lparr>ws_SourceRef = zero_SourceRef\<rparr>,
     wm_Status = zero_RawStatus_mem L, wm_StatusDetails = zero_StatusDetails_mem L\<rparr>"

text \<open>The body of \<^verbatim>\<open>if in.Items != nil\<close>: \<^verbatim>\<open>make\<close>, and the loop.\<close>

definition copy_items :: "('b, 'om, 're, 'tm, 'lm) deep_lib \<Rightarrow> slice \<Rightarrow> ('b, 'om, 're, 'tm, 'lm) cell mem \<Rightarrow>
    (slice \<times> ('b, 'om, 're, 'tm, 'lm) cell mem) outcome" where
  "copy_items L inn m =
     (case mem_alloc (ItemsCell (replicate (sl_len inn) (zero_WorkStatus_mem L))) m of
        (a, m) \<Rightarrow>
          let out = \<lparr>sl_array = a, sl_offset = 0, sl_len = sl_len inn\<rparr> in
          bindO (items_loop L inn out [0..<sl_len inn] m) (\<lambda>m. Ret (out, m)))"

definition zero_WorkStatusList_mem :: "('b, 'om, 're, 'tm, 'lm) deep_lib \<Rightarrow> 'lm WorkStatusList_mem" where
  "zero_WorkStatusList_mem L = \<lparr>wl_TypeMeta = zero_TypeMeta, wl_ListMeta = zero_ListMeta L, wl_Items = None\<rparr>"

definition WorkStatusList_DeepCopyInto ::
    "('b, 'om, 're, 'tm, 'lm) deep_lib \<Rightarrow> (('b, 'om, 're, 'tm, 'lm) cell, 'lm WorkStatusList_mem) copy_fun" where
  "WorkStatusList_DeepCopyInto L inn out m =
     (let out = inn;
          out = out\<lparr>wl_TypeMeta := wl_TypeMeta inn\<rparr> in
      bindO (ListMeta_DeepCopyInto L (wl_ListMeta inn) (wl_ListMeta out) m) (\<lambda>(meta, m).
      let out = out\<lparr>wl_ListMeta := meta\<rparr> in
      case wl_Items inn of
        None \<Rightarrow> Ret (out, m)
      | Some items \<Rightarrow> bindO (copy_items L items m) (\<lambda>(new, m). Ret (out\<lparr>wl_Items := Some new\<rparr>, m))))"

subsection \<open>DeepCopy and DeepCopyObject\<close>

text \<open>
  The six methods \<^verbatim>\<open>DeepCopy\<close> have the same text, for a type with the cells \<open>mk\<close>, read by \<open>sel\<close>: nil for nil,
  otherwise a new zero value into which the old one is copied. A pointer is an address or nil.
\<close>

type_synonym 'c ptr_copy = "nat option \<Rightarrow> 'c mem \<Rightarrow> (nat option \<times> 'c mem) outcome"

definition load :: "('c \<Rightarrow> 'v) \<Rightarrow> ('v \<Rightarrow> 'c) \<Rightarrow> 'c mem \<Rightarrow> nat \<Rightarrow> 'v option" where
  "load sel mk m a = (case mem_cells m a of Some c \<Rightarrow> if mk (sel c) = c then Some (sel c) else None | None \<Rightarrow> None)"

definition DeepCopy_of :: "('v \<Rightarrow> 'c) \<Rightarrow> ('c \<Rightarrow> 'v) \<Rightarrow> 'v \<Rightarrow> ('c, 'v) copy_fun \<Rightarrow> 'c ptr_copy" where
  "DeepCopy_of mk sel zero DeepCopyInto inn m =
     (case inn of
        None \<Rightarrow> Ret (None, m)
      | Some p \<Rightarrow>
          (case mem_alloc (mk zero) m of
             (out, m) \<Rightarrow>
               (case load sel mk m p of
                  None \<Rightarrow> Panic ''invalid memory''
                | Some v \<Rightarrow> bindO (DeepCopyInto v zero m) (\<lambda>(v', m). Ret (Some out, mem_store out (mk v') m)))))"

definition RawStatus_DeepCopy :: "('b, 'om, 're, 'tm, 'lm) deep_lib \<Rightarrow> ('b, 'om, 're, 'tm, 'lm) cell ptr_copy" where
  "RawStatus_DeepCopy L = DeepCopy_of RawStatusCell the_RawStatus (zero_RawStatus_mem L) (RawStatus_DeepCopyInto L)"

definition SourceRef_DeepCopy :: "('b, 'om, 're, 'tm, 'lm) cell ptr_copy" where
  "SourceRef_DeepCopy = DeepCopy_of SourceRefCell the_SourceRef zero_SourceRef SourceRef_DeepCopyInto"

definition StatusDetails_DeepCopy :: "('b, 'om, 're, 'tm, 'lm) deep_lib \<Rightarrow> ('b, 'om, 're, 'tm, 'lm) cell ptr_copy" where
  "StatusDetails_DeepCopy L =
  DeepCopy_of StatusDetailsCell the_StatusDetails (zero_StatusDetails_mem L) (StatusDetails_DeepCopyInto L)"

definition WorkStatus_DeepCopy :: "('b, 'om, 're, 'tm, 'lm) deep_lib \<Rightarrow> ('b, 'om, 're, 'tm, 'lm) cell ptr_copy" where
  "WorkStatus_DeepCopy L = DeepCopy_of WorkStatusCell the_WorkStatus (zero_WorkStatus_mem L) (WorkStatus_DeepCopyInto L)"

definition WorkStatusList_DeepCopy :: "('b, 'om, 're, 'tm, 'lm) deep_lib \<Rightarrow> ('b, 'om, 're, 'tm, 'lm) cell ptr_copy" where
  "WorkStatusList_DeepCopy L =
  DeepCopy_of WorkStatusListCell the_WorkStatusList (zero_WorkStatusList_mem L) (WorkStatusList_DeepCopyInto L)"

definition WorkStatusSpec_DeepCopy :: "('b, 'om, 're, 'tm, 'lm) cell ptr_copy" where
  "WorkStatusSpec_DeepCopy =
  DeepCopy_of WorkStatusSpecCell the_WorkStatusSpec \<lparr>ws_SourceRef = zero_SourceRef\<rparr> WorkStatusSpec_DeepCopyInto"

text \<open>
  An interface value of type \<^verbatim>\<open>runtime.Object\<close>: nil, or a dynamic type with a pointer. A nil pointer inside
  an interface value makes it different from nil, which the two methods avoid.
\<close>

datatype iface = Iface_WorkStatus "nat option" | Iface_WorkStatusList "nat option"

definition WorkStatus_DeepCopyObject :: "('b, 'om, 're, 'tm, 'lm) deep_lib \<Rightarrow> nat option \<Rightarrow> ('b, 'om, 're, 'tm, 'lm) cell mem \<Rightarrow>
    (iface option \<times> ('b, 'om, 're, 'tm, 'lm) cell mem) outcome" where
  "WorkStatus_DeepCopyObject L inn m =
     bindO (WorkStatus_DeepCopy L inn m) (\<lambda>(c, m). if c \<noteq> None then Ret (Some (Iface_WorkStatus c), m) else Ret (None, m))"

definition WorkStatusList_DeepCopyObject :: "('b, 'om, 're, 'tm, 'lm) deep_lib \<Rightarrow> nat option \<Rightarrow> ('b, 'om, 're, 'tm, 'lm) cell mem \<Rightarrow>
    (iface option \<times> ('b, 'om, 're, 'tm, 'lm) cell mem) outcome" where
  "WorkStatusList_DeepCopyObject L inn m =
     bindO (WorkStatusList_DeepCopy L inn m) (\<lambda>(c, m). if c \<noteq> None then Ret (Some (Iface_WorkStatusList c), m) else Ret (None, m))"

subsection \<open>Registration of the types\<close>

text \<open>
  groupversion_info.go and the function \<^verbatim>\<open>init\<close> of workstatus_types.go: the group and version of the types, and the
  builder with which the two types that are objects are registered. The builder and the scheme are
  controller-runtime's and apimachinery's, so they are a parameter.
\<close>

record schema_GroupVersion =
  gv_Group :: string
  gv_Version :: string

record ('bd, 'sc) scheme_lib =
  new_Builder :: "schema_GroupVersion \<Rightarrow> 'bd"
  Builder_Register :: "iface list \<Rightarrow> 'bd \<Rightarrow> 'bd"
  Builder_AddToScheme :: "'bd \<Rightarrow> 'sc \<Rightarrow> go_error option \<times> 'sc"

definition GroupVersion :: schema_GroupVersion where
  "GroupVersion = \<lparr>gv_Group = ''control.kubestellar.io'', gv_Version = ''v1alpha1''\<rparr>"

definition SchemeBuilder :: "('bd, 'sc) scheme_lib \<Rightarrow> 'bd" where
  "SchemeBuilder S = new_Builder S GroupVersion"

definition api_init :: "('b, 'om, 're, 'tm, 'lm) deep_lib \<Rightarrow> ('bd, 'sc) scheme_lib \<Rightarrow> 'bd \<Rightarrow> ('b, 'om, 're, 'tm, 'lm) cell mem \<Rightarrow>
    'bd \<times> ('b, 'om, 're, 'tm, 'lm) cell mem" where
  "api_init L S builder m =
     (case mem_alloc (WorkStatusCell (zero_WorkStatus_mem L)) m of
        (ws, m) \<Rightarrow>
          (case mem_alloc (WorkStatusListCell (zero_WorkStatusList_mem L)) m of
             (wsl, m) \<Rightarrow> (Builder_Register S [Iface_WorkStatus (Some ws), Iface_WorkStatusList (Some wsl)] builder, m)))"

definition AddToScheme :: "('bd, 'sc) scheme_lib \<Rightarrow> 'bd \<Rightarrow> 'sc \<Rightarrow> go_error option \<times> 'sc" where
  "AddToScheme S builder = Builder_AddToScheme S builder"

text \<open>
  Documented: a builder adds the objects registered with it under its group and version, the name of the Go
  type as their kind, and keeps what the scheme knows. \<open>kinds\<close> are the kinds that a scheme knows.
\<close>

fun go_type :: "iface \<Rightarrow> string" where
  "go_type (Iface_WorkStatus p) = ''WorkStatus''"
| "go_type (Iface_WorkStatusList p) = ''WorkStatusList''"

definition builder_doc :: "('bd, 'sc) scheme_lib \<Rightarrow> ('sc \<Rightarrow> (schema_GroupVersion \<times> string) set) \<Rightarrow> bool" where
  "builder_doc S kinds \<longleftrightarrow> (\<forall>gv objs sc. \<exists>sc'. Builder_AddToScheme S (Builder_Register S objs (new_Builder S gv)) sc = (None, sc') \<and>
     kinds sc \<union> {(gv, go_type ob) | ob. ob \<in> set objs} \<subseteq> kinds sc')"

lemma AddToScheme_kinds:
  assumes "builder_doc S kinds"
  shows "\<exists>sc'. AddToScheme S (fst (api_init L S (SchemeBuilder S) m)) sc = (None, sc') \<and>
    kinds sc \<union> {(GroupVersion, ''WorkStatus''), (GroupVersion, ''WorkStatusList'')} \<subseteq> kinds sc'"
proof -
  let ?objs = "[Iface_WorkStatus (Some (mem_next m)), Iface_WorkStatusList (Some (Suc (mem_next m)))]"
  have init: "fst (api_init L S (SchemeBuilder S) m) = Builder_Register S ?objs (new_Builder S GroupVersion)"
    by (simp add: api_init_def SchemeBuilder_def mem_alloc_def)
  obtain sc' where sc': "Builder_AddToScheme S (Builder_Register S ?objs (new_Builder S GroupVersion)) sc = (None, sc')"
    "kinds sc \<union> {(GroupVersion, go_type ob) | ob. ob \<in> set ?objs} \<subseteq> kinds sc'"
    using assms [unfolded builder_doc_def, THEN spec [of _ GroupVersion], THEN spec [of _ ?objs], THEN spec [of _ sc]] by (elim exE conjE)
  have "{(GroupVersion, ''WorkStatus''), (GroupVersion, ''WorkStatusList'')} = (\<lambda>ob. (GroupVersion, go_type ob)) ` set ?objs" by simp
  also have "\<dots> \<subseteq> kinds sc'" using sc'(2) by blast
  finally show ?thesis using sc' unfolding init AddToScheme_def by (intro exI [of _ sc'] conjI Un_least) (assumption | rule le_supE [OF sc'(2)])+
qed

section \<open>The generated methods keep the contract\<close>

definition plain_view :: "('c, 'v, 'v) view" where
  "plain_view = \<lparr>v_typed = \<lambda>m v. True, v_foot = \<lambda>m v. {}, v_denote = \<lambda>m v. v\<rparr>"

definition raw_view :: "('c, 're, 'rv) view \<Rightarrow> ('c, 're RawStatus_mem, 'rv RawStatus_mem) view" where
  "raw_view R = \<lparr>v_typed = \<lambda>m r. v_typed R m (rs_RawExtension r), v_foot = \<lambda>m r. v_foot R m (rs_RawExtension r),
     v_denote = \<lambda>m r. \<lparr>rs_RawExtension = v_denote R m (rs_RawExtension r)\<rparr>\<rparr>"

definition details_view :: "('c, 'tm, 'tv) view \<Rightarrow> ('c, 'tm StatusDetails_mem, 'tv StatusDetails_mem) view" where
  "details_view T = \<lparr>v_typed = \<lambda>m d. v_typed T m (sd_LastCurrencyUpdateTime d), v_foot = \<lambda>m d. v_foot T m (sd_LastCurrencyUpdateTime d),
     v_denote = \<lambda>m d. \<lparr>sd_LastGeneration = sd_LastGeneration d, sd_LastGenerationIsApplied = sd_LastGenerationIsApplied d,
       sd_LastCurrencyUpdateTime = v_denote T m (sd_LastCurrencyUpdateTime d)\<rparr>\<rparr>"

definition status_view :: "('c, 'om, 'ov) view \<Rightarrow> ('c, 're, 'rv) view \<Rightarrow> ('c, 'tm, 'tv) view \<Rightarrow>
    ('c, ('om, 're, 'tm) WorkStatus_mem, ('ov, 'rv, 'tv) WorkStatus_mem) view" where
  "status_view O' R T =
     \<lparr>v_typed = \<lambda>m w. v_typed O' m (wm_ObjectMeta w) \<and> v_typed (raw_view R) m (wm_Status w) \<and> v_typed (details_view T) m (wm_StatusDetails w),
      v_foot = \<lambda>m w. v_foot O' m (wm_ObjectMeta w) \<union> v_foot (raw_view R) m (wm_Status w) \<union> v_foot (details_view T) m (wm_StatusDetails w),
      v_denote = \<lambda>m w. \<lparr>wm_TypeMeta = wm_TypeMeta w, wm_ObjectMeta = v_denote O' m (wm_ObjectMeta w), wm_Spec = wm_Spec w,
        wm_Status = v_denote (raw_view R) m (wm_Status w), wm_StatusDetails = v_denote (details_view T) m (wm_StatusDetails w)\<rparr>\<rparr>"

lemmas view_defs = plain_view_def raw_view_def details_view_def status_view_def

interpretation source_ref: deep_copy plain_view SourceRef_DeepCopyInto
  by unfold_locales (simp_all add: plain_view_def SourceRef_DeepCopyInto_def copied_def)

interpretation work_status_spec: deep_copy plain_view WorkStatusSpec_DeepCopyInto
  by unfold_locales (simp_all add: plain_view_def WorkStatusSpec_DeepCopyInto_def copied_def)

text \<open>A struct with one field that holds references: \<open>put\<close> sets the field, \<open>build\<close> is the value of the struct from that of the field.\<close>

lemma deep_copy_field:
  assumes "deep_copy V copy"
    and W: "\<And>m v. v_typed W m v = v_typed V m (get v)" "\<And>m v. v_foot W m v = v_foot V m (get v)"
      "\<And>m v. v_denote W m v = build v (v_denote V m (get v))"
    and into: "\<And>v out m. DeepCopyInto v out m = bindO (copy (get v) (get v) m) (\<lambda>(x, m). Ret (put x v, m))"
    and fld: "\<And>x v. get (put x v) = x" "\<And>x v. build (put x v) = build v"
  shows "deep_copy W DeepCopyInto"
proof unfold_locales
  fix m v
  show "v_foot W m v \<subseteq> dom (mem_cells m)" if "v_typed W m v"
    using that deep_copy.foot_dom [OF assms(1)] by (simp add: W)
  show "v_typed W m' v \<and> v_foot W m' v = v_foot W m v \<and> v_denote W m' v = v_denote W m v"
    if "v_typed W m v" "same_on (v_foot W m v) m m'" for m'
    using that deep_copy.local [OF assms(1), of m "get v" m'] by (simp add: W)
  show "\<exists>v' m'. DeepCopyInto v out m = Ret (v', m') \<and> copied W m v m' v'" if f: "fresh_mem m" and t: "v_typed W m v" for out
  proof -
    have "v_typed V m (get v)" using t by (simp add: W)
    then obtain x m' where "copy (get v) (get v) m = Ret (x, m')" "copied V m (get v) m' x"
      using deep_copy.copies [OF assms(1) f] by blast
    then show ?thesis by (simp add: into copied_def W fld)
  qed
qed

lemma RawStatus_copies: "deep_copy R (RawExtension_DeepCopyInto L) \<Longrightarrow> deep_copy (raw_view R) (RawStatus_DeepCopyInto L)"
  by (rule deep_copy_field [where copy = "RawExtension_DeepCopyInto L" and get = rs_RawExtension and put = "\<lambda>x v. v\<lparr>rs_RawExtension := x\<rparr>" and build = "\<lambda>v x. \<lparr>rs_RawExtension = x\<rparr>"])
    (simp_all add: raw_view_def RawStatus_DeepCopyInto_def Let_def)

lemma StatusDetails_copies: "deep_copy T (Time_DeepCopyInto L) \<Longrightarrow> deep_copy (details_view T) (StatusDetails_DeepCopyInto L)"
  by (rule deep_copy_field [where copy = "Time_DeepCopyInto L" and get = sd_LastCurrencyUpdateTime and put = "\<lambda>x v. v\<lparr>sd_LastCurrencyUpdateTime := x\<rparr>" and
        build = "\<lambda>v x. \<lparr>sd_LastGeneration = sd_LastGeneration v, sd_LastGenerationIsApplied = sd_LastGenerationIsApplied v,
          sd_LastCurrencyUpdateTime = x\<rparr>"])
    (simp_all add: details_view_def StatusDetails_DeepCopyInto_def Let_def)

lemma WorkStatus_copies:
  assumes "deep_copy O' (ObjectMeta_DeepCopyInto L)" "deep_copy R (RawExtension_DeepCopyInto L)" "deep_copy T (Time_DeepCopyInto L)"
  shows "deep_copy (status_view O' R T) (WorkStatus_DeepCopyInto L)"
proof -
  note om = assms(1) and re = RawStatus_copies [OF assms(2)] and tm = StatusDetails_copies [OF assms(3)]
  let ?V = "status_view O' R T" and ?R = "raw_view R" and ?T = "details_view T"
  show ?thesis
  proof unfold_locales
    fix m v
    show "v_foot ?V m v \<subseteq> dom (mem_cells m)" if "v_typed ?V m v"
      using that deep_copy.foot_dom [OF om] deep_copy.foot_dom [OF re] deep_copy.foot_dom [OF tm] by (simp add: status_view_def)
    show "v_typed ?V m' v \<and> v_foot ?V m' v = v_foot ?V m v \<and> v_denote ?V m' v = v_denote ?V m v"
      if "v_typed ?V m v" "same_on (v_foot ?V m v) m m'" for m'
    proof -
      have "same_on (v_foot O' m (wm_ObjectMeta v)) m m'" "same_on (v_foot ?R m (wm_Status v)) m m'"
        "same_on (v_foot ?T m (wm_StatusDetails v)) m m'"
        using that(2) by (simp_all add: status_view_def same_on_def)
      with that(1) deep_copy.local [OF om, of m _ m'] deep_copy.local [OF re, of m _ m'] deep_copy.local [OF tm, of m _ m']
      show ?thesis by (simp add: status_view_def)
    qed
    show "\<exists>v' m'. WorkStatus_DeepCopyInto L v out m = Ret (v', m') \<and> copied ?V m v m' v'"
      if f: "fresh_mem m" and "v_typed ?V m v" for out
    proof -
      have t: "v_typed O' m (wm_ObjectMeta v)" "v_typed ?R m (wm_Status v)" "v_typed ?T m (wm_StatusDetails v)"
        using that(2) by (simp_all add: status_view_def)
      obtain x m1 where 1: "ObjectMeta_DeepCopyInto L (wm_ObjectMeta v) (wm_ObjectMeta v) m = Ret (x, m1)" "copied O' m (wm_ObjectMeta v) m1 x"
        using deep_copy.copies [OF om f t(1)] by blast
      then have "extends m m1" "fresh_mem m1" by (simp_all add: copied_def)
      then obtain y m2 where 2: "RawStatus_DeepCopyInto L (wm_Status v) (wm_Status v) m1 = Ret (y, m2)" "copied ?R m (wm_Status v) m2 y" "extends m1 m2"
        using deep_copy.copies_after [OF re f t(2)] by blast
      then have "extends m m2" "fresh_mem m2" by (simp_all add: copied_def)
      then obtain z m3 where 3: "StatusDetails_DeepCopyInto L (wm_StatusDetails v) (wm_StatusDetails v) m2 = Ret (z, m3)"
        "copied ?T m (wm_StatusDetails v) m3 z" "extends m2 m3"
        using deep_copy.copies_after [OF tm f t(3)] by blast
      have f3: "fresh_mem m3" using 3(2) by (simp add: copied_def)
      have c: "copied O' m (wm_ObjectMeta v) m3 x" "copied ?R m (wm_Status v) m3 y"
        using deep_copy.copied_kept [OF om 1(2) extends_trans [OF 2(3) 3(3)] f3] deep_copy.copied_kept [OF re 2(2) 3(3) f3] .
      have "WorkStatus_DeepCopyInto L v out m = Ret (v\<lparr>wm_ObjectMeta := x, wm_Status := y, wm_StatusDetails := z\<rparr>, m3)"
        by (simp add: WorkStatus_DeepCopyInto_def Let_def 1(1) 2(1) 3(1))
      moreover have "copied ?V m v m3 (v\<lparr>wm_ObjectMeta := x, wm_Status := y, wm_StatusDetails := z\<rparr>)"
        using c 3(2) by (simp add: copied_def status_view_def)
      ultimately show ?thesis by blast
    qed
  qed
qed

definition items_view :: "(('b, 'om, 're, 'tm, 'lm) cell, ('om, 're, 'tm) WorkStatus_mem, 'x) view \<Rightarrow>
    (('b, 'om, 're, 'tm, 'lm) cell, slice option, 'x list option) view" where
  "items_view V =
     (let elems = (\<lambda>m s. case mem_cells m (sl_array s) of Some (ItemsCell ws) \<Rightarrow> take (sl_len s) (drop (sl_offset s) ws) | _ \<Rightarrow> [])
      in \<lparr>v_typed = \<lambda>m it. case it of None \<Rightarrow> True | Some s \<Rightarrow>
            (\<exists>ws. mem_cells m (sl_array s) = Some (ItemsCell ws) \<and> sl_offset s + sl_len s \<le> length ws) \<and>
            (\<forall>w \<in> set (elems m s). v_typed V m w),
          v_foot = \<lambda>m it. case it of None \<Rightarrow> {} | Some s \<Rightarrow> insert (sl_array s) (\<Union>w \<in> set (elems m s). v_foot V m w),
          v_denote = \<lambda>m it. map_option (\<lambda>s. map (v_denote V m) (elems m s)) it\<rparr>)"

definition list_view :: "(('b, 'om, 're, 'tm, 'lm) cell, 'lm, 'lv) view \<Rightarrow>
    (('b, 'om, 're, 'tm, 'lm) cell, ('om, 're, 'tm) WorkStatus_mem, 'x) view \<Rightarrow>
    (('b, 'om, 're, 'tm, 'lm) cell, 'lm WorkStatusList_mem, TypeMeta \<times> 'lv \<times> 'x list option) view" where
  "list_view M V =
     \<lparr>v_typed = \<lambda>m l. v_typed M m (wl_ListMeta l) \<and> v_typed (items_view V) m (wl_Items l),
      v_foot = \<lambda>m l. v_foot M m (wl_ListMeta l) \<union> v_foot (items_view V) m (wl_Items l),
      v_denote = \<lambda>m l. (wl_TypeMeta l, v_denote M m (wl_ListMeta l), v_denote (items_view V) m (wl_Items l))\<rparr>"

text \<open>
  The loop, relative to the memory \<open>m0\<close> before it: the first \<open>k\<close> elements of the new array are copies of
  the old ones, the array itself is a new cell and not part of any of them.
\<close>

definition items_done :: "(('b, 'om, 're, 'tm, 'lm) cell, ('om, 're, 'tm) WorkStatus_mem, 'x) view \<Rightarrow> ('b, 'om, 're, 'tm, 'lm) cell mem \<Rightarrow>
    ('om, 're, 'tm) WorkStatus_mem list \<Rightarrow> nat \<Rightarrow> nat \<Rightarrow> ('b, 'om, 're, 'tm, 'lm) cell mem \<Rightarrow> bool" where
  "items_done V m0 vs a k m \<longleftrightarrow> fresh_mem m \<and> extends m0 m \<and> mem_next m0 \<le> a \<and> a < mem_next m \<and>
     (\<exists>us. mem_cells m a = Some (ItemsCell us) \<and> length us = length vs \<and>
        (\<forall>j < k. copied V m0 (vs ! j) m (us ! j) \<and> a \<notin> v_foot V m (us ! j)))"

lemma items_loop_copies:
  assumes dc: "deep_copy V (WorkStatus_DeepCopyInto L)" and f: "fresh_mem m0"
    and src: "mem_cells m0 (sl_array inn) = Some (ItemsCell ws)" "sl_offset inn + n \<le> length ws"
    and vs: "vs = take n (drop (sl_offset inn) ws)" "\<forall>w \<in> set vs. v_typed V m0 w"
    and inv: "items_done V m0 vs a k m" "k \<le> n" and out: "sl_array out = a" "sl_offset out = 0"
  shows "\<exists>m'. items_loop L inn out [k..<n] m = Ret m' \<and> items_done V m0 vs a n m'"
  using inv
proof (induction "n - k" arbitrary: k m)
  case 0
  then show ?case by simp
next
  case (Suc d)
  have len: "length vs = n" using vs(1) src(2) by simp
  from Suc.hyps(2) have kn: "k < n" by simp
  obtain us where m: "fresh_mem m" "extends m0 m" "mem_next m0 \<le> a" "a < mem_next m"
    and us: "mem_cells m a = Some (ItemsCell us)" "length us = n"
    and prev: "\<And>j. j < k \<Longrightarrow> copied V m0 (vs ! j) m (us ! j) \<and> a \<notin> v_foot V m (us ! j)"
    using Suc.prems(1) len by (auto simp: items_done_def)
  have "sl_array inn < mem_next m0" using src(1) f by (metis fresh_mem_def not_le option.distinct(1))
  then have rd: "mem_cells m (sl_array inn) = Some (ItemsCell ws)" using m(2) src(1) by (simp add: extends_def)
  have el: "ws ! (sl_offset inn + k) = vs ! k" using vs(1) src(2) kn by simp
  have "vs ! k \<in> set vs" using kn len by simp
  then have ty: "v_typed V m0 (vs ! k)" using vs(2) by blast
  obtain u m1 where c: "WorkStatus_DeepCopyInto L (vs ! k) (us ! k) m = Ret (u, m1)" "copied V m0 (vs ! k) m1 u" "extends m m1"
    "v_foot V m1 u \<subseteq> {mem_next m..<mem_next m1}"
    using deep_copy.copies_after [OF dc f ty m(2,1)] by blast
  let ?us = "us[k := u]" and ?m = "mem_store a (ItemsCell (us[k := u])) m1"
  have m1: "fresh_mem m1" "a < mem_next m1" "a \<notin> v_foot V m1 u"
    using c m(4) extends_next [OF c(3)] by (auto simp: copied_def)
  have "copied V m0 (vs ! j) ?m (?us ! j) \<and> a \<notin> v_foot V ?m (?us ! j)" if "j < Suc k" for j
  proof -
    have "copied V m0 (vs ! j) m1 (?us ! j) \<and> a \<notin> v_foot V m1 (?us ! j)"
    proof (cases "j = k")
      case True
      then show ?thesis using c(2) m1(3) us(2) kn by simp
    next
      case False
      then have p: "copied V m0 (vs ! j) m (us ! j)" "a \<notin> v_foot V m (us ! j)" using prev that by simp_all
      then show ?thesis
        using deep_copy.copied_kept [OF dc p(1) c(3) m1(1)] deep_copy.kept [OF dc m(1) c(3)] False by (simp add: copied_def)
    qed
    then show ?thesis using deep_copy.copied_store [OF dc _ _ m(3) m1(2)] by auto
  qed
  then have inv': "items_done V m0 vs a (Suc k) ?m"
    unfolding items_done_def
    using store_fresh [OF m1(1,2)] store_extends [OF m(3) extends_trans [OF m(2) c(3)]] m(3) m1(2) us(2) len by simp
  have "d = n - Suc k" "Suc k \<le> n" using Suc.hyps(2) kn by simp_all
  then obtain m' where "items_loop L inn out [Suc k..<n] ?m = Ret m'" "items_done V m0 vs a n m'"
    using Suc.hyps(1) [OF _ inv'] by auto
  moreover have "[k..<n] = k # [Suc k..<n]" using kn by (rule upt_conv_Cons)
  ultimately show ?case
    using rd us src(2) kn el c(1) out by simp
qed

lemma items_view_simps:
  "v_typed (items_view V) m None" "v_foot (items_view V) m None = {}" "v_denote (items_view V) m None = None"
  "v_typed (items_view V) m (Some s) \<longleftrightarrow> (\<exists>ws. mem_cells m (sl_array s) = Some (ItemsCell ws) \<and> sl_offset s + sl_len s \<le> length ws \<and>
     (\<forall>w \<in> set (take (sl_len s) (drop (sl_offset s) ws)). v_typed V m w))"
  "mem_cells m (sl_array s) = Some (ItemsCell ws) \<Longrightarrow> v_foot (items_view V) m (Some s) =
     insert (sl_array s) (\<Union>w \<in> set (take (sl_len s) (drop (sl_offset s) ws)). v_foot V m w)"
  "mem_cells m (sl_array s) = Some (ItemsCell ws) \<Longrightarrow> v_denote (items_view V) m (Some s) =
     Some (map (v_denote V m) (take (sl_len s) (drop (sl_offset s) ws)))"
  by (auto simp: items_view_def Let_def)

lemma items_foot_dom:
  assumes "deep_copy V copy" "v_typed (items_view V) m it" shows "v_foot (items_view V) m it \<subseteq> dom (mem_cells m)"
proof (cases it)
  case (Some s)
  with assms(2) obtain ws where "mem_cells m (sl_array s) = Some (ItemsCell ws)" "\<forall>w \<in> set (take (sl_len s) (drop (sl_offset s) ws)). v_typed V m w"
    by (auto simp: items_view_simps(4))
  then show ?thesis using deep_copy.foot_dom [OF assms(1)] Some by (fastforce simp: items_view_simps(5))
qed (simp add: items_view_simps)

lemma items_local:
  assumes "deep_copy V copy" "v_typed (items_view V) m it" "same_on (v_foot (items_view V) m it) m m'"
  shows "v_typed (items_view V) m' it \<and> v_foot (items_view V) m' it = v_foot (items_view V) m it \<and>
    v_denote (items_view V) m' it = v_denote (items_view V) m it"
proof (cases it)
  case (Some s)
  with assms(2) obtain ws where ws: "mem_cells m (sl_array s) = Some (ItemsCell ws)" "sl_offset s + sl_len s \<le> length ws"
    and el: "\<forall>w \<in> set (take (sl_len s) (drop (sl_offset s) ws)). v_typed V m w"
    by (auto simp: items_view_simps(4))
  have ws': "mem_cells m' (sl_array s) = Some (ItemsCell ws)"
    using assms(3) Some ws(1) by (simp add: items_view_simps(5) same_on_def)
  have "v_typed V m' w \<and> v_foot V m' w = v_foot V m w \<and> v_denote V m' w = v_denote V m w"
    if w: "w \<in> set (take (sl_len s) (drop (sl_offset s) ws))" for w
  proof -
    have "same_on (v_foot V m w) m m'" using assms(3) Some ws(1) w by (auto simp: items_view_simps(5) same_on_def)
    then show ?thesis using deep_copy.local [OF assms(1)] el w by blast
  qed
  then show ?thesis using ws ws' Some by (simp add: items_view_simps)
qed (simp add: items_view_simps)

text \<open>What the loop leaves is a copy of the slice.\<close>

lemma items_done_copied:
  assumes "items_done V m0 vs a (length vs) m" and "mem_cells m0 (sl_array s) = Some (ItemsCell ws)"
    "vs = take (sl_len s) (drop (sl_offset s) ws)" "length vs = sl_len s"
  shows "copied (items_view V) m0 (Some s) m (Some \<lparr>sl_array = a, sl_offset = 0, sl_len = sl_len s\<rparr>)"
proof -
  let ?n = "\<lparr>sl_array = a, sl_offset = 0, sl_len = sl_len s\<rparr>"
  obtain us where m: "fresh_mem m" "extends m0 m" "mem_next m0 \<le> a" "a < mem_next m"
    and us: "mem_cells m (sl_array ?n) = Some (ItemsCell us)" "length us = length vs"
    and el: "\<And>j. j < length vs \<Longrightarrow> copied V m0 (vs ! j) m (us ! j)"
    using assms(1) by (auto simp: items_done_def)
  have all: "take (sl_len ?n) (drop (sl_offset ?n) us) = us" using us(2) assms(4) by simp
  have 1: "v_typed V m u \<and> v_foot V m u \<subseteq> {mem_next m0..<mem_next m}" if "u \<in> set us" for u
    using el that us(2) by (metis copied_def in_set_conv_nth)
  have "map (v_denote V m) us = map (v_denote V m0) vs"
    using el us(2) by (intro nth_equalityI) (auto simp: copied_def)
  then have "v_denote (items_view V) m (Some ?n) = v_denote (items_view V) m0 (Some s)"
    using items_view_simps(6) [OF us(1), of V] items_view_simps(6) [OF assms(2), of V] all assms(3) by simp
  moreover have "v_typed (items_view V) m (Some ?n)"
    using us 1 all assms(4) by (auto simp: items_view_simps(4))
  moreover have "v_foot (items_view V) m (Some ?n) \<subseteq> {mem_next m0..<mem_next m}"
    unfolding items_view_simps(5) [OF us(1)] all using 1 m(3,4) by auto
  ultimately show ?thesis using m by (simp add: copied_def)
qed

lemma copy_items_copies:
  assumes dc: "deep_copy V (WorkStatus_DeepCopyInto L)" and f: "fresh_mem m" and m1: "extends m m1" "fresh_mem m1"
    and t: "v_typed (items_view V) m (Some s)"
  shows "\<exists>n m2. copy_items L s m1 = Ret (n, m2) \<and> copied (items_view V) m (Some s) m2 (Some n) \<and> extends m1 m2"
proof -
  note k = items_local [OF dc t extends_same_on [OF f m1(1) items_foot_dom [OF dc t]]]
  from k obtain ws where ws: "mem_cells m1 (sl_array s) = Some (ItemsCell ws)" "sl_offset s + sl_len s \<le> length ws"
    and el: "\<forall>w \<in> set (take (sl_len s) (drop (sl_offset s) ws)). v_typed V m1 w"
    by (auto simp: items_view_simps(4))
  let ?vs = "take (sl_len s) (drop (sl_offset s) ws)" and ?c = "ItemsCell (replicate (sl_len s) (zero_WorkStatus_mem L))"
  let ?a = "fst (mem_alloc ?c m1)" and ?m = "snd (mem_alloc ?c m1)"
  let ?n = "\<lparr>sl_array = ?a, sl_offset = 0, sl_len = sl_len s\<rparr>"
  have len: "length ?vs = sl_len s" using ws(2) by simp
  have "items_done V m1 ?vs ?a 0 ?m"
    unfolding items_done_def using alloc_extends(1) [of m1] alloc_extends(2) [OF m1(2)] len by (simp add: mem_alloc_def)
  then obtain m2 where 2: "items_loop L s ?n [0..<sl_len s] ?m = Ret m2" "items_done V m1 ?vs ?a (sl_len s) m2"
    using items_loop_copies [OF dc m1(2) ws refl el, of ?a 0 ?m ?n] by auto
  have c: "copied (items_view V) m1 (Some s) m2 (Some ?n)"
    using items_done_copied [OF _ ws(1) refl len, of V ?a m2] 2(2) len by simp
  have "copied (items_view V) m (Some s) m2 (Some ?n)" using copied_earlier [OF c m1(1)] k by simp
  moreover have "copy_items L s m1 = Ret (?n, m2)" using 2(1) by (simp add: copy_items_def case_prod_beta Let_def)
  ultimately show ?thesis using c by (auto simp: copied_def)
qed

lemma WorkStatusList_copies:
  assumes "deep_copy M (ListMeta_DeepCopyInto L)" "deep_copy V (WorkStatus_DeepCopyInto L)"
  shows "deep_copy (list_view M V) (WorkStatusList_DeepCopyInto L)"
proof unfold_locales
  fix m v
  show "v_foot (list_view M V) m v \<subseteq> dom (mem_cells m)" if "v_typed (list_view M V) m v"
    using that deep_copy.foot_dom [OF assms(1)] items_foot_dom [OF assms(2)] by (simp add: list_view_def)
  show "v_typed (list_view M V) m' v \<and> v_foot (list_view M V) m' v = v_foot (list_view M V) m v \<and>
      v_denote (list_view M V) m' v = v_denote (list_view M V) m v"
    if "v_typed (list_view M V) m v" "same_on (v_foot (list_view M V) m v) m m'" for m'
  proof -
    have "same_on (v_foot M m (wl_ListMeta v)) m m'" "same_on (v_foot (items_view V) m (wl_Items v)) m m'"
      using that(2) by (simp_all add: list_view_def same_on_def)
    with that(1) deep_copy.local [OF assms(1), of m _ m'] items_local [OF assms(2), of m _ m'] show ?thesis
      by (simp add: list_view_def)
  qed
  show "\<exists>v' m'. WorkStatusList_DeepCopyInto L v out m = Ret (v', m') \<and> copied (list_view M V) m v m' v'"
    if f: "fresh_mem m" and t: "v_typed (list_view M V) m v" for out
  proof -
    obtain x m1 where 1: "ListMeta_DeepCopyInto L (wl_ListMeta v) (wl_ListMeta v) m = Ret (x, m1)" "copied M m (wl_ListMeta v) m1 x"
      using deep_copy.copies [OF assms(1) f] t unfolding list_view_def by fastforce
    then have m1: "extends m m1" "fresh_mem m1" by (simp_all add: copied_def)
    show ?thesis
    proof (cases "wl_Items v")
      case None
      then have "WorkStatusList_DeepCopyInto L v out m = Ret (v\<lparr>wl_ListMeta := x\<rparr>, m1)"
        by (simp add: WorkStatusList_DeepCopyInto_def Let_def 1(1))
      then show ?thesis using 1(2) None by (auto simp: copied_def list_view_def items_view_simps)
    next
      case (Some s)
      obtain n m2 where 2: "copy_items L s m1 = Ret (n, m2)" "copied (items_view V) m (Some s) m2 (Some n)" "extends m1 m2"
        using copy_items_copies [OF assms(2) f m1, of s] t Some by (auto simp: list_view_def)
      have "copied M m (wl_ListMeta v) m2 x"
        using deep_copy.copied_kept [OF assms(1) 1(2) 2(3)] 2(2) by (simp add: copied_def)
      then have "copied (list_view M V) m v m2 (v\<lparr>wl_ListMeta := x, wl_Items := Some n\<rparr>)"
        using 2(2) Some by (simp add: copied_def list_view_def)
      moreover have "WorkStatusList_DeepCopyInto L v out m = Ret (v\<lparr>wl_ListMeta := x, wl_Items := Some n\<rparr>, m2)"
        using Some by (simp add: WorkStatusList_DeepCopyInto_def Let_def 1(1) 2(1))
      ultimately show ?thesis by blast
    qed
  qed
qed

subsection \<open>Pointers\<close>

definition ptr_view :: "('v \<Rightarrow> 'c) \<Rightarrow> ('c \<Rightarrow> 'v) \<Rightarrow> ('c, 'v, 'x) view \<Rightarrow> ('c, nat option, 'x option) view" where
  "ptr_view mk sel V =
     \<lparr>v_typed = \<lambda>m p. case p of None \<Rightarrow> True | Some a \<Rightarrow> (case load sel mk m a of None \<Rightarrow> False | Some v \<Rightarrow> v_typed V m v),
      v_foot = \<lambda>m p. case p of None \<Rightarrow> {} | Some a \<Rightarrow> insert a (case load sel mk m a of None \<Rightarrow> {} | Some v \<Rightarrow> v_foot V m v),
      v_denote = \<lambda>m p. case p of None \<Rightarrow> None | Some a \<Rightarrow> map_option (v_denote V m) (load sel mk m a)\<rparr>"

lemma ptr_view_simps [simp]:
  "v_typed (ptr_view mk sel V) m None" "v_foot (ptr_view mk sel V) m None = {}" "v_denote (ptr_view mk sel V) m None = None"
  "v_typed (ptr_view mk sel V) m (Some a) \<longleftrightarrow> (\<exists>v. load sel mk m a = Some v \<and> v_typed V m v)"
  "load sel mk m a = Some v \<Longrightarrow> v_foot (ptr_view mk sel V) m (Some a) = insert a (v_foot V m v)"
  "load sel mk m a = Some v \<Longrightarrow> v_denote (ptr_view mk sel V) m (Some a) = Some (v_denote V m v)"
  by (auto simp: ptr_view_def split: option.split)

lemma load_cell: "load sel mk m a = Some v \<Longrightarrow> mem_cells m a \<noteq> None"
  by (auto simp: load_def split: option.splits)

lemma load_cong: "mem_cells m' a = mem_cells m a \<Longrightarrow> load sel mk m' a = load sel mk m a"
  by (simp add: load_def)

lemma load_store: "(\<And>v. sel (mk v) = v) \<Longrightarrow> load sel mk (mem_store a (mk v) m) a = Some v"
  by (simp add: load_def)

text \<open>A \<^verbatim>\<open>DeepCopy\<close> is a copy of the pointer, given that the \<^verbatim>\<open>DeepCopyInto\<close> it calls is one of the struct.\<close>

lemma DeepCopy_copies:
  assumes dc: "deep_copy V copy" and mk: "\<And>v. sel (mk v) = v"
  shows "deep_copy (ptr_view mk sel V) (\<lambda>inn out. DeepCopy_of mk sel zero copy inn)"
proof unfold_locales
  fix m p
  show "v_foot (ptr_view mk sel V) m p \<subseteq> dom (mem_cells m)" if "v_typed (ptr_view mk sel V) m p"
    using that deep_copy.foot_dom [OF dc] load_cell by (cases p) fastforce+
  show "v_typed (ptr_view mk sel V) m' p \<and> v_foot (ptr_view mk sel V) m' p = v_foot (ptr_view mk sel V) m p \<and>
      v_denote (ptr_view mk sel V) m' p = v_denote (ptr_view mk sel V) m p"
    if t: "v_typed (ptr_view mk sel V) m p" and sm: "same_on (v_foot (ptr_view mk sel V) m p) m m'" for m'
  proof (cases p)
    case (Some a)
    with t obtain v where v: "load sel mk m a = Some v" "v_typed V m v" by auto
    then have "load sel mk m' a = Some v" "same_on (v_foot V m v) m m'"
      using sm Some load_cong [of m' a m sel mk] by (simp_all add: same_on_def)
    with v deep_copy.local [OF dc v(2)] show ?thesis by (simp add: Some)
  qed simp
  show "\<exists>q m'. DeepCopy_of mk sel zero copy p m = Ret (q, m') \<and> copied (ptr_view mk sel V) m p m' q"
    if f: "fresh_mem m" and t: "v_typed (ptr_view mk sel V) m p"
  proof (cases p)
    case None
    then show ?thesis using f by (simp add: DeepCopy_of_def copied_def)
  next
    case (Some a)
    with t obtain v where v: "load sel mk m a = Some v" "v_typed V m v" by auto
    let ?q = "mem_next m" and ?m = "snd (mem_alloc (mk zero) m)"
    have ext: "extends m ?m" "fresh_mem ?m" by (rule alloc_extends(1)) (rule alloc_extends(2) [OF f])
    have "a \<noteq> ?q" using load_cell [OF v(1)] f by (auto simp: fresh_mem_def)
    then have ld: "load sel mk ?m a = Some v" using v(1) load_cong [of ?m a m sel mk] by (simp add: mem_alloc_def)
    obtain v' m1 where c: "copy v zero ?m = Ret (v', m1)" "copied V m v m1 v'" "extends ?m m1" "v_foot V m1 v' \<subseteq> {mem_next ?m..<mem_next m1}"
      using deep_copy.copies_after [OF dc f v(2) ext] by blast
    have q: "?q < mem_next ?m" "?q < mem_next m1" using extends_next [OF c(3)] by (simp_all add: mem_alloc_def)
    then have "?q \<notin> v_foot V m1 v'" using c(4) by auto
    note st = deep_copy.copied_store [OF dc c(2) this order_refl q(2), of "mk v'"]
    have "DeepCopy_of mk sel zero copy p m = Ret (Some ?q, mem_store ?q (mk v') m1)"
      using ld c(1) Some by (simp add: DeepCopy_of_def mem_alloc_def)
    moreover have "copied (ptr_view mk sel V) m p (mem_store ?q (mk v') m1) (Some ?q)"
    proof -
      have d: "v_denote (ptr_view mk sel V) m p = Some (v_denote V m v)" using v(1) Some by simp
      show ?thesis
        unfolding copied_def d ptr_view_simps(4) ptr_view_simps(5,6) [OF load_store [of sel mk ?q v' m1, OF mk]]
        using st c(2) load_store [of sel mk ?q v' m1, OF mk] q(2) by (simp add: copied_def)
    qed
    ultimately show ?thesis by blast
  qed
qed

text \<open>The contract of the library, and the pointers of the types it makes copies of.\<close>

definition lib_copies :: "('b, 'om, 're, 'tm, 'lm) deep_lib \<Rightarrow> (('b, 'om, 're, 'tm, 'lm) cell, 'om, 'ov) view \<Rightarrow>
    (('b, 'om, 're, 'tm, 'lm) cell, 're, 'rv) view \<Rightarrow> (('b, 'om, 're, 'tm, 'lm) cell, 'tm, 'tv) view \<Rightarrow>
    (('b, 'om, 're, 'tm, 'lm) cell, 'lm, 'lv) view \<Rightarrow> bool" where
  "lib_copies L O' R T M \<longleftrightarrow> deep_copy O' (ObjectMeta_DeepCopyInto L) \<and> deep_copy R (RawExtension_DeepCopyInto L) \<and>
     deep_copy T (Time_DeepCopyInto L) \<and> deep_copy M (ListMeta_DeepCopyInto L)"

abbreviation WorkStatus_ptr where
  "WorkStatus_ptr O' R T \<equiv> ptr_view WorkStatusCell the_WorkStatus (status_view O' R T)"

abbreviation WorkStatusList_ptr where
  "WorkStatusList_ptr O' R T M \<equiv> ptr_view WorkStatusListCell the_WorkStatusList (list_view M (status_view O' R T))"

lemma WorkStatus_DeepCopy_copies:
  assumes "lib_copies L O' R T M" shows "deep_copy (WorkStatus_ptr O' R T) (\<lambda>inn out. WorkStatus_DeepCopy L inn)"
  unfolding WorkStatus_DeepCopy_def
  using assms by (intro DeepCopy_copies WorkStatus_copies) (auto simp: lib_copies_def)

lemma WorkStatusList_DeepCopy_copies:
  assumes "lib_copies L O' R T M" shows "deep_copy (WorkStatusList_ptr O' R T M) (\<lambda>inn out. WorkStatusList_DeepCopy L inn)"
  unfolding WorkStatusList_DeepCopy_def
  using assms by (intro DeepCopy_copies WorkStatusList_copies WorkStatus_copies) (auto simp: lib_copies_def)

interpretation source_ref_ptr: deep_copy "ptr_view SourceRefCell the_SourceRef plain_view" "\<lambda>inn out. SourceRef_DeepCopy inn"
  unfolding SourceRef_DeepCopy_def by (intro DeepCopy_copies source_ref.deep_copy_axioms) simp

interpretation work_status_spec_ptr: deep_copy "ptr_view WorkStatusSpecCell the_WorkStatusSpec plain_view" "\<lambda>inn out. WorkStatusSpec_DeepCopy inn"
  unfolding WorkStatusSpec_DeepCopy_def by (intro DeepCopy_copies work_status_spec.deep_copy_axioms) simp

section \<open>Properties\<close>

text \<open>
  Property C16: \<^verbatim>\<open>WorkStatusList.DeepCopy\<close> returns, nil exactly for nil, and makes a deep copy: the result denotes the
  same list, items and their metadata and status included, nil and empty slices told apart; it lies entirely in memory that was not in
  use before; and nothing that was in use has changed. This holds if the copy methods of the embedded
  library types are deep copies.
\<close>

theorem WorkStatusList_DeepCopy_separate:
  assumes "lib_copies L O' R T M" "fresh_mem m" "v_typed (WorkStatusList_ptr O' R T M) m p"
  shows "\<exists>q m'. WorkStatusList_DeepCopy L p m = Ret (q, m') \<and> (q = None \<longleftrightarrow> p = None) \<and>
    v_denote (WorkStatusList_ptr O' R T M) m' q = v_denote (WorkStatusList_ptr O' R T M) m p \<and>
    v_foot (WorkStatusList_ptr O' R T M) m' q \<subseteq> {mem_next m..<mem_next m'} \<and> extends m m'"
proof -
  obtain q m' where q: "WorkStatusList_DeepCopy L p m = Ret (q, m')" "copied (WorkStatusList_ptr O' R T M) m p m' q"
    using deep_copy.copies [OF WorkStatusList_DeepCopy_copies [OF assms(1)] assms(2,3)] by blast
  moreover have "q = None \<longleftrightarrow> p = None"
    using q(1) by (auto simp: WorkStatusList_DeepCopy_def DeepCopy_of_def bindO_eq_Ret case_prod_beta split: option.splits)
  ultimately show ?thesis by (auto simp: copied_def)
qed

text \<open>
  Property C17: a WorkStatus and its deep copy are independent: whatever is later written to the memory of one of
  them, its maps and arrays included, the other still denotes what the original denoted when it was copied.
  This is what the caches of client-go need, whose objects must not change under their readers.
\<close>

theorem WorkStatus_DeepCopy_independent:
  assumes "lib_copies L O' R T M" "fresh_mem m" "v_typed (WorkStatus_ptr O' R T) m p" "WorkStatus_DeepCopy L p m = Ret (q, m')"
  shows "(same_on (- v_foot (WorkStatus_ptr O' R T) m' q) m' m2 \<longrightarrow>
       v_denote (WorkStatus_ptr O' R T) m2 p = v_denote (WorkStatus_ptr O' R T) m p) \<and>
    (same_on (- v_foot (WorkStatus_ptr O' R T) m' p) m' m2 \<longrightarrow>
       v_denote (WorkStatus_ptr O' R T) m2 q = v_denote (WorkStatus_ptr O' R T) m p)"
proof -
  note dc = WorkStatus_DeepCopy_copies [OF assms(1)]
  have "copied (WorkStatus_ptr O' R T) m p m' q"
    using deep_copy.copies [OF dc assms(2,3)] assms(4) by auto
  from deep_copy.independent [OF dc assms(2,3) this] show ?thesis by blast
qed

text \<open>
  Property C18: memory stays well typed under \<^verbatim>\<open>DeepCopyObject\<close>: given a typed pointer to a WorkStatus or a list,
  the method returns an interface value that is nil exactly for nil (never a nil pointer of a type, which would not compare equal to
  nil), whose dynamic type is that of the receiver and whose pointer is typed in the new memory, where
  the receiver is still typed.
\<close>

theorem DeepCopyObject_typed:
  assumes "lib_copies L O' R T M" "fresh_mem m" "v_typed (WorkStatus_ptr O' R T) m p" "v_typed (WorkStatusList_ptr O' R T M) m l"
  shows "(\<exists>q m'. WorkStatus_DeepCopyObject L p m = Ret (map_option (\<lambda>a. Iface_WorkStatus (Some a)) q, m') \<and> (q = None \<longleftrightarrow> p = None) \<and>
       fresh_mem m' \<and> v_typed (WorkStatus_ptr O' R T) m' q \<and> v_typed (WorkStatus_ptr O' R T) m' p) \<and>
    (\<exists>q m'. WorkStatusList_DeepCopyObject L l m = Ret (map_option (\<lambda>a. Iface_WorkStatusList (Some a)) q, m') \<and> (q = None \<longleftrightarrow> l = None) \<and>
       fresh_mem m' \<and> v_typed (WorkStatusList_ptr O' R T M) m' q \<and> v_typed (WorkStatusList_ptr O' R T M) m' l)"
proof
  note dc = WorkStatus_DeepCopy_copies [OF assms(1)] and dl = WorkStatusList_DeepCopy_copies [OF assms(1)]
  obtain q m' where q: "WorkStatus_DeepCopy L p m = Ret (q, m')" "copied (WorkStatus_ptr O' R T) m p m' q"
    using deep_copy.copies [OF dc assms(2,3)] by blast
  have n: "q = None \<longleftrightarrow> p = None"
    using q(1) by (auto simp: WorkStatus_DeepCopy_def DeepCopy_of_def bindO_eq_Ret case_prod_beta split: option.splits)
  have "WorkStatus_DeepCopyObject L p m = Ret (map_option (\<lambda>a. Iface_WorkStatus (Some a)) q, m')"
    using q(1) by (cases q) (simp_all add: WorkStatus_DeepCopyObject_def)
  with n q(2) deep_copy.kept [OF dc assms(2) _ assms(3), of m'] show "\<exists>q m'. WorkStatus_DeepCopyObject L p m =
      Ret (map_option (\<lambda>a. Iface_WorkStatus (Some a)) q, m') \<and> (q = None \<longleftrightarrow> p = None) \<and>
      fresh_mem m' \<and> v_typed (WorkStatus_ptr O' R T) m' q \<and> v_typed (WorkStatus_ptr O' R T) m' p"
    unfolding copied_def by blast
  obtain r m2 where r: "WorkStatusList_DeepCopy L l m = Ret (r, m2)" "copied (WorkStatusList_ptr O' R T M) m l m2 r"
    using deep_copy.copies [OF dl assms(2,4)] by blast
  have n: "r = None \<longleftrightarrow> l = None"
    using r(1) by (auto simp: WorkStatusList_DeepCopy_def DeepCopy_of_def bindO_eq_Ret case_prod_beta split: option.splits)
  have "WorkStatusList_DeepCopyObject L l m = Ret (map_option (\<lambda>a. Iface_WorkStatusList (Some a)) r, m2)"
    using r(1) by (cases r) (simp_all add: WorkStatusList_DeepCopyObject_def)
  with n r(2) deep_copy.kept [OF dl assms(2) _ assms(4), of m2] show "\<exists>q m'. WorkStatusList_DeepCopyObject L l m =
      Ret (map_option (\<lambda>a. Iface_WorkStatusList (Some a)) q, m') \<and> (q = None \<longleftrightarrow> l = None) \<and>
      fresh_mem m' \<and> v_typed (WorkStatusList_ptr O' R T M) m' q \<and> v_typed (WorkStatusList_ptr O' R T M) m' l"
    unfolding copied_def by blast
qed

text \<open>A library whose metadata and raw bytes are one cell each, and a memory with a list of one item.\<close>

definition ex_ref_copy :: "((string, nat option, nat option, gotime, string) cell, nat option) copy_fun" where
  "ex_ref_copy inn out = DeepCopy_of LibCell the_LibCell '''' (\<lambda>v w m. Ret (v, m)) inn"

definition ex_deep_lib :: "(string, nat option, nat option, gotime, string) deep_lib" where
  "ex_deep_lib = \<lparr>ObjectMeta_DeepCopyInto = ex_ref_copy, RawExtension_DeepCopyInto = ex_ref_copy, Time_DeepCopyInto = \<lambda>v w m. Ret (v, m),
     ListMeta_DeepCopyInto = \<lambda>v w m. Ret (v, m), zero_ObjectMeta = None, zero_RawExtension = None, zero_Time = ZeroTime, zero_ListMeta = ''''\<rparr>"

abbreviation ex_refs :: "((string, nat option, nat option, gotime, string) cell, nat option, string option) view" where
  "ex_refs \<equiv> ptr_view LibCell the_LibCell plain_view"

definition ex_status_mem :: "(nat option, nat option, gotime) WorkStatus_mem" where
  "ex_status_mem = (zero_WorkStatus_mem ex_deep_lib)\<lparr>wm_ObjectMeta := Some 0, wm_Status := \<lparr>rs_RawExtension = Some 1\<rparr>\<rparr>"

definition ex_memory :: "(string, nat option, nat option, gotime, string) cell mem" where
  "ex_memory = \<lparr>mem_next = 5, mem_cells = [0 \<mapsto> LibCell ''labels'', 1 \<mapsto> LibCell ''{}'', 2 \<mapsto> ItemsCell [ex_status_mem],
     3 \<mapsto> WorkStatusListCell ((zero_WorkStatusList_mem ex_deep_lib)\<lparr>wl_Items := Some \<lparr>sl_array = 2, sl_offset = 0, sl_len = 1\<rparr>\<rparr>),
     4 \<mapsto> WorkStatusCell ex_status_mem]\<rparr>"

lemma plain_copies: "deep_copy plain_view (\<lambda>v w m. Ret (v, m))"
  by unfold_locales (simp_all add: plain_view_def copied_def)

lemma ex_lib_copies: "lib_copies ex_deep_lib ex_refs ex_refs plain_view plain_view"
  unfolding lib_copies_def ex_deep_lib_def ex_ref_copy_def [abs_def] deep_lib.select_convs
  by (intro conjI DeepCopy_copies plain_copies) simp_all

lemma ex_fresh: "fresh_mem ex_memory"
  by (simp add: fresh_mem_def ex_memory_def)

lemma ex_typed:
  "v_typed (WorkStatus_ptr ex_refs ex_refs plain_view) ex_memory (Some 4)"
  "v_typed (WorkStatusList_ptr ex_refs ex_refs plain_view plain_view) ex_memory (Some 3)"
  by (simp_all add: ex_memory_def load_def status_view_def raw_view_def details_view_def plain_view_def list_view_def
      items_view_simps(4) ex_status_mem_def zero_WorkStatusList_mem_def)

theorem WorkStatusList_DeepCopy_separate_witness:
  "\<exists>q m'. WorkStatusList_DeepCopy ex_deep_lib (Some 3) ex_memory = Ret (q, m') \<and>
     v_denote (WorkStatusList_ptr ex_refs ex_refs plain_view plain_view) m' q =
     v_denote (WorkStatusList_ptr ex_refs ex_refs plain_view plain_view) ex_memory (Some 3)"
  using WorkStatusList_DeepCopy_separate [OF ex_lib_copies ex_fresh ex_typed(2)] by blast

lemma ex_copy: "\<exists>m'. WorkStatus_DeepCopy ex_deep_lib (Some 4) ex_memory = Ret (Some 5, m')"
  by (simp add: WorkStatus_DeepCopy_def DeepCopy_of_def mem_alloc_def load_def ex_memory_def WorkStatus_DeepCopyInto_def
      RawStatus_DeepCopyInto_def StatusDetails_DeepCopyInto_def ex_deep_lib_def ex_ref_copy_def ex_status_mem_def Let_def)

theorem WorkStatus_DeepCopy_independent_witness:
  "\<exists>m'. WorkStatus_DeepCopy ex_deep_lib (Some 4) ex_memory = Ret (Some 5, m') \<and>
     v_denote (WorkStatus_ptr ex_refs ex_refs plain_view) (mem_store 5 (LibCell ''other'') m') (Some 4) =
     v_denote (WorkStatus_ptr ex_refs ex_refs plain_view) ex_memory (Some 4)"
proof -
  obtain m' where m': "WorkStatus_DeepCopy ex_deep_lib (Some 4) ex_memory = Ret (Some 5, m')" using ex_copy by blast
  have "5 \<in> v_foot (WorkStatus_ptr ex_refs ex_refs plain_view) m' (Some 5)" by (simp add: ptr_view_def)
  then have "same_on (- v_foot (WorkStatus_ptr ex_refs ex_refs plain_view) m' (Some 5)) m' (mem_store 5 (LibCell ''other'') m')"
    by (intro store_same_on) simp
  with WorkStatus_DeepCopy_independent [OF ex_lib_copies ex_fresh ex_typed(1) m'] m' show ?thesis by blast
qed

theorem DeepCopyObject_typed_witness:
  "\<exists>q m'. WorkStatusList_DeepCopyObject ex_deep_lib (Some 3) ex_memory = Ret (Some (Iface_WorkStatusList (Some q)), m') \<and>
     v_typed (WorkStatusList_ptr ex_refs ex_refs plain_view plain_view) m' (Some q)"
  using DeepCopyObject_typed [OF ex_lib_copies ex_fresh ex_typed, THEN conjunct2] by auto

end
