(* ===== verification/Interference.thy ===== *)
theory Interference
  imports Reporting
begin

text \<open>
  \<open>handleWorkStatus\<close> (pkg/agent/reconcilers.go) on a hub that others use at the same time: the other workers of
  the agent, the agents of other clusters, the garbage collector and the controllers of KubeStellar.
  Between two calls of the handler the hub may change, by a relation \<open>R\<close> (the rely): a call to the busy hub is
  the call to a quiet one, which has the contract \<open>hub_doc\<close>, after a step of \<open>R\<close>. The theory shows what the
  handler still achieves, and that it changes nothing but its own WorkStatus.
\<close>

section \<open>A busy hub\<close>

definition interferes :: "('w \<Rightarrow> 'w \<Rightarrow> bool) \<Rightarrow> 'w hub_client \<Rightarrow> 'w hub_client \<Rightarrow> bool" where
  "interferes R H K \<longleftrightarrow>
     (\<forall>ns n ws w. \<exists>v. R w v \<and> hc_Get K ns n ws w = hc_Get H ns n ws v) \<and>
     (\<forall>ns n w. \<exists>v. R w v \<and> hc_GetManifestWork K ns n w = hc_GetManifestWork H ns n v) \<and>
     (\<forall>ws w. \<exists>v. R w v \<and> hc_Create K ws w = hc_Create H ws v) \<and>
     (\<forall>ws w. \<exists>v. R w v \<and> hc_Delete K ws w = hc_Delete H ws v) \<and>
     (\<forall>ws p w. \<exists>v. R w v \<and> hc_Patch K ws p w = hc_Patch H ws p v) \<and>
     (\<forall>ws w. \<exists>v. R w v \<and> hc_StatusUpdate K ws w = hc_StatusUpdate H ws v)"

text \<open>Runs in which every step is one of the others or changes at most the WorkStatus \<open>k\<close>.\<close>

definition shared_run :: "'w hub_store \<Rightarrow> ('w \<Rightarrow> 'w \<Rightarrow> bool) \<Rightarrow> string \<times> string \<Rightarrow> 'w \<Rightarrow> 'w \<Rightarrow> bool" where
  "shared_run store R k = (\<lambda>w w'. R w w' \<or> others_kept store k w w')\<^sup>*\<^sup>*"

text \<open>The others keep off \<open>k\<close>.\<close>

definition leaves :: "'w hub_store \<Rightarrow> ('w \<Rightarrow> 'w \<Rightarrow> bool) \<Rightarrow> string \<times> string \<Rightarrow> bool" where
  "leaves store R k \<longleftrightarrow> (\<forall>w w'. R w w' \<longrightarrow> store w' k = store w k)"

lemma shared_run_refl [simp]: "shared_run store R k w w"
  by (simp add: shared_run_def)

lemma shared_run_trans: "shared_run store R k u v \<Longrightarrow> shared_run store R k v w \<Longrightarrow> shared_run store R k u w"
  unfolding shared_run_def by (rule rtranclp_trans)

lemma shared_run_call: "R w v \<Longrightarrow> others_kept store k v w' \<Longrightarrow> shared_run store R k w w'"
  unfolding shared_run_def by (rule converse_rtranclp_into_rtranclp [of _ _ v]) auto

lemma shared_run_read: "R w v \<Longrightarrow> store w' = store v \<Longrightarrow> shared_run store R k w w'"
  by (rule shared_run_call) (auto intro: others_kept_same)

section \<open>The calls\<close>

lemma busy_Get:
  assumes "hub_doc E store" "interferes R (hub E) K" "hub_Get K ws io = (e, ws', io')"
  shows "shared_run store R k (fst io) (fst io') \<and> (e = None \<longrightarrow> store (fst io') (ws_key ws) = Some ws') \<and>
    (\<forall>x. e = Some x \<longrightarrow> IsNotFound E x \<longrightarrow> store (fst io') (ws_key ws) = None \<and> ws' = ws)"
proof -
  obtain v where v: "R (fst io) v" "hc_Get K (ws_namespace ws) (ws_name ws) ws (fst io) = hc_Get (hub E) (ws_namespace ws) (ws_name ws) ws v"
    using assms(2) unfolding interferes_def by blast
  then have g: "hub_Get (hub E) ws (v, snd io) = (e, ws', io')" using assms(3) by (simp add: hub_Get_def)
  have st: "store (fst io') = store v" using hub_docD(2) [OF assms(1) g] by simp
  have "shared_run store R k (fst io) (fst io')" using v(1) st by (rule shared_run_read)
  moreover have "store v (ws_key ws) = Some ws'" if "e = None"
    using hub_docD(3) [OF assms(1), of ws "(v, snd io)" ws' io'] g that by simp
  moreover have "store v (ws_key ws) = None \<and> ws' = ws" if "e = Some x" "IsNotFound E x" for x
    using hub_docD(4) [OF assms(1), of ws "(v, snd io)" x ws' io'] g that by simp
  ultimately show ?thesis using st by simp
qed

lemma busy_GetManifestWork:
  assumes "hub_doc E store" "interferes R (hub E) K" "hc_GetManifestWork K ns n w = (r, w')"
  shows "shared_run store R k w w'" "leaves store R k \<Longrightarrow> store w' k = store w k"
proof -
  obtain v where v: "R w v" "hc_GetManifestWork (hub E) ns n v = (r, w')"
    using assms(2,3) unfolding interferes_def by metis
  have "store w' = store v" using hub_docD(5) [OF assms(1) v(2)] .
  then show "shared_run store R k w w'" "leaves store R k \<Longrightarrow> store w' k = store w k"
    using v(1) shared_run_read [of R w v store w' k] by (simp_all add: leaves_def)
qed

lemma busy_Create:
  assumes "hub_doc E store" "interferes R (hub E) K" "hc_Create K ws w = (e, ws', w')"
  shows "shared_run store R (ws_key ws) w w' \<and> (e = None \<longrightarrow> store w' (ws_key ws) = Some ws')"
proof -
  obtain v where v: "R w v" "hc_Create (hub E) ws v = (e, ws', w')"
    using assms(2,3) unfolding interferes_def by metis
  then show ?thesis using hub_docD(6) [OF assms(1) v(2)] by (auto intro: shared_run_call)
qed

lemma busy_Delete:
  assumes "hub_doc E store" "interferes R (hub E) K" "hc_Delete K ws w = (e, w')"
  shows "shared_run store R (ws_key ws) w w' \<and> ((\<forall>x. e = Some x \<longrightarrow> IsNotFound E x) \<longrightarrow> store w' (ws_key ws) = None)"
proof -
  obtain v where v: "R w v" "hc_Delete (hub E) ws v = (e, w')"
    using assms(2,3) unfolding interferes_def by metis
  have "hub_delete_doc E store" using assms(1) by (simp add: hub_doc_def)
  then have "others_kept store (ws_key ws) v w'" "case e of None \<Rightarrow> store w' (ws_key ws) = None
      | Some x \<Rightarrow> IsNotFound E x \<longrightarrow> store w' (ws_key ws) = None"
    using v(2) unfolding hub_delete_doc_def by blast+
  then show ?thesis using v(1) by (auto intro: shared_run_call split: option.splits)
qed

lemma busy_Patch:
  assumes "hub_doc E store" "interferes R (hub E) K" "label_value p" "hub_Patch K ws (singleton_patch p) io = (e, ws', io')"
  shows "shared_run store R (ws_key ws) (fst io) (fst io') \<and> (e = None \<longrightarrow> store (fst io') (ws_key ws) = Some ws' \<and>
    gomap_get (om_Labels (ws_ObjectMeta ws')) SingletonstatusLabelKey = Some p)"
proof -
  obtain v where v: "R (fst io) v" "hc_Patch K ws (singleton_patch p) (fst io) = hc_Patch (hub E) ws (singleton_patch p) v"
    using assms(2) unfolding interferes_def by blast
  then have g: "hub_Patch (hub E) ws (singleton_patch p) (v, snd io) = (e, ws', io')" using assms(4) by (simp add: hub_Patch_def)
  from hub_doc_patch [OF assms(1,3) g] v(1) show ?thesis by (auto intro: shared_run_call)
qed

lemma busy_StatusUpdate:
  assumes "hub_doc E store" "interferes R (hub E) K" "hub_StatusUpdate K ws io = (e, ws', io')"
  shows "shared_run store R (ws_key ws) (fst io) (fst io') \<and> (e = None \<longrightarrow> store (fst io') (ws_key ws) = Some ws' \<and>
    ws_Status ws' = ws_Status ws \<and> (leaves store R (ws_key ws) \<longrightarrow>
      (\<exists>old. store (fst io) (ws_key ws) = Some old \<and> om_Labels (ws_ObjectMeta ws') = om_Labels (ws_ObjectMeta old))))"
proof -
  obtain v where v: "R (fst io) v" "hc_StatusUpdate K ws (fst io) = hc_StatusUpdate (hub E) ws v"
    using assms(2) unfolding interferes_def by blast
  then have g: "hub_StatusUpdate (hub E) ws (v, snd io) = (e, ws', io')" using assms(3) by (simp add: hub_StatusUpdate_def)
  from hub_doc_status [OF assms(1) g] v(1) show ?thesis by (auto intro: shared_run_call simp: leaves_def)
qed

section \<open>The handler\<close>

abbreviation busy :: "('w, 'm, 'g) env \<Rightarrow> 'w hub_client \<Rightarrow> ('w, 'm, 'g) env" where
  "busy E K \<equiv> E\<lparr>hub := K\<rparr>"

lemma busy_status [simp]: "GetObjectStatusAsBytes (busy E K) obj = GetObjectStatusAsBytes E obj"
  by (cases obj) (simp_all add: GetObjectStatusAsBytes_def split: sum.split option.split)

lemma busy_GetAppliedManifestWork [simp]: "GetAppliedManifestWork (busy E K) V obj ls = GetAppliedManifestWork E V obj ls"
proof -
  have "ToAppliedManifestWork (busy E K) = ToAppliedManifestWork E" by (simp add: ToAppliedManifestWork_def fun_eq_iff)
  then show ?thesis by (simp only: GetAppliedManifestWork_def)
qed

lemma busy_name [simp]: "BuildWorkstatusName (busy E K) aWork obj = BuildWorkstatusName E aWork obj"
  by (simp add: BuildWorkstatusName_def workstatus_long_name_def)

lemma busy_label_patch:
  assumes "hub_doc E store" "interferes R (hub E) K" "plain_label obj" "ws_key ws = k" "label_patch (busy E K) obj ws io = (e, ws', io')"
  shows "shared_run store R k (fst io) (fst io') \<and> (e = None \<longrightarrow> ws_key ws' = k \<and> (store (fst io) k = Some ws \<longrightarrow>
    store (fst io') k = Some ws' \<and> (\<forall>v. gomap_get (om_Labels (obj_meta obj)) SingletonstatusLabelKey = Some v \<longrightarrow>
       gomap_get (om_Labels (ws_ObjectMeta ws')) SingletonstatusLabelKey = Some v)))"
proof (cases "gomap_get (om_Labels (obj_meta obj)) SingletonstatusLabelKey = None \<or>
    gomap_get (om_Labels (obj_meta obj)) SingletonstatusLabelKey = gomap_get (om_Labels (ws_ObjectMeta ws)) SingletonstatusLabelKey")
  case True
  then have "label_patch (busy E K) obj ws io = (None, ws, io)" by (auto simp: label_patch_def split: option.split)
  then show ?thesis using True assms(4,5) by auto
next
  case False
  then obtain v where v: "gomap_get (om_Labels (obj_meta obj)) SingletonstatusLabelKey = Some v" "hub_Patch K ws (singleton_patch v) io = (e, ws', io')"
    using assms(5) by (auto simp: label_patch_def)
  have "label_value v" using assms(3) v(1) by (simp add: plain_label_def)
  note p = busy_Patch [OF assms(1,2) this v(2), unfolded assms(4)]
  then have "e = None \<Longrightarrow> ws_key ws' = k" using hub_docD(1) [OF assms(1)] by blast
  with p v(1) show ?thesis by auto
qed

lemma busy_report_status:
  assumes "hub_doc E store" "interferes R (hub E) K" "plain_label obj" "ws_key ws = k" "report_status (busy E K) obj ws io = (err, io')"
  shows "shared_run store R k (fst io) (fst io') \<and> (err = None \<longrightarrow> (\<exists>ws'. store (fst io') k = Some ws' \<and>
    GetObjectStatusAsBytes E obj = Inr (Raw (ws_Status ws')) \<and> (leaves store R k \<longrightarrow> store (fst io) k = Some ws \<longrightarrow> reports E obj ws')))"
proof -
  obtain e1 ws1 io1 where p: "label_patch (busy E K) obj ws io = (e1, ws1, io1)" by (metis prod_cases3)
  note l = busy_label_patch [OF assms(1-4) p]
  show ?thesis
  proof (cases "e1 = None \<and> (\<exists>raw. GetObjectStatusAsBytes E obj = Inr raw)")
    case True
    then obtain raw where raw: "e1 = None" "GetObjectStatusAsBytes E obj = Inr raw" by blast
    obtain ws2 where u: "hub_StatusUpdate K (ws1\<lparr>ws_Status := \<lparr>Raw = raw\<rparr>\<rparr>) io1 = (err, ws2, io')"
      using assms(5) p raw by (auto simp: report_status_patch split: prod.splits)
    have "ws_key (ws1\<lparr>ws_Status := \<lparr>Raw = raw\<rparr>\<rparr>) = k" using l raw(1) by (simp add: ws_key_def)
    note u = busy_StatusUpdate [OF assms(1,2) u, unfolded this]
    have "shared_run store R k (fst io) (fst io')" using l u by (blast intro: shared_run_trans)
    moreover have "reports E obj ws2" if "err = None" "leaves store R k" "store (fst io) k = Some ws"
      using l u raw that by (simp add: reports_def)
    ultimately show ?thesis using u raw by auto
  next
    case False
    then have "err \<noteq> None" "io' = io1"
      using assms(5) p by (auto simp: report_status_patch split: option.splits sum.splits)
    then show ?thesis using l by auto
  qed
qed

lemma busy_create_workStatus:
  assumes "hub_doc E store" "interferes R (hub E) K" "owner_ref_doc E" "ws_key ws = k"
    and "create_workStatus (busy E K) obj aWork ws s io = Ret (r, io')"
  shows "shared_run store R k (fst io) (fst io') \<and> (\<forall>ws'. r = Inr (Some ws') \<longrightarrow> store (fst io') k = Some ws' \<and> ws_key ws' = k) \<and>
    (r = Inr None \<longrightarrow> (\<exists>mw. hc_GetManifestWork K (clusterName s) (amw_ManifestWorkName aWork) (fst io) = (Inr mw, fst io') \<and>
       \<not> managed_by_ks E (om_Labels (mw_ObjectMeta mw))))"
proof -
  have ks: "managed_by_ks (busy E K) l = managed_by_ks E l" for l by (simp add: managed_by_ks_def)
  show ?thesis
    using assms(5)
  proof (cases rule: create_workStatus_cases)
    case (created mw w m ws1 gvr err ws2 w2)
    have "owner_ref_doc (busy E K)" using assms(3) by (simp add: owner_ref_doc_def)
    then have key: "ws_key (created_object obj gvr ws1) = k"
      using copy_singleton_label_keeps [OF created(4)] created(3) assms(4)
      by (auto simp: ws_key_def same_key_def created_object_def owner_ref_doc_def)
    have g: "shared_run store R k (fst io) w" using busy_GetManifestWork(1) [OF assms(1,2)] created(1) by simp
    have "hc_Create K (created_object obj gvr ws1) w = (err, ws2, w2)" using created(6) by simp
    note c = busy_Create [OF assms(1,2) this, unfolded key]
    have "err = None \<Longrightarrow> ws_key ws2 = k" using c hub_docD(1) [OF assms(1)] by blast
    with g c created(7,8) show ?thesis by (auto intro: shared_run_trans split: option.splits)
  next
    case (unmanaged mw w)
    then show ?thesis using busy_GetManifestWork(1) [OF assms(1,2)] ks by auto
  qed (use busy_GetManifestWork(1) [OF assms(1,2)] in auto)
qed

lemma busy_delete_workStatus:
  assumes "hub_doc E store" "interferes R (hub E) K" "ws_key ws = k" "delete_workStatus (busy E K) ws io = (err, io')"
  shows "shared_run store R k (fst io) (fst io') \<and>
    ((\<forall>ws w e w'. hc_Delete K ws w = (Some e, w') \<longrightarrow> IsNotFound E e) \<longrightarrow> err = None \<longrightarrow> store (fst io') k = None)"
proof -
  obtain e ws1 io1 where g: "hub_Get K ws io = (e, ws1, io1)" by (metis prod_cases3)
  note get = busy_Get [OF assms(1,2) g, where k = k, unfolded assms(3)]
  show ?thesis
  proof (cases "\<exists>x. e = Some x \<and> \<not> IsNotFound E x")
    case True
    then have "err = e" "io' = io1" using assms(4) g by (auto simp: delete_workStatus_def)
    then show ?thesis using get True by auto
  next
    case False
    obtain d w where d: "hc_Delete K ws1 (fst io1) = (d, w)" by (rule prod.exhaust)
    have w: "fst io' = w" using assms(4) g d False
      by (auto simp: delete_workStatus_def hub_Delete_def split: option.splits)
    have "ws_key ws1 = k" using get False hub_docD(1) [OF assms(1), of "fst io1" k ws1] assms(3) by (cases e) auto
    note del = busy_Delete [OF assms(1,2) d, unfolded this]
    have "shared_run store R k (fst io) w" using get del by (blast intro: shared_run_trans)
    moreover have "store w k = None" if "\<forall>ws w e w'. hc_Delete K ws w = (Some e, w') \<longrightarrow> IsNotFound E e"
      using del d that by blast
    ultimately show ?thesis unfolding w by blast
  qed
qed

section \<open>The handler\<close>

text \<open>
  What a run of the handler that started in \<open>s\<close> and returned nil leaves on the hub \<open>w\<close>: for a deleted object no
  WorkStatus, if deletes fail only on absent objects; for another one a WorkStatus with its status (and its
  singleton label, if the others keep off it), or nothing, the manifest work having none of KubeStellar's
  labels when it was read last.
\<close>

definition delivered :: "('w, 'm, 'g) env \<Rightarrow> 'w hub_client \<Rightarrow> 'w hub_store \<Rightarrow> ('w \<Rightarrow> 'w \<Rightarrow> bool) \<Rightarrow> runtime_object \<Rightarrow>
    AppliedManifestWork \<Rightarrow> bool \<Rightarrow> ('m, 'w) sys \<Rightarrow> 'w \<Rightarrow> bool" where
  "delivered E K store R obj aWork isBeingDeleted s w' \<longleftrightarrow> (if isBeingDeleted
     then (\<forall>ws w e w'. hc_Delete K ws w = (Some e, w') \<longrightarrow> IsNotFound E e) \<longrightarrow> store w' (clusterName s, BuildWorkstatusName E aWork obj) = None
     else (\<exists>ws. store w' (clusterName s, BuildWorkstatusName E aWork obj) = Some ws \<and> GetObjectStatusAsBytes E obj = Inr (Raw (ws_Status ws)) \<and>
            (leaves store R (clusterName s, BuildWorkstatusName E aWork obj) \<longrightarrow> reports E obj ws)) \<or>
          (\<exists>w mw. shared_run store R (clusterName s, BuildWorkstatusName E aWork obj) (world s) w \<and>
            hc_GetManifestWork K (clusterName s) (amw_ManifestWorkName aWork) w = (Inr mw, w') \<and>
            \<not> managed_by_ks E (om_Labels (mw_ObjectMeta mw))))"

lemma handleWorkStatus_busy:
  assumes "hub_doc E store" "interferes R (hub E) K" "owner_ref_doc E" "plain_label obj"
    and "GetAppliedManifestWork E (cache_view E (world s)) obj (listers s) = Ret (Inr aWork)"
    and "handleWorkStatus (busy E K) obj isBeingDeleted s = Ret (err, t)"
  shows "shared_run store R (clusterName s, BuildWorkstatusName E aWork obj) (world s) (world t) \<and>
    (err = None \<longrightarrow> delivered E K store R obj aWork isBeingDeleted s (world t))"
proof -
  note delivered_def [simp]
  let ?k = "(clusterName s, BuildWorkstatusName E aWork obj)"
  have io [simp]: "world (put_io x s) = fst x" for x by (simp add: put_io_def)
  have nf [simp]: "IsNotFound (busy E K) = IsNotFound E" by simp
  have tk: "ws_key (target_ws E aWork obj s) = ?k" by (simp add: ws_key_def new_WorkStatus_def new_meta_def)
  have amw: "GetAppliedManifestWork (busy E K) (cache_view (busy E K) (world s)) obj (listers s) = Ret (Inr aWork)"
    using assms(5) by simp
  have get: "shared_run store R ?k (world s) (fst io) \<and> (e = None \<longrightarrow> store (fst io) ?k = Some ws \<and> ws_key ws = ?k) \<and>
      (\<forall>x. e = Some x \<longrightarrow> IsNotFound E x \<longrightarrow> ws_key ws = ?k)"
    if "hub_Get K (target_ws E aWork obj s) (sys_io s) = (e, ws, io)" for e ws io
    using busy_Get [OF assms(1,2) that, where k = ?k] hub_docD(1) [OF assms(1), of "fst io" ?k ws] tk by auto
  show ?thesis
    using assms(6)
  proof (cases rule: handleWorkStatus_cases)
    case (no_amw e) with amw show ?thesis by simp
  next
    case (delete aWork' io)
    then have "delete_workStatus (busy E K) (target_ws E aWork obj s) (sys_io s) = (err, io)" using amw by simp
    from busy_delete_workStatus [OF assms(1,2) tk this] delete show ?thesis by auto
  next
    case (failed aWork' e ws io)
    then have "hub_Get K (target_ws E aWork obj s) (sys_io s) = (Some e, ws, io)" using amw by simp
    from get [OF this] failed show ?thesis by simp
  next
    case (found aWork' ws io io')
    then have "hub_Get K (target_ws E aWork obj s) (sys_io s) = (None, ws, io)" using amw by simp
    note g = get [OF this]
    from busy_report_status [OF assms(1,2,4) _ found(4), of ?k] g found(2,5) show ?thesis
      by (auto intro: shared_run_trans)
  next
    case (missing aWork' e ws io r io1)
    then have "hub_Get K (target_ws E aWork obj s) (sys_io s) = (Some e, ws, io)" using amw by simp
    note g = get [OF this]
    have "create_workStatus (busy E K) obj aWork ws s io = Ret (r, io1)" using missing amw by simp
    note c = busy_create_workStatus [OF assms(1-3) _ this, of ?k]
    show ?thesis
    proof (cases "\<exists>ws1. r = Inr (Some ws1)")
      case True
      then obtain ws1 io2 where r: "r = Inr (Some ws1)" "report_status (busy E K) obj ws1 io1 = (err, io2)" "t = put_io io2 s"
        using missing(6) by auto
      have c1: "shared_run store R ?k (fst io) (fst io1)" "store (fst io1) ?k = Some ws1" "ws_key ws1 = ?k" using c g missing(4) r(1) by auto
      from busy_report_status [OF assms(1,2,4) c1(3) r(2)] c1 g r(3) missing(2) show ?thesis
        by (auto intro: shared_run_trans)
    next
      case False
      then have "t = put_io io1 s" "err = None \<longrightarrow> r = Inr None"
        using missing(6) by (auto split: sum.splits option.splits)
      with c g missing(2,4) show ?thesis by (auto intro: shared_run_trans)
    qed
  qed
qed

section \<open>Properties\<close>

text \<open>
  Property C10: on a hub that others change between its calls, \<^verbatim>\<open>handleWorkStatus\<close> changes at most the WorkStatus of its
  object: every other change is one of the others'. When it returns nil for an existing object, the hub, at that
  moment, has a WorkStatus of the object with the object's status, with the singleton label too if the others
  keep off this one WorkStatus; or its last call read the manifest work, which had none of KubeStellar's labels. For a
  deleted object nil alone says nothing about the hub, as an error of the delete call is dropped (\<open>handleWorkStatus_delete_error\<close>); but if deletes fail only
  on absent objects, then, when it returns nil, the hub has no WorkStatus of the object at that moment.
\<close>

theorem handleWorkStatus_interference:
  assumes "hub_doc E store" "interferes R (hub E) K" "owner_ref_doc E" "plain_label obj"
    and "GetAppliedManifestWork E (cache_view E (world s)) obj (listers s) = Ret (Inr aWork)"
    and "handleWorkStatus (busy E K) obj isBeingDeleted s = Ret (err, t)"
  shows "shared_run store R (clusterName s, BuildWorkstatusName E aWork obj) (world s) (world t) \<and>
    (err = None \<longrightarrow> (if isBeingDeleted
       then (\<forall>ws w e w'. hc_Delete K ws w = (Some e, w') \<longrightarrow> IsNotFound E e) \<longrightarrow> store (world t) (clusterName s, BuildWorkstatusName E aWork obj) = None
       else (\<exists>ws. store (world t) (clusterName s, BuildWorkstatusName E aWork obj) = Some ws \<and> GetObjectStatusAsBytes E obj = Inr (Raw (ws_Status ws)) \<and>
              (leaves store R (clusterName s, BuildWorkstatusName E aWork obj) \<longrightarrow> reports E obj ws)) \<or>
            (\<exists>w mw. shared_run store R (clusterName s, BuildWorkstatusName E aWork obj) (world s) w \<and>
              hc_GetManifestWork K (clusterName s) (amw_ManifestWorkName aWork) w = (Inr mw, world t) \<and>
              \<not> managed_by_ks E (om_Labels (mw_ObjectMeta mw)))))"
  using handleWorkStatus_busy [OF assms] unfolding delivered_def .

text \<open>A hub on which the agent of another cluster writes a WorkStatus before each call.\<close>

definition busy_hub :: "('w \<Rightarrow> 'w) \<Rightarrow> 'w hub_client \<Rightarrow> 'w hub_client" where
  "busy_hub f H = \<lparr>hc_Get = \<lambda>ns n ws w. hc_Get H ns n ws (f w), hc_GetManifestWork = \<lambda>ns n w. hc_GetManifestWork H ns n (f w),
     hc_Create = \<lambda>ws w. hc_Create H ws (f w), hc_Delete = \<lambda>ws w. hc_Delete H ws (f w), hc_Patch = \<lambda>ws p w. hc_Patch H ws p (f w),
     hc_StatusUpdate = \<lambda>ws w. hc_StatusUpdate H ws (f w)\<rparr>"

lemma busy_hub_interferes: "interferes (\<lambda>w v. v = f w) H (busy_hub f H)"
  by (simp add: interferes_def busy_hub_def)

definition ex_other :: "cluster \<Rightarrow> cluster" where
  "ex_other = cl_put (new_WorkStatus ''cluster2'' ''other'')"

definition ex_busy :: "(unit, cluster) sys" where
  "ex_busy = ex_sys\<lparr>world := cl_put ex_reported ex_world\<rparr>"

lemma ex_reported_key: "ws_key ex_reported = (''cluster1'', BuildWorkstatusName cl_env ex_aWork ex_deployment)"
  "ws_key (new_WorkStatus ''cluster2'' ''other'') = (''cluster2'', ''other'')"
  by (simp_all add: ws_key_def ex_reported_def new_WorkStatus_def new_meta_def Let_def)

lemma ex_busy_GetAMW:
  "GetAppliedManifestWork cl_env (cache_view cl_env (world ex_busy)) ex_deployment (listers ex_busy) = Ret (Inr ex_aWork)"
proof -
  have "cl_find (cl_put ws w) = cl_find w" for ws w by (simp add: cl_find_def cl_put_def fun_eq_iff)
  then show ?thesis using ex_GetAMW by (simp add: ex_busy_def)
qed

lemma ex_reports: "reports cl_env ex_deployment ex_reported"
  using ex_status by (simp add: reports_def ex_reported_def Let_def)

lemma ex_busy_returns:
  assumes w: "world s = cl_put ex_reported ex_world" and c: "clusterName s = ''cluster1''"
    and amw: "GetAppliedManifestWork cl_env (cache_view cl_env (world s)) ex_deployment (listers s) = Ret (Inr ex_aWork)"
  shows "\<exists>t. handleWorkStatus (busy cl_env (busy_hub ex_other (hub cl_env))) ex_deployment False s = Ret (None, t) \<and>
     cl_labels (world t) = cl_labels ex_world"
proof -
  let ?K = "busy_hub ex_other (hub cl_env)" and ?n = "BuildWorkstatusName cl_env ex_aWork ex_deployment"
  let ?w = "ex_other (cl_put ex_reported ex_world)"
  have look: "fmlookup (cl_ws ?w) (''cluster1'', ?n) = Some ex_reported" "fmlookup (cl_ws (ex_other ?w)) (''cluster1'', ?n) = Some ex_reported"
    using ex_reported_key by (simp_all add: ex_other_def cl_put_def)
  have same: "ex_reported\<lparr>ws_ObjectMeta := (ws_ObjectMeta ex_reported)\<lparr>om_Name := ?n, om_Namespace := ''cluster1''\<rparr>\<rparr> = ex_reported"
    by (simp add: ex_reported_def Let_def new_WorkStatus_def new_meta_def)
  obtain l where g: "hub_Get ?K (target_ws cl_env ex_aWork ex_deployment s) (sys_io s) = (None, ex_reported, ?w, l)"
    using look(1) same by (simp add: hub_Get_def busy_hub_def cl_hub_def cl_get_def new_WorkStatus_def new_meta_def w c)
  have "label_patch (busy cl_env ?K) ex_deployment ex_reported (?w, l) = (None, ex_reported, ?w, l)"
    using ex_reports by (auto simp: label_patch_def reports_def split: option.split)
  then have "\<exists>io. report_status (busy cl_env ?K) ex_deployment ex_reported (?w, l) = (None, io) \<and> cl_labels (fst io) = cl_labels ex_world"
    using look(2) ex_status ex_reported_key(1)
    by (simp add: report_status_patch hub_StatusUpdate_def busy_hub_def cl_hub_def cl_modify_def ws_key_def Let_def cl_put_def ex_other_def)
  then obtain io where r: "report_status (busy cl_env ?K) ex_deployment ex_reported (?w, l) = (None, io)" "cl_labels (fst io) = cl_labels ex_world"
    by blast
  show ?thesis using g r amw by (simp add: handleWorkStatus_def Let_def put_io_def)
qed

theorem handleWorkStatus_interference_witness:
  "\<exists>t ws. handleWorkStatus (busy cl_env (busy_hub ex_other (hub cl_env))) ex_deployment False ex_busy = Ret (None, t) \<and>
     cl_store (world t) (''cluster1'', BuildWorkstatusName cl_env ex_aWork ex_deployment) = Some ws \<and> reports cl_env ex_deployment ws"
proof -
  let ?k = "(''cluster1'', BuildWorkstatusName cl_env ex_aWork ex_deployment)"
  obtain t where t: "handleWorkStatus (busy cl_env (busy_hub ex_other (hub cl_env))) ex_deployment False ex_busy = Ret (None, t)"
    "cl_labels (world t) = cl_labels ex_world"
    using ex_busy_returns [OF _ _ ex_busy_GetAMW] by (auto simp: ex_busy_def)
  have "managed_by_ks cl_env (om_Labels (mw_ObjectMeta mw))"
    if "hc_GetManifestWork (busy_hub ex_other (hub cl_env)) ns n w = (Inr mw, world t)" for ns n w mw
    using that t(2) ex_managed by (auto simp: busy_hub_def cl_hub_def)
  moreover have "leaves cl_store (\<lambda>w v. v = ex_other w) ?k"
    using ex_reported_key(2) by (simp add: leaves_def cl_store_def ex_other_def cl_put_def)
  moreover have "clusterName ex_busy = ''cluster1''" by (simp add: ex_busy_def)
  ultimately show ?thesis
    using handleWorkStatus_interference [OF cl_hub_doc busy_hub_interferes cl_env_laws(7) ex_plain_label ex_busy_GetAMW t(1)] t(1)
    by fastforce
qed

end
