(* ===== verification/Delivery.thy ===== *)
theory Delivery
  imports Agent Interference
begin

text \<open>
  From an event to the hub: pkg/agent/agent.go (event handlers and workers) and pkg/agent/reconcilers.go
  together. An event of an object queues a key; at any later time a worker takes the key, finds the object in
  the caches as it then is, and reports it to a hub that others change meanwhile. The theory shows that the
  worker drops the key only when the hub has the report, and keeps it in the queue otherwise.
\<close>

section \<open>The key of an event, and the worker that takes it\<close>

fun event_object :: "event \<Rightarrow> go_any" where
  "event_object (Added x) = x"
| "event_object (Updated old x) = x"
| "event_object (Deleted x) = x"

lemma wq_log_inject: "wq_log [WQ_Add k] s = wq_log [WQ_Add k'] s \<longleftrightarrow> k = k'"
  by (auto simp: wq_log_def dest: arg_cong [where f = workqueue])

lemma wq_log_neq: "s \<noteq> wq_log [c] s"
proof
  assume "s = wq_log [c] s"
  then have "workqueue s = workqueue (wq_log [c] s)" by (rule arg_cong)
  then show False by simp
qed

lemma event_key:
  assumes "key_docs E" "plain_names obj" "event_object ev = AnyObject obj" "on_event E ev s = Ret (wq_log [WQ_Add key] s)"
  shows "key = (case cached E obj s of
    Inl e \<Rightarrow> (key_of obj)\<lparr>DeletedObject := Some (CopyObjectMetaAndType obj)\<rparr> | Inr x \<Rightarrow> key_of obj)"
proof -
  have "handleObject E (AnyObject obj) s = Ret (wq_log [WQ_Add key] s)"
    using assms(3,4) wq_log_neq [of s "WQ_Add key"] by (cases ev) (auto simp: bindO_eq_Ret split: if_splits)
  then show ?thesis
    using handleObject_documented [OF assms(1,2), of s] wq_log_neq [of s "WQ_Add key"]
    by (auto simp: wq_log_inject split: sum.splits if_splits)
qed

lemma event_key_drop:
  assumes "key_docs E" "plain_names obj" "event_object ev = AnyObject obj" "on_event E ev s = Ret (wq_log [WQ_Add key] s)"
  shows "\<exists>d. key = (key_of obj)\<lparr>DeletedObject := d\<rparr>"
proof -
  have "key_of obj = (key_of obj)\<lparr>DeletedObject := None\<rparr>" by (simp add: key_of_def)
  then show ?thesis using event_key [OF assms] by (cases "cached E obj s") auto
qed

lemma worker_handles:
  assumes "sys_inv s" "reconcile E key s = bindO (handleWorkStatus E obj del s) (\<lambda>(err, t). Ret ((False, err), t))"
    and "processNextWorkItem E (Some (ItemKey key)) s = Ret (b, t)"
  obtains err u where "handleWorkStatus E obj del s = Ret (err, u)" "world t = world u"
    "workqueue t = workqueue s @ [if err = None then WQ_Forget (ItemKey key) else WQ_AddRateLimited (ItemKey key), WQ_Done (ItemKey key)]"
  using assms(3)
proof (cases rule: processNextWorkItem_cases)
  case (retry key' rq err u)
  then have "bindO (handleWorkStatus E obj del s) (\<lambda>(err, t). Ret ((False, err), t)) = Ret ((rq, err), u)" using assms(2) by simp
  then have "handleWorkStatus E obj del s = Ret (err, u)" "err \<noteq> None" using retry(4) by (auto simp: bindO_eq_Ret)
  then show thesis using that [of err u] retry reconcile_workqueue [OF assms(1) retry(3)] by simp
next
  case (finished key' u)
  then have "bindO (handleWorkStatus E obj del s) (\<lambda>(err, t). Ret ((False, err), t)) = Ret ((False, None), u)" using assms(2) by simp
  then have "handleWorkStatus E obj del s = Ret (None, u)" by (auto simp: bindO_eq_Ret)
  then show thesis using that [of None u] finished reconcile_workqueue [OF assms(1) finished(3)] by simp
qed simp

lemma busy_worker:
  assumes "hub_doc E store" "interferes R (hub E) K" "owner_ref_doc E" "plain_label obj" "sys_inv s"
    and "GetAppliedManifestWork E (cache_view E (world s)) obj (listers s) = Ret (Inr aWork)"
    and "reconcile (busy E K) key s = bindO (handleWorkStatus (busy E K) obj del s) (\<lambda>(err, t). Ret ((False, err), t))"
    and "processNextWorkItem (busy E K) (Some (ItemKey key)) s = Ret (b, t)"
  shows "shared_run store R (clusterName s, BuildWorkstatusName E aWork obj) (world s) (world t) \<and>
    (workqueue t = workqueue s @ [WQ_Forget (ItemKey key), WQ_Done (ItemKey key)] \<and> delivered E K store R obj aWork del s (world t) \<or>
     workqueue t = workqueue s @ [WQ_AddRateLimited (ItemKey key), WQ_Done (ItemKey key)])"
proof -
  obtain err u where u: "handleWorkStatus (busy E K) obj del s = Ret (err, u)" "world t = world u"
    "workqueue t = workqueue s @ [if err = None then WQ_Forget (ItemKey key) else WQ_AddRateLimited (ItemKey key), WQ_Done (ItemKey key)]"
    using worker_handles [OF assms(5,7,8)] .
  with handleWorkStatus_busy [OF assms(1-4,6) u(1)] show ?thesis by (cases err) auto
qed

lemma busy_docs [simp]: "key_docs (busy E K) = key_docs E" "cached (busy E K) obj s = cached E obj s"
  by (simp_all add: key_docs_def gv_string_doc_def meta_key_doc_def split_key_doc_def cached_def split: option.split)

section \<open>Properties\<close>

text \<open>
  Property C4: no event of an existing object is lost. Let an event of an object, of any kind of event, have queued a key, and let a
  worker take the key in a later state, in which the object, in the version then cached, is one to report.
  When the worker is done, either the key has left the queue, and the hub has a WorkStatus with the status
  of the cached version (or the manifest work, read last, has none of KubeStellar's labels); or the key is back in the
  queue. All this on a hub that others change between the calls, of which the worker changes this one WorkStatus only.
\<close>

theorem existing_object_delivered:
  assumes "key_docs E" "hub_doc E store" "interferes R (hub E) K" "owner_ref_doc E" "plain_names obj"
    and "event_object ev = AnyObject obj" "on_event (busy E K) ev s0 = Ret (wq_log [WQ_Add key] s0)"
    and "sys_inv s" "cached E obj s = Inr obj'" "\<not> IsAppliedManifestWork (AnyObject obj')" "IsManagedByAppliedManifestWork obj'"
    and "plain_label obj'" "GetAppliedManifestWork E (cache_view E (world s)) obj' (listers s) = Ret (Inr aWork)"
    and "processNextWorkItem (busy E K) (Some (ItemKey key)) s = Ret (b, t)"
  shows "shared_run store R (clusterName s, BuildWorkstatusName E aWork obj') (world s) (world t) \<and>
    (workqueue t = workqueue s @ [WQ_Forget (ItemKey key), WQ_Done (ItemKey key)] \<and> delivered E K store R obj' aWork False s (world t) \<or>
     workqueue t = workqueue s @ [WQ_AddRateLimited (ItemKey key), WQ_Done (ItemKey key)])"
proof (rule busy_worker [OF assms(2-4,12,8,13) _ assms(14)])
  obtain d where "key = (key_of obj)\<lparr>DeletedObject := d\<rparr>" using event_key_drop [OF _ assms(5-7)] assms(1) by auto
  then show "reconcile (busy E K) key s = bindO (handleWorkStatus (busy E K) obj' False s) (\<lambda>(err, t). Ret ((False, err), t))"
    using reconcile_existing [of "busy E K" obj s obj' d] assms(1,5,9-11) by simp
qed

text \<open>
  A key is retried without end while its applied manifest work is not cached. For a deleted object whose
  work has gone before the key was processed, and whose kind other works keep watched, that is forever.
\<close>

lemma orphan_retried:
  assumes "reconcile E key s = bindO (handleWorkStatus E obj del s) (\<lambda>(err, t). Ret ((False, err), t))"
    and "GetAppliedManifestWork E (cache_view E (world s)) obj (listers s) = Ret (Inl e)"
  shows "\<exists>t. processNextWorkItem E (Some (ItemKey key)) s = Ret (True, t) \<and> world t = world s \<and>
    workqueue t = workqueue s @ [WQ_AddRateLimited (ItemKey key), WQ_Done (ItemKey key)]"
  using assms by (simp add: processNextWorkItem_def handleWorkStatus_def)

text \<open>
  Property C5: what becomes of the key of a deletion. Let the deletion event of a reported object, which the cache does not have, have queued a
  key, and let a worker take it in a later state, in which the object is still absent from the cache. If the object's kind has no lister any more,
  the key leaves the queue and nothing else happens: a WorkStatus stays on the hub. Otherwise, if the applied manifest work
  cannot be had from the cache, the key is back in the queue and the hub is as before. Otherwise, when the worker is done, either the
  key has left the queue and, if deletes fail only on absent objects, the hub has no WorkStatus of the object; or the key is
  back in the queue; and the worker has changed this one WorkStatus only, on a hub that others may change between the calls.
\<close>

theorem deleted_object_delivered:
  assumes "key_docs E" "not_found_doc E" "hub_doc E store" "interferes R (hub E) K" "owner_ref_doc E" "plain_names obj"
    and "on_event (busy E K) (Deleted (AnyObject obj)) s0 = Ret (wq_log [WQ_Add key] s0)" "cached E obj s0 = Inl e0"
    and "sys_inv s" "cached E obj s = Inl e" "SafeMap_Get (listers s) (gvk_key (obj_gvk obj)) \<noteq> None \<longrightarrow> IsNotFound E e"
    and "\<not> IsAppliedManifestWork (AnyObject obj)" "IsManagedByAppliedManifestWork obj" "plain_label obj"
    and "processNextWorkItem (busy E K) (Some (ItemKey key)) s = Ret (b, t)"
  shows "if SafeMap_Get (listers s) (gvk_key (obj_gvk obj)) = None then t = wq_log [WQ_Forget (ItemKey key), WQ_Done (ItemKey key)] s
    else (\<exists>err. GetAppliedManifestWork E (cache_view E (world s)) obj (listers s) = Ret (Inl err)) \<and> world t = world s \<and>
        workqueue t = workqueue s @ [WQ_AddRateLimited (ItemKey key), WQ_Done (ItemKey key)] \<or>
      (\<exists>aWork. GetAppliedManifestWork E (cache_view E (world s)) obj (listers s) = Ret (Inr aWork) \<and>
        shared_run store R (clusterName s, BuildWorkstatusName E aWork obj) (world s) (world t) \<and>
        (workqueue t = workqueue s @ [WQ_Forget (ItemKey key), WQ_Done (ItemKey key)] \<and>
           ((\<forall>ws w e w'. hc_Delete K ws w = (Some e, w') \<longrightarrow> IsNotFound E e) \<longrightarrow> store (world t) (clusterName s, BuildWorkstatusName E aWork obj) = None) \<or>
         workqueue t = workqueue s @ [WQ_AddRateLimited (ItemKey key), WQ_Done (ItemKey key)]))"
proof (cases "SafeMap_Get (listers s) (gvk_key (obj_gvk obj))")
  case None
  have "GvkKey key = gvk_key (obj_gvk obj)"
    using event_key [OF _ assms(6) _ assms(7)] assms(1,8) by (simp add: key_of_def)
  then have "reconcile (busy E K) key s = Ret ((False, None), s)"
    using reconcile_no_lister [of "busy E K" s key] assms(2) None by (simp add: not_found_doc_def)
  then show ?thesis using assms(15) None by (simp add: processNextWorkItem_def)
next
  case (Some l)
  have "key = (key_of obj)\<lparr>DeletedObject := Some (CopyObjectMetaAndType obj)\<rparr>"
    using event_key [OF _ assms(6) _ assms(7)] assms(1,8) by simp
  then have r: "reconcile (busy E K) key s = bindO (handleWorkStatus (busy E K) obj True s) (\<lambda>(err, t). Ret ((False, err), t))"
    using reconcile_deleted [of "busy E K" obj s e] assms(1,6,10-13) Some by simp
  show ?thesis
  proof (cases "GetAppliedManifestWork E (cache_view E (world s)) obj (listers s)")
    case (Ret x)
    show ?thesis
    proof (cases x)
      case (Inl err)
      have "GetAppliedManifestWork (busy E K) (cache_view (busy E K) (world s)) obj (listers s) = Ret (Inl err)" using Ret Inl by simp
      from orphan_retried [OF r this] show ?thesis using Ret Inl Some assms(15) by auto
    next
      case (Inr aWork)
      from busy_worker [OF assms(3-5,14,9) Ret [unfolded Inr] r assms(15)] Ret Inr Some show ?thesis by (simp add: delivered_def)
    qed
  next
    case (Panic p)
    then have "reconcile (busy E K) key s = Panic p" by (simp add: r handleWorkStatus_def)
    then show ?thesis using assms(15) by (simp add: processNextWorkItem_def)
  qed
qed

subsection \<open>Examples\<close>

text \<open>The example cluster with an informer for its deployment, which the hub already reports; and with the deployment gone.\<close>

abbreviation ex_tracking :: "(unit, cluster) sys" where
  "ex_tracking \<equiv> track_object \<lparr>gvr_Group = ''apps'', gvr_Version = ''v1'', gvr_Resource = ''deployments''\<rparr> (obj_gvk ex_deployment) ''u-web'' ex_started"

abbreviation ex_busy_env :: "(cluster, unit, unit) env" where
  "ex_busy_env \<equiv> busy cl_env (busy_hub ex_other (hub cl_env))"

definition ex_live :: "(unit, cluster) sys" where
  "ex_live = ex_tracking\<lparr>world := cl_put ex_reported ex_world\<rparr>"

lemma ex_tracking_listers:
  "\<exists>l. SafeMap_Get (listers ex_tracking) (gvk_key (obj_gvk ex_deployment)) = Some l \<and> lst_Resource l = ''deployments''"
  "\<exists>l. SafeMap_Get (listers ex_tracking) amw_key = Some l \<and> lst_Resource l = AppliedManifestWorkResource"
proof -
  have u: "uids_of (objectsCount ex_started) k = {}" for k by (simp add: ex_started_def new_agent_def)
  have k: "gvk_key (obj_gvk ex_deployment) \<noteq> amw_key"
    by (simp add: gvk_key_def ex_deployment_def KeyForGroupVersionKind_def amw_key_def workv1_Group_def)
  have a: "\<exists>l. SafeMap_Get (listers ex_started) amw_key = Some l \<and> lst_Resource l = AppliedManifestWorkResource"
    by (simp add: ex_started_def open_stopper_def new_agent_def startAppliedManifestWorkInformer_def Let_def amw_key_eq amw_gvk_def)
  show "\<exists>l. SafeMap_Get (listers ex_tracking) (gvk_key (obj_gvk ex_deployment)) = Some l \<and> lst_Resource l = ''deployments''"
    "\<exists>l. SafeMap_Get (listers ex_tracking) amw_key = Some l \<and> lst_Resource l = AppliedManifestWorkResource"
    using u k a by (cases rule: track_object_cases [of ex_started "obj_gvk ex_deployment" "''u-web''"
          "\<lparr>gvr_Group = ''apps'', gvr_Version = ''v1'', gvr_Resource = ''deployments''\<rparr>"]; simp add: startInformer_def Let_def)+
qed

lemma ex_tracking_inv: "sys_inv (ex_tracking\<lparr>world := w\<rparr>)" "clusterName ex_tracking = ''cluster1''"
proof -
  have "sys_inv ex_started" using started_agent_ok [OF ex_started] by (simp add: agent_ok_def)
  then show "sys_inv (ex_tracking\<lparr>world := w\<rparr>)"
    by (simp add: sys_inv_def tracked_wf_def spawned_wf_def track_object_agent_inv)
  show "clusterName ex_tracking = ''cluster1''" by (simp add: ex_started_def new_agent_def open_stopper_def startAppliedManifestWorkInformer_def Let_def)
qed

lemma ex_live_facts:
  "sys_inv ex_live" "clusterName ex_live = ''cluster1''" "world ex_live = cl_put ex_reported ex_world"
  "cached cl_env ex_deployment ex_live = Inr ex_deployment"
  "GetAppliedManifestWork cl_env (cache_view cl_env (world ex_live)) ex_deployment (listers ex_live) = Ret (Inr ex_aWork)"
proof -
  have find: "cl_find (cl_put ws w) = cl_find w" for ws w by (simp add: cl_find_def cl_put_def fun_eq_iff)
  show "sys_inv ex_live" "clusterName ex_live = ''cluster1''" using ex_tracking_inv by (simp_all add: ex_live_def)
  show "world ex_live = cl_put ex_reported ex_world" by (simp add: ex_live_def)
  show "cached cl_env ex_deployment ex_live = Inr ex_deployment"
    using ex_tracking_listers(1) by (auto simp: cached_def ex_live_def getObject_def find)
      (auto simp: cl_find_def ex_world_def ex_amw_object_def ex_deployment_def new_meta_def AppliedManifestWorkResource_def)
  show "GetAppliedManifestWork cl_env (cache_view cl_env (world ex_live)) ex_deployment (listers ex_live) = Ret (Inr ex_aWork)"
    using ex_tracking_listers(2) ex_GetAMW_listers by (auto simp: ex_live_def find)
qed

lemma ex_kind: "\<not> IsAppliedManifestWork (AnyObject ex_deployment)" "IsManagedByAppliedManifestWork ex_deployment"
  by (simp add: IsAppliedManifestWork_iff ex_deployment_def workv1_Group_def) (simp add: IsManagedByAppliedManifestWork_def ex_owner)

theorem existing_object_delivered_witness:
  "\<exists>t. processNextWorkItem ex_busy_env (Some (ItemKey (key_of ex_deployment))) ex_live = Ret (True, t) \<and>
     delivered cl_env (busy_hub ex_other (hub cl_env)) cl_store (\<lambda>w v. v = ex_other w) ex_deployment ex_aWork False ex_live (world t)"
proof -
  have ev: "on_event ex_busy_env (Added (AnyObject ex_deployment)) ex_live = Ret (wq_log [WQ_Add (key_of ex_deployment)] ex_live)"
    using handleObject_documented [of ex_busy_env ex_deployment ex_live] ex_docs(1,3) ex_live_facts(4) by simp
  obtain u where "handleWorkStatus ex_busy_env ex_deployment False ex_live = Ret (None, u)"
    using ex_busy_returns [OF ex_live_facts(3,2,5)] by blast
  then have r: "reconcile ex_busy_env (key_of ex_deployment) ex_live = Ret ((False, None), u)"
    using reconcile_key_of [of ex_busy_env ex_deployment ex_live] ex_docs(1,3) ex_live_facts(4) ex_kind by simp
  then obtain t where t: "processNextWorkItem ex_busy_env (Some (ItemKey (key_of ex_deployment))) ex_live = Ret (True, t)"
    "workqueue t = workqueue u @ [WQ_Forget (ItemKey (key_of ex_deployment)), WQ_Done (ItemKey (key_of ex_deployment))]"
    by (simp add: processNextWorkItem_def)
  with existing_object_delivered [OF ex_docs(1) cl_hub_doc busy_hub_interferes cl_env_laws(7) ex_docs(3) _ ev ex_live_facts(1,4) ex_kind
      ex_plain_label ex_live_facts(5) t(1)] reconcile_workqueue [OF ex_live_facts(1) r]
  show ?thesis by auto
qed

lemma ex_gone_facts:
  "sys_inv ex_gone" "clusterName ex_gone = ''cluster1''"
  "GetAppliedManifestWork cl_env (cache_view cl_env (world ex_gone)) ex_deployment (listers ex_gone) = Ret (Inr ex_aWork)"
proof -
  show "sys_inv ex_gone" "clusterName ex_gone = ''cluster1''" using ex_tracking_inv by (simp_all add: ex_gone_def)
  obtain l where l: "SafeMap_Get (listers ex_gone) amw_key = Some l" "lst_Resource l = AppliedManifestWorkResource"
    using ex_tracking_listers(2) by (auto simp: ex_gone_def)
  have find: "cl_find (world ex_gone) l '''' ''hub-work'' = Inr ex_amw_object"
    using l(2) by (simp add: cl_find_def ex_gone_def ex_amw_object_def new_meta_def)
  obtain g m c where u: "ex_amw_object = Unstructured g m c" by (simp add: ex_amw_object_def)
  show "GetAppliedManifestWork cl_env (cache_view cl_env (world ex_gone)) ex_deployment (listers ex_gone) = Ret (Inr ex_aWork)"
    using ex_decode find l(1) by (simp add: GetAppliedManifestWork_def ex_owner ToAppliedManifestWork_def u)
qed

lemma ex_gone_returns: "\<exists>u. handleWorkStatus ex_busy_env ex_deployment True ex_gone = Ret (None, u)"
proof -
  let ?n = "BuildWorkstatusName cl_env ex_aWork ex_deployment"
  have "fmlookup (cl_ws (ex_other (world ex_gone))) (''cluster1'', ?n) = None"
    using ex_reported_key(2) by (simp add: ex_other_def cl_put_def ex_gone_def ex_world_def)
  then show ?thesis
    using ex_gone_facts(2,3)
    by (simp add: handleWorkStatus_def delete_workStatus_def hub_Get_def hub_Delete_def busy_hub_def cl_hub_def cl_get_def Let_def
        new_WorkStatus_def new_meta_def split: prod.split)
qed

theorem deleted_object_delivered_witness:
  "\<exists>t. processNextWorkItem ex_busy_env (Some (ItemKey ((key_of ex_deployment)\<lparr>DeletedObject := Some (CopyObjectMetaAndType ex_deployment)\<rparr>))) ex_gone =
       Ret (True, t) \<and> cl_store (world t) (''cluster1'', BuildWorkstatusName cl_env ex_aWork ex_deployment) = None"
proof -
  let ?key = "(key_of ex_deployment)\<lparr>DeletedObject := Some (CopyObjectMetaAndType ex_deployment)\<rparr>"
  have nf: "IsNotFound cl_env (cl_not_found ''web'')" by simp
  have ev: "on_event ex_busy_env (Deleted (AnyObject ex_deployment)) ex_gone = Ret (wq_log [WQ_Add ?key] ex_gone)"
    using handleObject_documented [of ex_busy_env ex_deployment ex_gone] ex_docs(1,3) ex_gone_cached by (simp add: shouldSkipDelete_def)
  obtain u where "handleWorkStatus ex_busy_env ex_deployment True ex_gone = Ret (None, u)" using ex_gone_returns by blast
  then have r: "reconcile ex_busy_env ?key ex_gone = Ret ((False, None), u)"
    using reconcile_deleted [of ex_busy_env ex_deployment ex_gone "cl_not_found ''web''"] ex_docs(1,3) ex_gone_cached ex_kind by simp
  then obtain t where t: "processNextWorkItem ex_busy_env (Some (ItemKey ?key)) ex_gone = Ret (True, t)"
    "workqueue t = workqueue u @ [WQ_Forget (ItemKey ?key), WQ_Done (ItemKey ?key)]"
    by (simp add: processNextWorkItem_def)
  have "\<forall>ws w e w'. hc_Delete (busy_hub ex_other (hub cl_env)) ws w = (Some e, w') \<longrightarrow> IsNotFound cl_env e"
    by (simp add: busy_hub_def cl_hub_def)
  moreover have "SafeMap_Get (listers ex_gone) (gvk_key (obj_gvk ex_deployment)) \<noteq> None"
    using ex_tracking_listers(1) by (auto simp: ex_gone_def)
  ultimately show ?thesis
    using deleted_object_delivered [OF ex_docs(1) cl_env_laws(6) cl_hub_doc busy_hub_interferes cl_env_laws(7) ex_docs(3) ev ex_gone_cached
        ex_gone_facts(1) ex_gone_cached _ ex_kind ex_plain_label t(1)] nf t reconcile_workqueue [OF ex_gone_facts(1) r] ex_gone_facts(2,3)
    by auto
qed

end
