(* ===== verification/Workqueue.thy ===== *)
theory Workqueue
  imports Delivery
begin

text \<open>
  The work queue between the event handlers and the workers (pkg/agent/agent.go). The queue is client-go's; the
  agent's state has the calls made on it. From these calls follows, as client-go documents it, what the queue does with each
  item: whether it is to be processed (\<open>dirty\<close>) and whether a worker is processing it. The locale \<open>item_queue\<close> states what the
  agent needs of a queue, that an item waits until it is settled; it is interpreted on the steps of the agent.
  Beyond this only the queue's fairness is assumed, and only for the last theorem: an
  item that waits is handed to a worker in the end.
\<close>

section \<open>Items that wait\<close>

text \<open>
  The state of one item in client-go's queue: an added item is dirty; \<^verbatim>\<open>Get\<close> hands it out, which ends that and marks it as being processed;
  \<^verbatim>\<open>Done\<close> ends the processing, and an item that was added again meanwhile is then handed out again. \<^verbatim>\<open>AddRateLimited\<close> adds the
  item after a delay, and \<^verbatim>\<open>Forget\<close> only resets this delay. A queue that is shut down takes no more items; the agent's is shut down only
  when \<^verbatim>\<open>run\<close> ends.
\<close>

record item_state =
  dirty :: bool
  processing :: bool

fun item_after :: "wq_item \<Rightarrow> item_state \<Rightarrow> wq_call \<Rightarrow> item_state" where
  "item_after i q (WQ_Add key) = (if i = ItemKey key then q\<lparr>dirty := True\<rparr> else q)"
| "item_after i q (WQ_AddRateLimited j) = (if i = j then q\<lparr>dirty := True\<rparr> else q)"
| "item_after i q (WQ_Get j) = (if i = j then \<lparr>dirty = False, processing = True\<rparr> else q)"
| "item_after i q (WQ_Done j) = (if i = j then q\<lparr>processing := False\<rparr> else q)"
| "item_after i q (WQ_Forget j) = q"
| "item_after i q WQ_ShutDown = q"

definition item_in :: "wq_call list \<Rightarrow> wq_item \<Rightarrow> item_state" where
  "item_in log i = foldl (item_after i) \<lparr>dirty = False, processing = False\<rparr> log"

text \<open>The items that the queue may hand out, and a queue none of whose items is with a worker.\<close>

definition waiting :: "wq_call list \<Rightarrow> wq_item \<Rightarrow> bool" where
  "waiting log i \<longleftrightarrow> dirty (item_in log i) \<and> \<not> processing (item_in log i)"

definition idle :: "wq_call list \<Rightarrow> bool" where
  "idle log \<longleftrightarrow> (\<forall>i. \<not> processing (item_in log i))"

lemma item_in_Nil [simp]: "item_in [] i = \<lparr>dirty = False, processing = False\<rparr>"
  by (simp add: item_in_def)

lemma item_in_append [simp]: "item_in (log @ calls) i = foldl (item_after i) (item_in log i) calls"
  by (simp add: item_in_def)

text \<open>An item that waits is one that the steps of the agent may take.\<close>

lemma waiting_offered: "waiting log i \<Longrightarrow> offered log i"
proof -
  have "dirty (item_in log i) \<Longrightarrow> offered log i"
  proof (induction log rule: rev_induct)
    case (snoc c log)
    then show ?case by (cases c) (auto simp: offered_def split: if_splits)
  qed simp
  then show "waiting log i \<Longrightarrow> offered log i" by (simp add: waiting_def)
qed

text \<open>
  A worker takes an item; and settles it, if the item's reconciliation, when it is one of a key, neither fails nor asks to be tried again.
\<close>

definition takes :: "('w, 'm, 'g) env \<Rightarrow> wq_item \<Rightarrow> ('m, 'w) sys \<Rightarrow> ('m, 'w) sys \<Rightarrow> bool" where
  "takes E i s t \<longleftrightarrow> (\<exists>ord b. range_orders ord \<and> processNextWorkItem (E\<lparr>go_range := ord\<rparr>) (Some i) (wq_log [WQ_Get i] s) = Ret (b, t))"

definition settles :: "('w, 'm, 'g) env \<Rightarrow> wq_item \<Rightarrow> ('m, 'w) sys \<Rightarrow> ('m, 'w) sys \<Rightarrow> bool" where
  "settles E i s t \<longleftrightarrow> (\<exists>ord b. range_orders ord \<and> processNextWorkItem (E\<lparr>go_range := ord\<rparr>) (Some i) (wq_log [WQ_Get i] s) = Ret (b, t) \<and>
     (\<forall>key. i = ItemKey key \<longrightarrow> (\<exists>u. reconcile (E\<lparr>go_range := ord\<rparr>) key (wq_log [WQ_Get i] s) = Ret ((False, None), u))))"

section \<open>What the agent needs of a queue\<close>

locale item_queue = step_invariant step inv
  for step :: "'s \<Rightarrow> 's \<Rightarrow> bool" and inv :: "'s \<Rightarrow> bool" +
  fixes waits :: "'i \<Rightarrow> 's \<Rightarrow> bool" and taken settled :: "'i \<Rightarrow> 's \<Rightarrow> 's \<Rightarrow> bool"
  assumes keeps: "inv s \<Longrightarrow> step s t \<Longrightarrow> waits i s \<Longrightarrow> waits i t \<or> settled i s t"
begin

lemma not_lost:
  assumes "step\<^sup>*\<^sup>* s t" "inv s" "waits i s"
  shows "waits i t \<or> (\<exists>u u'. step\<^sup>*\<^sup>* s u \<and> settled i u u' \<and> step\<^sup>*\<^sup>* u' t)"
  using assms(1)
proof (induction rule: rtranclp_induct)
  case base
  then show ?case using assms(3) by blast
next
  case (step t t')
  from step reach [OF step(1) assms(2)] show ?case by (meson keeps rtranclp.rtrancl_into_rtrancl rtranclp.rtrancl_refl)
qed

lemma run_inv:
  assumes "\<And>k. step (r k) (r (Suc k))" "inv (r n)" "n \<le> m"
  shows "inv (r m)"
  using assms(3) by (induction m rule: dec_induct) (auto intro: assms(2) preserved [OF _ assms(1)])

lemma run_waits:
  assumes "\<And>k. step (r k) (r (Suc k))" "inv (r n)" "waits i (r n)" "n \<le> m"
  shows "waits i (r m) \<or> (\<exists>j \<ge> n. settled i (r j) (r (Suc j)))"
  using assms(4)
proof (induction m rule: dec_induct)
  case (step m)
  then show ?case using keeps [OF run_inv [OF assms(1,2)] assms(1)] by blast
qed (use assms(3) in simp)

text \<open>
  An item that waits is settled in the end, if waiting items are taken in the end and items that are taken
  after some time are settled.
\<close>

lemma settled_in_the_end:
  assumes "\<And>k. step (r k) (r (Suc k))" "inv (r n)" "waits i (r n)"
    and fair: "\<And>k. waits i (r k) \<Longrightarrow> \<exists>j \<ge> k. taken i (r j) (r (Suc j))"
    and good: "\<And>k. N \<le> k \<Longrightarrow> n \<le> k \<Longrightarrow> taken i (r k) (r (Suc k)) \<Longrightarrow> settled i (r k) (r (Suc k))"
  shows "\<exists>j \<ge> n. settled i (r j) (r (Suc j))"
proof (rule ccontr)
  assume none: "\<not> (\<exists>j \<ge> n. settled i (r j) (r (Suc j)))"
  then have "waits i (r (max n N))" using run_waits [OF assms(1-3), of "max n N"] by auto
  from fair [OF this] obtain j where "max n N \<le> j" "taken i (r j) (r (Suc j))" by blast
  with good [of j] none show False by simp
qed

end

text \<open>What a worker that takes an item leaves of the queue.\<close>

lemma worker_queue:
  assumes "agent_ok E s" "range_orders ord" "processNextWorkItem (E\<lparr>go_range := ord\<rparr>) (Some item) (wq_log [WQ_Get item] s) = Ret (b, t)"
  shows "workqueue t = workqueue s @ [WQ_Get item, WQ_AddRateLimited item, WQ_Done item] \<or>
    workqueue t = workqueue s @ [WQ_Get item, WQ_Forget item, WQ_Done item] \<and> settles E item s t"
proof -
  have inv: "sys_inv (wq_log [WQ_Get item] s)" using assms(1) by (simp add: agent_ok_def)
  from assms(3) show ?thesis
  proof (cases rule: processNextWorkItem_cases)
    case (other d)
    then show ?thesis using assms(2,3) by (auto simp: settles_def)
  next
    case (retry key rq err u)
    then show ?thesis using reconcile_workqueue [OF inv retry(3)] by simp
  next
    case (finished key u)
    then have "settles E item s t" using assms(2,3) by (auto simp: settles_def)
    then show ?thesis using finished(4) reconcile_workqueue [OF inv finished(3)] by simp
  qed
qed

definition queue_ok :: "('w, 'm, 'g) env \<Rightarrow> ('m, 'w) sys \<Rightarrow> bool" where
  "queue_ok E s \<longleftrightarrow> agent_ok E s \<and> idle (workqueue s)"

lemma agent_queue_step:
  assumes "queue_ok E s" "agent_step E s t"
  shows "idle (workqueue t)" and "waiting (workqueue s) i \<Longrightarrow> waiting (workqueue t) i \<or> settles E i s t"
proof -
  have ok: "agent_ok E s" and idle: "\<not> processing (item_in (workqueue s) i)" for i
    using assms(1) by (simp_all add: queue_ok_def idle_def)
  have "idle (workqueue t) \<and> (waiting (workqueue s) i \<longrightarrow> waiting (workqueue t) i \<or> settles E i s t)"
    using assms(2)
  proof (cases rule: agent_step.cases)
    case (event ev)
    then show ?thesis using on_event_log [OF event(2,1)] idle by (auto simp: waiting_def idle_def split: if_splits)
  next
    case (work item ord b)
    show ?thesis using worker_queue [OF ok work(2,3)] idle by (auto simp: waiting_def idle_def split: if_splits)
  next
    case (goroutine xs gvrs uids ys)
    then show ?thesis using startInformers_frame [OF goroutine(2)] idle by (simp add: idle_def)
  next
    case (outside w)
    then show ?thesis using idle by (simp add: idle_def)
  qed
  then show "idle (workqueue t)" and "waiting (workqueue s) i \<Longrightarrow> waiting (workqueue t) i \<or> settles E i s t" by blast+
qed

interpretation agent_queue: item_queue "agent_step E" "queue_ok E" "\<lambda>i s. waiting (workqueue s) i" "takes E" "settles E" for E
proof unfold_locales
  show "queue_ok E t" if "queue_ok E s" "agent_step E s t" for s t
    using agent_queue_step(1) [OF that] agent.preserved [OF _ that(2)] that(1) by (simp add: queue_ok_def)
qed (rule agent_queue_step(2))

text \<open>An item that has just been added waits.\<close>

lemma added_waits:
  assumes "queue_ok E (wq_log [WQ_Add key] s)"
  shows "waiting (workqueue (wq_log [WQ_Add key] s)) (ItemKey key)"
proof -
  have "\<not> processing (item_in (workqueue (wq_log [WQ_Add key] s)) (ItemKey key))"
    using assms unfolding queue_ok_def idle_def by blast
  then show ?thesis by (simp add: waiting_def)
qed

lemma started_queue_ok: "started E s0 \<Longrightarrow> queue_ok E s0"
  using started_agent_ok [of E s0] by (auto simp: queue_ok_def idle_def new_agent_def elim: started_state)

lemma reachable_queue_ok: "started E s0 \<Longrightarrow> (agent_step E)\<^sup>*\<^sup>* s0 s \<Longrightarrow> queue_ok E s"
  by (rule agent_queue.reach [OF _ started_queue_ok])

section \<open>The order of a range does not matter\<close>

lemma ranged_hub [simp]:
  fixes E :: "('w, 'm, 'g) env"
  shows "hub_doc (E\<lparr>go_range := ord\<rparr>) store = hub_doc E store" "hub_up (E\<lparr>go_range := ord\<rparr>) store W = hub_up E store W"
    "owner_ref_doc (E\<lparr>go_range := ord\<rparr>) = owner_ref_doc E" "owner_accept_doc (E\<lparr>go_range := ord\<rparr>) = owner_accept_doc E"
    "work_there (E\<lparr>go_range := ord\<rparr>) W ns n = work_there E W ns n"
  by (simp_all add: hub_doc_def hub_get_doc_def hub_create_doc_def hub_delete_doc_def hub_patch_doc_def hub_status_doc_def
      hub_up_def owner_ref_doc_def owner_accept_doc_def work_there_def cong: option.case_cong)

lemma ranged_keys [simp]:
  fixes E :: "('w, 'm, 'g) env"
  shows "key_docs (E\<lparr>go_range := ord\<rparr>) = key_docs E" "cached (E\<lparr>go_range := ord\<rparr>) obj s = cached E obj s"
    "BuildWorkstatusName (E\<lparr>go_range := ord\<rparr>) aWork obj = BuildWorkstatusName E aWork obj"
  by (simp_all add: key_docs_def gv_string_doc_def meta_key_doc_def split_key_doc_def cached_def BuildWorkstatusName_def
      workstatus_long_name_def split: option.split)

lemma ranged_status [simp]:
  "GetObjectStatusAsBytes (E\<lparr>go_range := ord\<rparr>) obj = GetObjectStatusAsBytes (E :: ('w, 'm, 'g) env) obj"
  "reports (E\<lparr>go_range := ord\<rparr>) obj ws = reports E obj ws"
proof -
  show st: "GetObjectStatusAsBytes (E\<lparr>go_range := ord\<rparr>) obj = GetObjectStatusAsBytes E obj"
    by (cases obj) (simp_all add: GetObjectStatusAsBytes_def split: sum.split option.split)
  show "reports (E\<lparr>go_range := ord\<rparr>) obj ws = reports E obj ws" by (simp add: reports_def st)
qed

lemma ranged_GetAppliedManifestWork [simp]:
  "GetAppliedManifestWork (E\<lparr>go_range := ord\<rparr>) V obj ls = GetAppliedManifestWork (E :: ('w, 'm, 'g) env) V obj ls"
proof -
  have "ToAppliedManifestWork (E\<lparr>go_range := ord\<rparr>) = ToAppliedManifestWork E" by (simp add: ToAppliedManifestWork_def fun_eq_iff)
  then show ?thesis by (simp only: GetAppliedManifestWork_def)
qed

section \<open>An object that stays reportable\<close>

text \<open>
  The object, cached in the version \<open>obj'\<close>, with its applied manifest work, its kind known to the REST mapper;
  and a manifest work that KubeStellar manages.
\<close>

definition reportable :: "('w, 'm, 'g) env \<Rightarrow> runtime_object \<Rightarrow> runtime_object \<Rightarrow> AppliedManifestWork \<Rightarrow> ('m, 'w) sys \<Rightarrow> bool" where
  "reportable E obj obj' aWork s \<longleftrightarrow> cached E obj s = Inr obj' \<and>
     GetAppliedManifestWork E (cache_view E (world s)) obj' (listers s) = Ret (Inr aWork) \<and>
     (\<exists>m gvr. restMapper s = Some m \<and>
        RESTMapping E m (gvk_Group (obj_gvk obj')) (gvk_Kind (obj_gvk obj')) (gvk_Version (obj_gvk obj')) = Inr gvr)"

lemma reportable_wq_log [simp]: "reportable E obj obj' aWork (wq_log calls s) = reportable E obj obj' aWork s"
  by (simp add: reportable_def)

text \<open>A worker with the key of such an object runs \<open>handleWorkStatus\<close>, and settles the key if and only if this returns nil.\<close>

lemma reconcile_reportable:
  assumes "key_docs E" "plain_names obj" "reportable E obj obj' aWork s" "\<not> IsAppliedManifestWork (AnyObject obj')" "IsManagedByAppliedManifestWork obj'"
  shows "reconcile (E\<lparr>go_range := ord\<rparr>) ((key_of obj)\<lparr>DeletedObject := d\<rparr>) s =
    bindO (handleWorkStatus (E\<lparr>go_range := ord\<rparr>) obj' False s) (\<lambda>(err, t). Ret ((False, err), t))"
  using reconcile_existing [of "E\<lparr>go_range := ord\<rparr>" obj s obj' d] assms by (simp add: reportable_def)

lemma takes_reportable:
  assumes "key_docs E" "plain_names obj" "reportable E obj obj' aWork s" "\<not> IsAppliedManifestWork (AnyObject obj')" "IsManagedByAppliedManifestWork obj'"
    and "key = (key_of obj)\<lparr>DeletedObject := d\<rparr>" "takes E (ItemKey key) s t"
    and "\<And>ord. range_orders ord \<Longrightarrow> \<exists>u. handleWorkStatus (E\<lparr>go_range := ord\<rparr>) obj' False (wq_log [WQ_Get (ItemKey key)] s) = Ret (None, u)"
  shows "settles E (ItemKey key) s t"
proof -
  let ?s = "wq_log [WQ_Get (ItemKey key)] s"
  obtain ord b where o: "range_orders ord" "processNextWorkItem (E\<lparr>go_range := ord\<rparr>) (Some (ItemKey key)) ?s = Ret (b, t)"
    using assms(7) unfolding takes_def by blast
  obtain u where "handleWorkStatus (E\<lparr>go_range := ord\<rparr>) obj' False ?s = Ret (None, u)" using assms(8) [OF o(1)] by blast
  then have "reconcile (E\<lparr>go_range := ord\<rparr>) key ?s = Ret ((False, None), u)"
    using reconcile_reportable [OF assms(1,2) _ assms(4,5), of aWork ?s ord d] assms(3,6) by simp
  with o show ?thesis unfolding settles_def by blast
qed

lemma settles_reportable:
  assumes "key_docs E" "plain_names obj" "reportable E obj obj' aWork s" "\<not> IsAppliedManifestWork (AnyObject obj')" "IsManagedByAppliedManifestWork obj'"
    and "key = (key_of obj)\<lparr>DeletedObject := d\<rparr>" "settles E (ItemKey key) s t"
  obtains ord u where "range_orders ord" "handleWorkStatus (E\<lparr>go_range := ord\<rparr>) obj' False (wq_log [WQ_Get (ItemKey key)] s) = Ret (None, u)"
    "world t = world u"
proof -
  let ?s = "wq_log [WQ_Get (ItemKey key)] s"
  obtain ord b u where o: "range_orders ord" "processNextWorkItem (E\<lparr>go_range := ord\<rparr>) (Some (ItemKey key)) ?s = Ret (b, t)"
    "reconcile (E\<lparr>go_range := ord\<rparr>) key ?s = Ret ((False, None), u)"
    using assms(7) unfolding settles_def by blast
  have r: "reportable E obj obj' aWork (wq_log calls s)" for calls using assms(3) by simp
  have "handleWorkStatus (E\<lparr>go_range := ord\<rparr>) obj' False ?s = Ret (None, u)"
    using o(3) [unfolded assms(6) reconcile_reportable [OF assms(1,2) r assms(4,5)]] assms(6) by (auto simp: bindO_eq_Ret)
  moreover have "world t = world u" using o(2,3) by (auto simp: processNextWorkItem_def)
  ultimately show thesis using that o(1) by blast
qed

section \<open>Properties\<close>

text \<open>
  Property C6: the key of an event is not lost. In every run of the agent in which events, work items and goroutines are executed one at a time, after an event has added a key to the
  work queue, the queue has the key to hand out (it is dirty and with no worker), until a worker has reconciled it, at some time after the event, without an error or
  a request to try again: however often it fails before, and whatever else happens.
\<close>

theorem event_key_not_lost:
  assumes "started E s0" "(agent_step E)\<^sup>*\<^sup>* s0 s1" "dynamic_event ev" "on_event E ev s1 = Ret (wq_log [WQ_Add key] s1)"
    and "(agent_step E)\<^sup>*\<^sup>* (wq_log [WQ_Add key] s1) s"
  shows "waiting (workqueue s) (ItemKey key) \<or>
    (\<exists>u u'. (agent_step E)\<^sup>*\<^sup>* (wq_log [WQ_Add key] s1) u \<and> settles E (ItemKey key) u u' \<and> (agent_step E)\<^sup>*\<^sup>* u' s)"
proof -
  have ok: "queue_ok E (wq_log [WQ_Add key] s1)"
    using reachable_queue_ok [OF assms(1,2)] agent_step.event [OF assms(3,4)] by (blast intro: agent_queue.preserved)
  from agent_queue.not_lost [OF assms(5) ok added_waits [OF ok]] show ?thesis .
qed

text \<open>
  Property C2: a report is made in the end. Take an infinite run of the agent, of events, work items and goroutines executed one at a time, from a state with its invariants, in which the
  queue is fair: an item that it has to hand out is taken by a worker at that time or later. If an event of an object adds its key, the object stays in its cached version
  reportable from then on, with an applied manifest work in the cache and a kind that the REST mapper knows, and from some time on the hub works, has the manifest
  work and does not fail, however often it failed before, and the manifest work has a label of KubeStellar whenever it is read, then a worker settles
  the key: it reconciles it without an error or a request to try again, and the hub then has a WorkStatus that reports this version of the object.
\<close>

theorem reported_in_the_end:
  assumes docs: "key_docs E" "hub_doc E store" "owner_ref_doc E" "owner_accept_doc E" "plain_names obj"
    and obj': "\<not> IsAppliedManifestWork (AnyObject obj')" "IsManagedByAppliedManifestWork obj'" "plain_label obj'" "GetObjectStatusAsBytes E obj' = Inr raw"
    and run: "queue_ok E (r 0)" "\<And>i. agent_step E (r i) (r (Suc i))"
    and fair: "\<And>i item. waiting (workqueue (r i)) item \<Longrightarrow> \<exists>j \<ge> i. takes E item (r j) (r (Suc j))"
    and event: "event_object ev = AnyObject obj" "on_event E ev (r n) = Ret (wq_log [WQ_Add key] (r n))" "r (Suc n) = wq_log [WQ_Add key] (r n)"
    and steady: "\<And>i. n < i \<Longrightarrow> reportable E obj obj' aWork (r i)"
    and up: "hub_up E store W" "\<And>i. N \<le> i \<Longrightarrow> world (r i) \<in> W \<and> work_there E W (clusterName (r i)) (amw_ManifestWorkName aWork)"
    and ks: "\<And>i w mw. hc_GetManifestWork (hub E) (clusterName (r i)) (amw_ManifestWorkName aWork) w = (Inr mw, world (r (Suc i))) \<Longrightarrow> ks_labelled mw"
  shows "\<exists>j > n. \<exists>ws. settles E (ItemKey key) (r j) (r (Suc j)) \<and>
    store (world (r (Suc j))) (clusterName (r j), BuildWorkstatusName E aWork obj') = Some ws \<and> reports E obj' ws"
proof -
  obtain d where key: "key = (key_of obj)\<lparr>DeletedObject := d\<rparr>" using event_key_drop [OF docs(1,5) event(1,2)] by blast
  have ok: "queue_ok E (r i)" for i using agent_queue.run_inv [of E r, OF run(2,1)] by simp
  have good: "settles E (ItemKey key) (r i) (r (Suc i))" if i: "N \<le> i" "Suc n \<le> i" "takes E (ItemKey key) (r i) (r (Suc i))" for i
  proof (rule takes_reportable [OF docs(1,5) _ obj'(1,2) key i(3)])
    show st: "reportable E obj obj' aWork (r i)" using steady i(2) by simp
    fix ord assume o: "range_orders ord"
    let ?s = "wq_log [WQ_Get (ItemKey key)] (r i)"
    obtain m gvr where m: "restMapper (r i) = Some m"
      "RESTMapping E m (gvk_Group (obj_gvk obj')) (gvk_Kind (obj_gvk obj')) (gvk_Version (obj_gvk obj')) = Inr gvr"
      using st unfolding reportable_def by blast
    show "\<exists>u. handleWorkStatus (E\<lparr>go_range := ord\<rparr>) obj' False ?s = Ret (None, u)"
      using handleWorkStatus_up [of "E\<lparr>go_range := ord\<rparr>" store W ?s obj' raw aWork m gvr] docs(2-4) up(1) up(2) [OF i(1)] obj'(3,4) st m o
      by (auto simp: reportable_def)
  qed
  have "waiting (workqueue (r (Suc n))) (ItemKey key)"
    using added_waits [of E key "r n"] ok [of "Suc n"] by (simp only: event(3))
  then obtain j where j: "Suc n \<le> j" "settles E (ItemKey key) (r j) (r (Suc j))"
    using agent_queue.settled_in_the_end [of E r "Suc n" "ItemKey key" N, OF run(2) ok _ fair good] by auto
  have st: "reportable E obj obj' aWork (r j)" using steady j(1) by simp
  obtain ord u where u: "range_orders ord" "handleWorkStatus (E\<lparr>go_range := ord\<rparr>) obj' False (wq_log [WQ_Get (ItemKey key)] (r j)) = Ret (None, u)"
    "world (r (Suc j)) = world u"
    by (rule settles_reportable [OF docs(1,5) st obj'(1,2) key j(2)])
  have "reported (E\<lparr>go_range := ord\<rparr>) store obj' aWork (wq_log [WQ_Get (ItemKey key)] (r j)) u (clusterName (r j), BuildWorkstatusName E aWork obj')"
    using handleWorkStatus_spec(2) [OF _ _ obj'(3) _ u(2)] docs(2,3) st by (simp add: reportable_def)
  then have "\<exists>ws. store (world u) (clusterName (r j), BuildWorkstatusName E aWork obj') = Some ws \<and> reports E obj' ws"
    using ks [of j, unfolded u(3)] ks_labelled_managed [of _ "E\<lparr>go_range := ord\<rparr>"] u(1) unfolding reported_def by auto
  with j u(3) show ?thesis by (metis Suc_le_eq)
qed

subsection \<open>Examples\<close>

theorem event_key_not_lost_witness:
  "waiting (workqueue (wq_log [WQ_Add (key_of ex_amw_object)] ex_started)) (ItemKey (key_of ex_amw_object)) \<or>
   (\<exists>u u'. (agent_step cl_env)\<^sup>*\<^sup>* (wq_log [WQ_Add (key_of ex_amw_object)] ex_started) u \<and> settles cl_env (ItemKey (key_of ex_amw_object)) u u' \<and>
      (agent_step cl_env)\<^sup>*\<^sup>* u' (wq_log [WQ_Add (key_of ex_amw_object)] ex_started))"
proof (rule event_key_not_lost [OF ex_started rtranclp.rtrancl_refl])
  show "dynamic_event (Added (AnyObject ex_amw_object))" by (simp add: ex_amw_object_def)
  show "on_event cl_env (Added (AnyObject ex_amw_object)) ex_started = Ret (wq_log [WQ_Add (key_of ex_amw_object)] ex_started)"
    using handleObject_documented [OF ex_docs(1,2), of ex_started] ex_started_cached by simp
qed simp

text \<open>
  A run on the example cluster: the informer of the deployments is running, the event of the deployment comes, a
  worker reports it, and then nothing happens any more.
\<close>

abbreviation ex_item :: wq_item where
  "ex_item \<equiv> ItemKey (key_of ex_deployment)"

definition ex_run :: "(unit, cluster) sys \<Rightarrow> nat \<Rightarrow> (unit, cluster) sys" where
  "ex_run t i = (if i = 0 then ex_tracking else if i = 1 then wq_log [WQ_Add (key_of ex_deployment)] ex_tracking
     else wq_log [WQ_Forget ex_item, WQ_Done ex_item] t)"

lemma ex_worlds_find: "w \<in> ex_worlds \<Longrightarrow> cl_find w = cl_find ex_world"
  by (simp add: ex_worlds_def cl_find_def fun_eq_iff)

lemma ex_reportable:
  assumes "world s \<in> ex_worlds" "listers s = listers ex_tracking" "restMapper s = Some ()"
  shows "reportable cl_env ex_deployment ex_deployment ex_aWork s"
proof -
  have f: "cache_view cl_env (world s) = cache_view cl_env ex_world" using ex_worlds_find [OF assms(1)] by simp
  obtain l where l: "SafeMap_Get (listers s) amw_key = Some l" "lst_Resource l = AppliedManifestWorkResource"
    using ex_tracking_listers(2) assms(2) by auto
  have "GetAppliedManifestWork cl_env (cache_view cl_env (world s)) ex_deployment (listers s) = Ret (Inr ex_aWork)"
    unfolding f by (rule ex_GetAMW_listers [OF l])
  moreover have "cached cl_env ex_deployment s = Inr ex_deployment"
  proof -
    have "cached cl_env ex_deployment s = cached cl_env ex_deployment ex_live"
      using ex_worlds_find [OF assms(1)] assms(2) by (simp add: cached_def ex_live_def getObject_def cl_find_def cl_put_def split: option.split)
    then show ?thesis using ex_live_facts(4) by simp
  qed
  ultimately show ?thesis using assms(3) ex_mapping by (auto simp: reportable_def)
qed

lemma ex_tracking_fields: "world ex_tracking = ex_world" "restMapper ex_tracking = Some ()" "workqueue ex_tracking = []" "agent_ok cl_env ex_tracking"
proof -
  show f: "world ex_tracking = ex_world" "restMapper ex_tracking = Some ()" "workqueue ex_tracking = []"
    by (simp_all add: ex_started_def new_agent_def open_stopper_def startAppliedManifestWorkInformer_def Let_def)
  have "ex_tracking\<lparr>world := world ex_tracking\<rparr> = ex_tracking" by simp
  then have "sys_inv ex_tracking" using ex_tracking_inv(1) [of "world ex_tracking"] by simp
  then show "agent_ok cl_env ex_tracking" using f by (simp add: agent_ok_def)
qed

lemma ex_run_worker:
  obtains t where "handleWorkStatus cl_env ex_deployment False (wq_log [WQ_Get ex_item] (ex_run t 1)) = Ret (None, t)" "world t \<in> ex_worlds" "listers t = listers ex_tracking"
    "restMapper t = Some ()" "workqueue t = [WQ_Add (key_of ex_deployment), WQ_Get ex_item]"
    "processNextWorkItem cl_env (Some ex_item) (wq_log [WQ_Get ex_item] (ex_run t 1)) = Ret (True, ex_run t 2)"
proof -
  let ?s = "wq_log [WQ_Add (key_of ex_deployment), WQ_Get ex_item] ex_tracking"
  have w: "world ?s \<in> ex_worlds" using ex_tracking_fields(1) by simp
  have r: "reportable cl_env ex_deployment ex_deployment ex_aWork ?s"
    using w ex_tracking_fields(2) by (intro ex_reportable) simp_all
  obtain t where t: "handleWorkStatus cl_env ex_deployment False ?s = Ret (None, t)" "world t \<in> ex_worlds"
    using ex_up [OF w] r ex_tracking_fields(2) by (auto simp: reportable_def)
  have f: "listers t = listers ex_tracking" "restMapper t = Some ()" "workqueue t = [WQ_Add (key_of ex_deployment), WQ_Get ex_item]"
    using handleWorkStatus_state [OF t(1)] ex_tracking_fields(2,3) by (auto simp: put_io_def)
  have "reconcile cl_env (key_of ex_deployment) ?s = Ret ((False, None), t)"
    using reconcile_key_of [OF ex_docs(1,3), of ?s ex_deployment] r ex_kind t(1) by (simp add: reportable_def)
  then have "processNextWorkItem cl_env (Some ex_item) (wq_log [WQ_Get ex_item] (ex_run t 1)) = Ret (True, ex_run t 2)"
    by (simp add: processNextWorkItem_def ex_run_def)
  with t f show thesis using that [of t] by (simp add: ex_run_def)
qed

theorem reported_in_the_end_witness:
  "\<exists>r j ws. (\<forall>i. agent_step cl_env (r i) (r (Suc i))) \<and> settles cl_env ex_item (r j) (r (Suc j)) \<and>
     cl_store (world (r (Suc j))) (clusterName (r j), BuildWorkstatusName cl_env ex_aWork ex_deployment) = Some ws \<and> reports cl_env ex_deployment ws"
proof -
  obtain t where t: "world t \<in> ex_worlds" "listers t = listers ex_tracking" "restMapper t = Some ()" "workqueue t = [WQ_Add (key_of ex_deployment), WQ_Get ex_item]"
    "processNextWorkItem cl_env (Some ex_item) (wq_log [WQ_Get ex_item] (ex_run t 1)) = Ret (True, ex_run t 2)"
    by (rule ex_run_worker)
  let ?r = "ex_run t"
  have r: "?r 0 = ex_tracking" "?r (Suc 0) = wq_log [WQ_Add (key_of ex_deployment)] ex_tracking" "?r (Suc (Suc i)) = wq_log [WQ_Forget ex_item, WQ_Done ex_item] t" for i
    by (simp_all add: ex_run_def)
  have w: "world (?r i) \<in> ex_worlds" "listers (?r i) = listers ex_tracking" "restMapper (?r i) = Some ()" for i
    using t(1-3) ex_tracking_fields by (simp_all add: ex_run_def)
  have ev: "on_event cl_env (Added (AnyObject ex_deployment)) (?r 0) = Ret (wq_log [WQ_Add (key_of ex_deployment)] (?r 0))"
    using handleObject_documented [OF ex_docs(1,3), of ex_tracking] ex_reportable [OF w, of 0] by (simp add: reportable_def r)
  have taken: "takes cl_env ex_item (?r 1) (?r 2)"
    unfolding takes_def by (rule exI [of _ sorted_order], rule exI [of _ True]) (use t(5) in \<open>simp add: cl_order sorted_order_range\<close>)
  have step: "agent_step cl_env (?r i) (?r (Suc i))" for i
  proof (cases i rule: nat.exhaust [case_names zero Suc])
    case zero
    have "agent_step cl_env (?r 0) (wq_log [WQ_Add (key_of ex_deployment)] (?r 0))"
      by (rule agent_step.event [OF _ ev]) (simp add: ex_deployment_def)
    then show ?thesis using zero r by simp
  next
    case (Suc j)
    show ?thesis
    proof (cases j)
      case 0
      have "offered (workqueue (?r 1)) ex_item" by (simp add: ex_run_def offered_def)
      moreover have "processNextWorkItem (cl_env\<lparr>go_range := sorted_order\<rparr>) (Some ex_item) (wq_log [WQ_Get ex_item] (?r 1)) = Ret (True, ?r 2)"
        using t(5) by (simp add: cl_order)
      ultimately have "agent_step cl_env (?r 1) (?r 2)" by (rule agent_step.work [OF _ sorted_order_range])
      then show ?thesis using Suc 0 by (simp add: numeral_2_eq_2)
    next
      case (Suc k)
      let ?u = "wq_log [WQ_Forget ex_item, WQ_Done ex_item] t"
      have "agent_step cl_env ?u (?u\<lparr>world := world t\<rparr>)" by (rule agent_step.outside)
      moreover have "?u\<lparr>world := world t\<rparr> = ?u" by (simp add: wq_log_def)
      ultimately show ?thesis using \<open>i = Suc j\<close> Suc by (simp add: r)
    qed
  qed
  have fair: "\<exists>j \<ge> i. takes cl_env item (?r j) (?r (Suc j))" if "waiting (workqueue (?r i)) item" for i item
  proof -
    have "i = 1 \<and> item = ex_item" using that t(4) ex_tracking_fields(3) by (auto simp: ex_run_def waiting_def item_in_def split: if_splits)
    then show ?thesis using taken by (intro exI [of _ 1]) (simp add: numeral_2_eq_2)
  qed
  have ks: "ks_labelled mw" if "hc_GetManifestWork (hub cl_env) (clusterName (?r i)) (amw_ManifestWorkName ex_aWork) v = (Inr mw, world (?r (Suc i)))" for i v mw
    using that w(1) [of "Suc i"]
    by (auto simp: cl_hub_def ks_labelled_def ex_worlds_def ex_world_def gomap_get_def TransportLabelPrefix_def strings_HasPrefix_def)
  have up: "world (?r i) \<in> ex_worlds \<and> work_there cl_env ex_worlds (clusterName (?r i)) (amw_ManifestWorkName ex_aWork)" for i
    using w(1) ex_work_there by blast
  have steady: "reportable cl_env ex_deployment ex_deployment ex_aWork (?r i)" for i using w by (intro ex_reportable)
  have "\<exists>j > 0. \<exists>ws. settles cl_env ex_item (?r j) (?r (Suc j)) \<and>
    cl_store (world (?r (Suc j))) (clusterName (?r j), BuildWorkstatusName cl_env ex_aWork ex_deployment) = Some ws \<and> reports cl_env ex_deployment ws"
  proof (rule reported_in_the_end [OF ex_docs(1) cl_hub_doc cl_env_laws(7) cl_owner_accept ex_docs(3) ex_kind ex_plain_label ex_status, where N = 0])
    show "queue_ok cl_env (?r 0)" "?r (Suc 0) = wq_log [WQ_Add (key_of ex_deployment)] (?r 0)"
      using r ex_tracking_fields(3,4) by (simp_all add: queue_ok_def idle_def)
    show "event_object (Added (AnyObject ex_deployment)) = AnyObject ex_deployment" by simp
  qed (rule step, erule fair, rule ev, rule steady, rule ex_hub_up, rule up, erule ks)
  with step show ?thesis by blast
qed

end
