(* ===== verification/Recreation.thy ===== *)
theory Recreation
  imports Workqueue
begin

text \<open>
  Two workers on one object (pkg/agent/agent.go, pkg/util/keys.go and pkg/agent/reconcilers.go together). The work queue never
  hands one item to two workers at the same time, but the items are keys with a pointer to the deleted object: the key of
  a deletion and the key of a later event of the same object are two items, and two workers may have them at
  the same time. When an object is deleted and created again, the worker of the deletion may delete
  the WorkStatus that the other one has just written.
\<close>

section \<open>The two workers\<close>

text \<open>Worker B, on the object that is back: with a hub that does not fail it reports the object and settles its key.\<close>

lemma worker_reports:
  assumes "key_docs E" "hub_doc E store" "owner_ref_doc E" "owner_accept_doc E" "plain_names obj"
    and "\<not> IsAppliedManifestWork (AnyObject obj')" "IsManagedByAppliedManifestWork obj'" "plain_label obj'" "GetObjectStatusAsBytes E obj' = Inr raw"
    and "sys_inv s" "reportable E obj obj' aWork s" "hub_up E store W" "world s \<in> W" "range_orders (go_range E)"
    and "work_there E W (clusterName s) (amw_ManifestWorkName aWork)"
  obtains u ws where "processNextWorkItem E (Some (ItemKey (key_of obj))) s = Ret (True, u)" "world u \<in> W"
    "workqueue u = workqueue s @ [WQ_Forget (ItemKey (key_of obj)), WQ_Done (ItemKey (key_of obj))]"
    "store (world u) (clusterName s, BuildWorkstatusName E aWork obj') = Some ws" "reports E obj' ws"
proof -
  obtain m gvr where m: "restMapper s = Some m"
    "RESTMapping E m (gvk_Group (obj_gvk obj')) (gvk_Kind (obj_gvk obj')) (gvk_Version (obj_gvk obj')) = Inr gvr"
    and amw: "GetAppliedManifestWork E (cache_view E (world s)) obj' (listers s) = Ret (Inr aWork)" and c: "cached E obj s = Inr obj'"
    using assms(11) unfolding reportable_def by blast
  obtain t where t: "handleWorkStatus E obj' False s = Ret (None, t)" "world t \<in> W"
    "store (world t) (clusterName s, BuildWorkstatusName E aWork obj') \<noteq> None"
    using handleWorkStatus_up [OF assms(2,12,13,3,4,14,8,9) amw assms(15) m] by blast
  have r: "reconcile E (key_of obj) s = Ret ((False, None), t)" using reconcile_key_of [OF assms(1,5) c] assms(6,7) t(1) by simp
  have "\<exists>ws. store (world t) (clusterName s, BuildWorkstatusName E aWork obj') = Some ws \<and> reports E obj' ws"
    using handleWorkStatus_spec(2) [OF assms(2,3,8) amw t(1) refl refl] t(3) unfolding reported_def by auto
  moreover have "processNextWorkItem E (Some (ItemKey (key_of obj))) s = Ret (True, wq_log [WQ_Forget (ItemKey (key_of obj)), WQ_Done (ItemKey (key_of obj))] t)"
    using r by (simp add: processNextWorkItem_def)
  ultimately show thesis using that t(2) reconcile_workqueue [OF assms(10) r] by auto
qed

text \<open>Worker A, which has the key of the deletion, when the hub changes from \<open>w0\<close> to \<open>v\<close> between its read and its delete call.\<close>

definition late_delete :: "'w hub_client \<Rightarrow> 'w \<Rightarrow> 'w \<Rightarrow> 'w hub_client" where
  "late_delete H w0 v = H\<lparr>hc_Delete := \<lambda>ws w. hc_Delete H ws (if w = w0 then v else w)\<rparr>"

lemma late_delete_interferes: "interferes (\<lambda>w v'. v' = w \<or> w = w0 \<and> v' = v) H (late_delete H w0 v)"
  by (auto simp: interferes_def late_delete_def)

lemma worker_deletes:
  assumes "key_docs E" "hub_doc E store" "plain_names obj" "\<not> IsAppliedManifestWork (AnyObject obj)" "IsManagedByAppliedManifestWork obj"
    and "cached E obj s = Inl e" "IsNotFound E e" "GetAppliedManifestWork E (cache_view E (world s)) obj (listers s) = Ret (Inr aWork)"
    and read: "hub_Get (hub E) (target_ws E aWork obj s) (sys_io s) = (err, ws, w0, l)" "\<forall>x. err = Some x \<longrightarrow> IsNotFound E x"
    and delete: "\<And>ws. store v (ws_key ws) \<noteq> None \<Longrightarrow> fst (hc_Delete (hub E) ws v) = None"
      "store v (clusterName s, BuildWorkstatusName E aWork obj) \<noteq> None"
  obtains io where "store (fst io) (clusterName s, BuildWorkstatusName E aWork obj) = None" "fst io = snd (hc_Delete (hub E) ws v)"
    "processNextWorkItem (busy E (late_delete (hub E) w0 v)) (Some (ItemKey ((key_of obj)\<lparr>DeletedObject := Some (CopyObjectMetaAndType obj)\<rparr>))) s =
      Ret (True, wq_log [WQ_Forget (ItemKey ((key_of obj)\<lparr>DeletedObject := Some (CopyObjectMetaAndType obj)\<rparr>)),
        WQ_Done (ItemKey ((key_of obj)\<lparr>DeletedObject := Some (CopyObjectMetaAndType obj)\<rparr>))] (put_io io s))"
proof -
  let ?E = "busy E (late_delete (hub E) w0 v)" and ?k = "(clusterName s, BuildWorkstatusName E aWork obj)"
  let ?d = "(key_of obj)\<lparr>DeletedObject := Some (CopyObjectMetaAndType obj)\<rparr>"
  have tk: "ws_key (target_ws E aWork obj s) = ?k" by (simp add: ws_key_def new_WorkStatus_def new_meta_def)
  have key: "ws_key ws = ?k"
  proof (cases err)
    case None
    then have "store (world s) ?k = Some ws" using hub_docD(3) [OF assms(2), of "target_ws E aWork obj s" "sys_io s" ws "(w0, l)"] read(1) tk by simp
    then show ?thesis by (rule hub_docD(1) [OF assms(2)])
  next
    case (Some x)
    then show ?thesis using hub_docD(4) [OF assms(2), of "target_ws E aWork obj s" "sys_io s" x ws "(w0, l)"] read tk by simp
  qed
  obtain w2 where d: "hc_Delete (hub E) ws v = (None, w2)" using delete key by (metis prod.collapse)
  have gone: "store w2 ?k = None" using assms(2) d key by (force simp: hub_doc_def hub_delete_doc_def)
  let ?io = "(w2, l @ [Delete_WorkStatus (ws_namespace ws) (ws_name ws)])"
  have "hub_Get (late_delete (hub E) w0 v) (target_ws E aWork obj s) (sys_io s) = (err, ws, w0, l)"
    using read(1) by (simp add: hub_Get_def late_delete_def)
  then have "handleWorkStatus ?E obj True s = Ret (None, put_io ?io s)"
    using assms(8) read(2) d by (cases err) (simp_all add: handleWorkStatus_def delete_workStatus_def hub_Delete_def late_delete_def)
  then have "reconcile ?E ?d s = Ret ((False, None), put_io ?io s)"
    using reconcile_deleted [of ?E obj s e] assms(1,3-7) by simp
  then have "processNextWorkItem ?E (Some (ItemKey ?d)) s = Ret (True, wq_log [WQ_Forget (ItemKey ?d), WQ_Done (ItemKey ?d)] (put_io ?io s))"
    by (simp add: processNextWorkItem_def)
  with gone d show thesis by (intro that [of ?io]) simp_all
qed

section \<open>Properties\<close>

text \<open>
  Property C32: the report of an object that was deleted and created again can be lost, on a hub that never fails. Worker A has the key of the
  deletion, and has found the object absent and read the hub. Then the object is back, in the cache too, and worker B, which has the key of
  this event, a different item of the queue, takes it, reports the object and settles its key. If A's delete call comes after that, A settles its key as well, and then
  the object is in the cache, the hub has no WorkStatus of it, and the queue has neither of the two keys to hand out again.
\<close>

theorem recreated_report_lost:
  fixes E :: "('w, 'm, 'g) env"
  assumes docs: "key_docs E" "hub_doc E store" "owner_ref_doc E" "owner_accept_doc E" "plain_names obj" "range_orders (go_range E)"
    and obj: "\<not> IsAppliedManifestWork (AnyObject obj)" "IsManagedByAppliedManifestWork obj"
    and obj': "\<not> IsAppliedManifestWork (AnyObject obj')" "IsManagedByAppliedManifestWork obj'" "plain_label obj'" "GetObjectStatusAsBytes E obj' = Inr raw"
      "BuildWorkstatusName E aWork obj' = BuildWorkstatusName E aWork obj"
    and A: "sys_inv s" "cached E obj s = Inl e" "IsNotFound E e" "GetAppliedManifestWork E (cache_view E (world s)) obj (listers s) = Ret (Inr aWork)"
      "hub_Get (hub E) (target_ws E aWork obj s) (sys_io s) = (err, ws, w0, l)" "\<forall>x. err = Some x \<longrightarrow> IsNotFound E x"
    and B: "reportable E obj obj' aWork (s\<lparr>world := w1\<rparr>)" "w1 \<in> W"
    and hub: "hub_up E store W" "\<And>w. w \<in> W \<Longrightarrow> cache_view E w = cache_view E w1" "\<And>ws w. w \<in> W \<Longrightarrow> snd (hc_Delete (hub E) ws w) \<in> W"
      "\<And>ws w. w \<in> W \<Longrightarrow> store w (ws_key ws) \<noteq> None \<Longrightarrow> fst (hc_Delete (hub E) ws w) = None"
      "work_there E W (clusterName s) (amw_ManifestWorkName aWork)"
  defines "deletion \<equiv> (key_of obj)\<lparr>DeletedObject := Some (CopyObjectMetaAndType obj)\<rparr>"
  shows "deletion \<noteq> key_of obj \<and>
    (\<exists>u r t. processNextWorkItem E (Some (ItemKey (key_of obj)))
        (wq_log [WQ_Add (key_of obj), WQ_Get (ItemKey (key_of obj))] (s\<lparr>world := w1\<rparr>)) = Ret (True, u) \<and>
      store (world u) (clusterName s, BuildWorkstatusName E aWork obj) = Some r \<and> reports E obj' r \<and> \<not> waiting (workqueue u) (ItemKey (key_of obj)) \<and>
      processNextWorkItem (busy E (late_delete (hub E) w0 (world u))) (Some (ItemKey deletion)) (wq_log [WQ_Get (ItemKey deletion)] s) = Ret (True, t) \<and>
      \<not> waiting (workqueue t) (ItemKey deletion) \<and>
      cached E obj t = Inr obj' \<and> store (world t) (clusterName s, BuildWorkstatusName E aWork obj) = None)"
proof
  show "deletion \<noteq> key_of obj" by (simp add: deletion_def key_of_def)
  let ?s = "wq_log [WQ_Add (key_of obj), WQ_Get (ItemKey (key_of obj))] (s\<lparr>world := w1\<rparr>)" and ?a = "wq_log [WQ_Get (ItemKey deletion)] s"
  have "sys_inv ?s" using A(1) by simp
  moreover have rep: "reportable E obj obj' aWork ?s" using B(1) by (simp add: reportable_def)
  ultimately obtain u r where u: "processNextWorkItem E (Some (ItemKey (key_of obj))) ?s = Ret (True, u)" "world u \<in> W"
    "workqueue u = workqueue ?s @ [WQ_Forget (ItemKey (key_of obj)), WQ_Done (ItemKey (key_of obj))]"
    "store (world u) (clusterName ?s, BuildWorkstatusName E aWork obj') = Some r" "reports E obj' r"
    using worker_reports [OF docs(1-5) obj'(1-4), of ?s aWork W] hub(1,5) B(2) docs(6) by auto
  then have k: "store (world u) (clusterName s, BuildWorkstatusName E aWork obj) = Some r" using obj'(5) by simp
  obtain io where io: "store (fst io) (clusterName s, BuildWorkstatusName E aWork obj) = None" "fst io = snd (hc_Delete (hub E) ws (world u))"
    "processNextWorkItem (busy E (late_delete (hub E) w0 (world u))) (Some (ItemKey deletion)) ?a =
      Ret (True, wq_log [WQ_Forget (ItemKey deletion), WQ_Done (ItemKey deletion)] (put_io io ?a))"
  proof (rule worker_deletes [OF docs(1,2,5) obj, of ?a e aWork err ws w0 l "world u", folded deletion_def])
    show "store (world u) (clusterName ?a, BuildWorkstatusName E aWork obj) \<noteq> None" using k by simp
  qed (use A hub(4) [OF u(2)] that in simp_all)
  have "cache_view E (fst io) = cache_view E w1" using hub(2,3) u(2) io(2) by simp
  then have "cached E obj (wq_log [WQ_Forget (ItemKey deletion), WQ_Done (ItemKey deletion)] (put_io io ?a)) = Inr obj'"
    using B(1) by (simp add: reportable_def cached_def put_io_def split: option.splits)
  moreover have "\<not> waiting (workqueue u) (ItemKey (key_of obj))" using u(3) by (simp add: waiting_def)
  ultimately show "\<exists>u r t. processNextWorkItem E (Some (ItemKey (key_of obj))) ?s = Ret (True, u) \<and>
      store (world u) (clusterName s, BuildWorkstatusName E aWork obj) = Some r \<and> reports E obj' r \<and> \<not> waiting (workqueue u) (ItemKey (key_of obj)) \<and>
      processNextWorkItem (busy E (late_delete (hub E) w0 (world u))) (Some (ItemKey deletion)) (wq_log [WQ_Get (ItemKey deletion)] s) = Ret (True, t) \<and>
      \<not> waiting (workqueue t) (ItemKey deletion) \<and>
      cached E obj t = Inr obj' \<and> store (world t) (clusterName s, BuildWorkstatusName E aWork obj) = None"
    using u(1,5) k io(1,3) by (intro exI conjI) (assumption | simp add: put_io_def waiting_def)+
qed

text \<open>The deployment of the example cluster, deleted and created again.\<close>

lemma ex_gone_back: "ex_gone\<lparr>world := ex_world\<rparr> = ex_tracking"
proof -
  have "s\<lparr>world := w\<rparr> = s" if "world s = w" for s :: "(unit, cluster) sys" and w using that by auto
  from this [OF ex_tracking_fields(1)] show ?thesis by (simp add: ex_gone_def)
qed

abbreviation ex_deletion :: Key where
  "ex_deletion \<equiv> (key_of ex_deployment)\<lparr>DeletedObject := Some (CopyObjectMetaAndType ex_deployment)\<rparr>"

theorem recreated_report_lost_witness:
  "\<exists>u r t. processNextWorkItem cl_env (Some ex_item) (wq_log [WQ_Add (key_of ex_deployment), WQ_Get ex_item] (ex_gone\<lparr>world := ex_world\<rparr>)) = Ret (True, u) \<and>
     cl_store (world u) (''cluster1'', BuildWorkstatusName cl_env ex_aWork ex_deployment) = Some r \<and> reports cl_env ex_deployment r \<and>
     \<not> waiting (workqueue u) ex_item \<and>
     processNextWorkItem (busy cl_env (late_delete (hub cl_env) (world ex_gone) (world u))) (Some (ItemKey ex_deletion)) (wq_log [WQ_Get (ItemKey ex_deletion)] ex_gone) = Ret (True, t) \<and>
     \<not> waiting (workqueue t) (ItemKey ex_deletion) \<and>
     cached cl_env ex_deployment t = Inr ex_deployment \<and>
     cl_store (world t) (''cluster1'', BuildWorkstatusName cl_env ex_aWork ex_deployment) = None"
proof -
  let ?ws = "target_ws cl_env ex_aWork ex_deployment ex_gone"
  have nf: "IsNotFound cl_env (cl_not_found n)" for n by simp
  have get: "hub_Get (hub cl_env) ?ws (sys_io ex_gone) = (Some (cl_not_found (ws_name ?ws)), ?ws, world ex_gone,
      hub_log ex_gone @ [Get_WorkStatus (ws_namespace ?ws) (ws_name ?ws)])"
    by (simp add: hub_Get_def cl_hub_def cl_get_def ex_gone_def ex_world_def)
  have rep: "reportable cl_env ex_deployment ex_deployment ex_aWork (ex_gone\<lparr>world := ex_world\<rparr>)"
    unfolding ex_gone_back using ex_tracking_fields by (intro ex_reportable) (simp_all add: ex_worlds_def)
  have hub: "ex_world \<in> ex_worlds" "w \<in> ex_worlds \<Longrightarrow> cache_view cl_env w = cache_view cl_env ex_world"
    "w \<in> ex_worlds \<Longrightarrow> snd (hc_Delete (hub cl_env) ws w) \<in> ex_worlds"
    "cl_store w (ws_key ws) \<noteq> None \<Longrightarrow> fst (hc_Delete (hub cl_env) ws w) = None" for ws w
    using ex_worlds_find [of w] by (auto simp: ex_worlds_def cl_hub_def cl_store_def)
  show ?thesis
    unfolding ex_gone_facts(2) [symmetric]
  proof (rule conjunct2, rule recreated_report_lost [OF ex_docs(1) cl_hub_doc cl_env_laws(7) cl_owner_accept ex_docs(3) cl_env_laws(8) ex_kind ex_kind
        ex_plain_label ex_status refl ex_gone_facts(1) ex_gone_cached nf ex_gone_facts(3) get])
    show "\<forall>x. Some (cl_not_found (ws_name ?ws)) = Some x \<longrightarrow> IsNotFound cl_env x" using nf by auto
  qed (rule rep, rule hub(1), rule ex_hub_up, erule hub(2), erule hub(3), erule hub(4), rule ex_work_there)
qed

end
