(* ===== verification/Rbac.thy ===== *)
theory Rbac
  imports Reporting
begin

text \<open>
  pkg/rbac/rbac.go: the role and role binding that the controller creates for the agent in the
  namespace of its cluster on the hub. The client of the RBAC API is a parameter (\<open>rbac_client\<close>), as
  is the function of the addon framework that names the agent's groups. The theory shows what is in
  the hub after a successful call, that the role allows exactly the calls the agent makes, and that the
  permissions which the markers of pkg/internal give the controller are enough to create it.
\<close>

section \<open>Definitions\<close>

record PolicyRule =
  Verbs :: "string list"
  Resources :: "string list"
  APIGroups :: "string list"

record Role =
  role_Name :: string
  role_Namespace :: string
  role_Rules :: "PolicyRule list"

record RoleRef =
  rr_APIGroup :: string
  rr_Kind :: string
  rr_Name :: string

record Subject =
  sub_Kind :: string
  sub_APIGroup :: string
  sub_Name :: string

record RoleBinding =
  rb_Name :: string
  rb_Namespace :: string
  rb_RoleRef :: RoleRef
  rb_Subjects :: "Subject list"

record 'w rbac_client =
  GetRole :: "string \<Rightarrow> string \<Rightarrow> 'w \<Rightarrow> go_error option \<times> 'w"
  CreateRole :: "Role \<Rightarrow> 'w \<Rightarrow> go_error option \<times> 'w"
  GetRoleBinding :: "string \<Rightarrow> string \<Rightarrow> 'w \<Rightarrow> go_error option \<times> 'w"
  CreateRoleBinding :: "RoleBinding \<Rightarrow> 'w \<Rightarrow> go_error option \<times> 'w"

definition agent_role_name :: "string \<Rightarrow> string" where
  "agent_role_name addon = ''open-cluster-management:'' @ addon @ '':agent''"

definition agent_role :: "string \<Rightarrow> string \<Rightarrow> Role" where
  "agent_role cluster addon = \<lparr>
     role_Name = agent_role_name addon,
     role_Namespace = cluster,
     role_Rules = [
       \<lparr>Verbs = [''get'', ''list'', ''watch'', ''create'', ''delete'', ''update'', ''patch''],
        Resources = [''workstatuses''], APIGroups = [''control.kubestellar.io'']\<rparr>,
       \<lparr>Verbs = [''patch'', ''update''], Resources = [''workstatuses/status''], APIGroups = [''control.kubestellar.io'']\<rparr>,
       \<lparr>Verbs = [''get'', ''list'', ''watch''], Resources = [''managedclusteraddons''],
        APIGroups = [''addon.open-cluster-management.io'']\<rparr>,
       \<lparr>Verbs = [''get'', ''list'', ''watch''], Resources = [''manifestworks''],
        APIGroups = [''work.open-cluster-management.io'']\<rparr>]\<rparr>"

definition agent_binding :: "string \<Rightarrow> string \<Rightarrow> string \<Rightarrow> RoleBinding" where
  "agent_binding cluster addon grp = \<lparr>
     rb_Name = agent_role_name addon,
     rb_Namespace = cluster,
     rb_RoleRef = \<lparr>rr_APIGroup = ''rbac.authorization.k8s.io'', rr_Kind = ''Role'', rr_Name = agent_role_name addon\<rparr>,
     rb_Subjects = [\<lparr>sub_Kind = ''Group'', sub_APIGroup = ''rbac.authorization.k8s.io'', sub_Name = grp\<rparr>]\<rparr>"

text \<open>The two switches: create when the read says there is none, fail on another error, else go on.\<close>

definition ensure :: "(go_error \<Rightarrow> bool) \<Rightarrow> ('w \<Rightarrow> go_error option \<times> 'w) \<Rightarrow> ('w \<Rightarrow> go_error option \<times> 'w) \<Rightarrow>
    'w \<Rightarrow> go_error option \<times> 'w" where
  "ensure NF get create w =
     (case get w of
        (Some err, w) \<Rightarrow> if NF err then create w else (Some err, w)
      | (None, w) \<Rightarrow> (None, w))"

definition AddonRBAC ::
    "(go_error \<Rightarrow> bool) \<Rightarrow> (string \<Rightarrow> string \<Rightarrow> string list) \<Rightarrow> (go_error + 'w rbac_client) \<Rightarrow> string \<Rightarrow> string \<Rightarrow>
     'w \<Rightarrow> (go_error option \<times> 'w) outcome" where
  "AddonRBAC NF DefaultGroups newClient cluster addon w =
     (case newClient of
        Inl err \<Rightarrow> Ret (Some err, w)
      | Inr kubeclient \<Rightarrow>
          let groups = DefaultGroups cluster addon;
              role = agent_role cluster addon in
          if groups = [] then Panic ''index out of range''
          else
            let binding = agent_binding cluster addon (groups ! 0) in
            (case ensure NF (GetRole kubeclient cluster (role_Name role)) (CreateRole kubeclient role) w of
               (Some err, w) \<Rightarrow> Ret (Some err, w)
             | (None, w) \<Rightarrow>
                 Ret (ensure NF (GetRoleBinding kubeclient cluster (rb_Name binding)) (CreateRoleBinding kubeclient binding) w)))"

section \<open>Access control and the hub\<close>

text \<open>A rule list allows a verb on a resource of a group; no wildcards occur in the role.\<close>

definition permits :: "PolicyRule list \<Rightarrow> string \<times> string \<times> string \<Rightarrow> bool" where
  "permits rules a \<longleftrightarrow> (case a of (verb, grp, resource) \<Rightarrow>
     list_ex (\<lambda>r. verb \<in> set (Verbs r) \<and> grp \<in> set (APIGroups r) \<and> resource \<in> set (Resources r)) rules)"

text \<open>
  Documented behaviour of the RBAC API: \<open>roles\<close> and \<open>bindings\<close> are its objects by namespace and
  name; a read succeeds exactly on a present object and changes nothing; a successful create stores
  the object; a failed one changes nothing.
\<close>

definition rbac_doc :: "(go_error \<Rightarrow> bool) \<Rightarrow> 'w rbac_client \<Rightarrow> ('w \<Rightarrow> string \<times> string \<rightharpoonup> Role) \<Rightarrow>
    ('w \<Rightarrow> string \<times> string \<rightharpoonup> RoleBinding) \<Rightarrow> bool" where
  "rbac_doc NF C roles bindings \<longleftrightarrow>
     (\<forall>ns n w e w'. GetRole C ns n w = (e, w') \<longrightarrow> roles w' = roles w \<and> bindings w' = bindings w \<and>
        (e = None \<longrightarrow> roles w (ns, n) \<noteq> None) \<and> (\<forall>x. e = Some x \<longrightarrow> NF x \<longrightarrow> roles w (ns, n) = None)) \<and>
     (\<forall>r w e w'. CreateRole C r w = (e, w') \<longrightarrow> bindings w' = bindings w \<and>
        roles w' = (if e = None then (roles w)((role_Namespace r, role_Name r) \<mapsto> r) else roles w)) \<and>
     (\<forall>ns n w e w'. GetRoleBinding C ns n w = (e, w') \<longrightarrow> roles w' = roles w \<and> bindings w' = bindings w \<and>
        (e = None \<longrightarrow> bindings w (ns, n) \<noteq> None) \<and> (\<forall>x. e = Some x \<longrightarrow> NF x \<longrightarrow> bindings w (ns, n) = None)) \<and>
     (\<forall>b w e w'. CreateRoleBinding C b w = (e, w') \<longrightarrow> roles w' = roles w \<and>
        bindings w' = (if e = None then (bindings w)((rb_Namespace b, rb_Name b) \<mapsto> b) else bindings w))"

lemma ensure_role:
  assumes "rbac_doc NF C roles bindings"
    and "ensure NF (GetRole C cluster (role_Name r)) (CreateRole C r) w = (e, w')" "role_Namespace r = cluster"
  shows "bindings w' = bindings w \<and> (e \<noteq> None \<longrightarrow> roles w' = roles w) \<and> (e = None \<longrightarrow> roles w' =
     (roles w)((cluster, role_Name r) \<mapsto> (case roles w (cluster, role_Name r) of Some old \<Rightarrow> old | None \<Rightarrow> r)))"
proof -
  obtain ge w1 where g: "GetRole C cluster (role_Name r) w = (ge, w1)" by (rule prod.exhaust)
  have 1: "roles w1 = roles w" "bindings w1 = bindings w" "ge = None \<Longrightarrow> roles w (cluster, role_Name r) \<noteq> None"
    "\<And>x. ge = Some x \<Longrightarrow> NF x \<Longrightarrow> roles w (cluster, role_Name r) = None"
    using assms(1) [unfolded rbac_doc_def, THEN conjunct1, rule_format, OF g] by simp_all
  have 2: "bindings w' = bindings w1 \<and> roles w' = (if e = None then (roles w1)((role_Namespace r, role_Name r) \<mapsto> r) else roles w1)"
    if "CreateRole C r w1 = (e, w')"
    using assms(1) [unfolded rbac_doc_def, THEN conjunct2, THEN conjunct1, rule_format, OF that] .
  show ?thesis
    using assms(2,3) g 1 2 by (auto simp: ensure_def fun_upd_idem split: option.splits if_splits)
qed

lemma ensure_binding:
  assumes "rbac_doc NF C roles bindings"
    and "ensure NF (GetRoleBinding C cluster (rb_Name b)) (CreateRoleBinding C b) w = (e, w')" "rb_Namespace b = cluster"
  shows "roles w' = roles w \<and> (e \<noteq> None \<longrightarrow> bindings w' = bindings w) \<and> (e = None \<longrightarrow> bindings w' =
     (bindings w)((cluster, rb_Name b) \<mapsto> (case bindings w (cluster, rb_Name b) of Some old \<Rightarrow> old | None \<Rightarrow> b)))"
proof -
  obtain ge w1 where g: "GetRoleBinding C cluster (rb_Name b) w = (ge, w1)" by (rule prod.exhaust)
  have 1: "roles w1 = roles w" "bindings w1 = bindings w" "ge = None \<Longrightarrow> bindings w (cluster, rb_Name b) \<noteq> None"
    "\<And>x. ge = Some x \<Longrightarrow> NF x \<Longrightarrow> bindings w (cluster, rb_Name b) = None"
    using assms(1) [unfolded rbac_doc_def, THEN conjunct2, THEN conjunct2, THEN conjunct1, rule_format, OF g] by simp_all
  have 2: "roles w' = roles w1 \<and> bindings w' = (if e = None then (bindings w1)((rb_Namespace b, rb_Name b) \<mapsto> b) else bindings w1)"
    if "CreateRoleBinding C b w1 = (e, w')"
    using assms(1) [unfolded rbac_doc_def, THEN conjunct2, THEN conjunct2, THEN conjunct2, rule_format, OF that] .
  show ?thesis
    using assms(2,3) g 1 2 by (auto simp: ensure_def fun_upd_idem split: option.splits if_splits)
qed

section \<open>The controller's own permissions\<close>

text \<open>
  pkg/internal/kubebuilder-gen.go: the RBAC markers, from which the ClusterRole of the controller is
  generated. A marker lists groups, resources and verbs, the separator being a semicolon; here each is one
  \<^verbatim>\<open>PolicyRule\<close>. The reconciler they annotate does nothing.
\<close>

definition rbac_marker :: "string \<Rightarrow> string list \<Rightarrow> string list \<Rightarrow> PolicyRule" where
  "rbac_marker grp resources verbs = \<lparr>Verbs = verbs, Resources = resources, APIGroups = [grp]\<rparr>"

definition controller_rules :: "PolicyRule list" where
  "controller_rules = [
     rbac_marker ''control.kubestellar.io'' [''workstatuses''] [''get'', ''list'', ''watch'', ''create'', ''update'', ''delete'', ''patch''],
     rbac_marker ''control.kubestellar.io'' [''workstatuses/status''] [''update'', ''patch''],
     rbac_marker '''' [''configmaps'', ''events'']
       [''get'', ''list'', ''watch'', ''create'', ''update'', ''delete'', ''deletecollection'', ''patch''],
     rbac_marker ''coordination.k8s.io'' [''leases''] [''get'', ''list'', ''watch'', ''create'', ''update'', ''patch''],
     rbac_marker ''rbac.authorization.k8s.io'' [''roles'', ''rolebindings'']
       [''get'', ''list'', ''watch'', ''create'', ''update'', ''delete''],
     rbac_marker ''rbac.authorization.k8s.io'' [''subjectaccessreviews''] [''get'', ''create''],
     rbac_marker ''certificates.k8s.io'' [''certificatesigningrequests'', ''certificatesigningrequests/approval'']
       [''get'', ''list'', ''watch'', ''create'', ''update''],
     rbac_marker ''certificates.k8s.io'' [''signers''] [''approve''],
     rbac_marker ''cluster.open-cluster-management.io'' [''managedclusters''] [''get'', ''list'', ''watch''],
     rbac_marker ''work.open-cluster-management.io'' [''manifestworks'']
       [''get'', ''list'', ''watch'', ''create'', ''update'', ''delete'', ''deletecollection'', ''patch''],
     rbac_marker ''addon.open-cluster-management.io'' [''managedclusteraddons/finalizers''] [''update''],
     rbac_marker ''addon.open-cluster-management.io'' [''clustermanagementaddons/finalizers''] [''update''],
     rbac_marker ''addon.open-cluster-management.io'' [''clustermanagementaddons/status''] [''update'', ''patch''],
     rbac_marker ''addon.open-cluster-management.io'' [''clustermanagementaddons'']
       [''get'', ''list'', ''watch'', ''create'', ''patch'', ''update''],
     rbac_marker ''addon.open-cluster-management.io'' [''managedclusteraddons'']
       [''get'', ''list'', ''watch'', ''create'', ''update'', ''delete''],
     rbac_marker ''addon.open-cluster-management.io'' [''managedclusteraddons/status''] [''update'', ''patch''],
     rbac_marker ''addon.open-cluster-management.io'' [''addondeploymentconfigs''] [''get'', ''list'', ''watch'']]"

text \<open>\<^verbatim>\<open>ctrl.Result{}\<close> is the zero value: no requeue, no delay.\<close>

record ctrl_Result =
  Requeue :: bool
  RequeueAfter :: int

definition NoOpReconciler_Reconcile :: "'req \<Rightarrow> ctrl_Result \<times> go_error option" where
  "NoOpReconciler_Reconcile req = (\<lparr>Requeue = False, RequeueAfter = 0\<rparr>, None)"

text \<open>
  The verb, group and resource of each call \<^verbatim>\<open>AddonRBAC\<close> makes, and a client that refuses,
  with a Forbidden error, what a rule list does not allow. The API server also prevents escalation: it refuses to create a role
  that allows more than its creator is allowed, unless the creator has the verb \<^verbatim>\<open>escalate\<close> on roles, and to create a binding to a
  role that does, or is not there, unless the creator has the verb \<^verbatim>\<open>bind\<close>. \<open>escalates\<close> is that check, and \<open>roles\<close> gives the
  roles of the world.
\<close>

definition escalates :: "PolicyRule list \<Rightarrow> PolicyRule list \<Rightarrow> bool" where
  "escalates own granted \<longleftrightarrow> \<not> list_all (\<lambda>r. list_all (\<lambda>v. list_all (\<lambda>g. list_all (\<lambda>res. permits own (v, g, res))
      (Resources r)) (APIGroups r)) (Verbs r)) granted"

definition rbac_group :: string where
  "rbac_group = ''rbac.authorization.k8s.io''"

definition may_bind :: "PolicyRule list \<Rightarrow> Role option \<Rightarrow> bool" where
  "may_bind own role \<longleftrightarrow> permits own (''bind'', rbac_group, ''roles'') \<or> (case role of None \<Rightarrow> False | Some r \<Rightarrow> \<not> escalates own (role_Rules r))"

definition authorized_client :: "PolicyRule list \<Rightarrow> ('w \<Rightarrow> string \<times> string \<rightharpoonup> Role) \<Rightarrow> 'w rbac_client \<Rightarrow> 'w rbac_client" where
  "authorized_client own roles C =
     (let forbidden = (\<lambda>w. (Some (Extern ''Forbidden'' ''''), w)) in \<lparr>
     GetRole = (\<lambda>ns n w. if permits own (''get'', rbac_group, ''roles'') then GetRole C ns n w else forbidden w),
     CreateRole = (\<lambda>r w. if permits own (''create'', rbac_group, ''roles'') \<and>
           (permits own (''escalate'', rbac_group, ''roles'') \<or> \<not> escalates own (role_Rules r))
       then CreateRole C r w else forbidden w),
     GetRoleBinding = (\<lambda>ns n w. if permits own (''get'', rbac_group, ''rolebindings'') then GetRoleBinding C ns n w else forbidden w),
     CreateRoleBinding = (\<lambda>b w. if permits own (''create'', rbac_group, ''rolebindings'') \<and>
           may_bind own (roles w (rb_Namespace b, rr_Name (rb_RoleRef b)))
       then CreateRoleBinding C b w else forbidden w)\<rparr>)"

lemma escalates_iff:
  "escalates own granted \<longleftrightarrow> (\<exists>a. permits granted a \<and> \<not> permits own a)"
proof -
  have "permits granted a \<longleftrightarrow> (\<exists>r\<in>set granted. fst a \<in> set (Verbs r) \<and> fst (snd a) \<in> set (APIGroups r) \<and> snd (snd a) \<in> set (Resources r))" for a
    by (cases a) (simp add: permits_def list_ex_iff)
  then show ?thesis by (auto simp: escalates_def list_all_iff)
qed

section \<open>Properties\<close>

text \<open>The role allows every call the agent's reconciler can make to the hub.\<close>

lemma role_permits_call: "permits (role_Rules (agent_role cluster addon)) (hub_access call)"
  by (cases call) (simp_all add: permits_def agent_role_def)

text \<open>
  The role allows no more than this: reading the addon and the manifest works, seven verbs on
  WorkStatus objects and two on their status; in particular no write to manifest works.
\<close>

lemma role_least_privilege:
  "permits (role_Rules (agent_role cluster addon)) (verb, grp, resource) \<longleftrightarrow>
     (grp, resource) = (''control.kubestellar.io'', ''workstatuses'') \<and>
       verb \<in> {''get'', ''list'', ''watch'', ''create'', ''delete'', ''update'', ''patch''} \<or>
     (grp, resource) = (''control.kubestellar.io'', ''workstatuses/status'') \<and> verb \<in> {''patch'', ''update''} \<or>
     (grp, resource) \<in> {(''addon.open-cluster-management.io'', ''managedclusteraddons''),
       (''work.open-cluster-management.io'', ''manifestworks'')} \<and> verb \<in> {''get'', ''list'', ''watch''}"
  by (auto simp: permits_def agent_role_def)

text \<open>
  Property C25: \<^verbatim>\<open>AddonRBAC\<close> returns nil only if the hub then has a role and a role binding of the
  addon in the cluster's namespace: those that were there, unchanged, or else the ones it builds; no
  other role or binding is touched, also when it fails.
\<close>

theorem AddonRBAC_grants:
  assumes "rbac_doc NF C roles bindings" "DefaultGroups cluster addon = grp # rest"
    and "AddonRBAC NF DefaultGroups (Inr C) cluster addon w = Ret (e, w')"
  shows "(\<forall>k. k \<noteq> (cluster, agent_role_name addon) \<longrightarrow> roles w' k = roles w k \<and> bindings w' k = bindings w k) \<and>
    (e = None \<longrightarrow>
       roles w' (cluster, agent_role_name addon) =
         Some (case roles w (cluster, agent_role_name addon) of Some r \<Rightarrow> r | None \<Rightarrow> agent_role cluster addon) \<and>
       bindings w' (cluster, agent_role_name addon) =
         Some (case bindings w (cluster, agent_role_name addon) of Some b \<Rightarrow> b | None \<Rightarrow> agent_binding cluster addon grp))"
proof -
  let ?r = "agent_role cluster addon" and ?b = "agent_binding cluster addon grp"
  have n: "role_Name ?r = agent_role_name addon" "role_Namespace ?r = cluster" "rb_Name ?b = agent_role_name addon" "rb_Namespace ?b = cluster"
    by (simp_all add: agent_role_def agent_binding_def)
  obtain e1 w1 where r: "ensure NF (GetRole C cluster (role_Name ?r)) (CreateRole C ?r) w = (e1, w1)" by (rule prod.exhaust)
  note role = ensure_role [OF assms(1) r n(2), unfolded n]
  show ?thesis
  proof (cases e1)
    case (Some x)
    then have "e = Some x" "w' = w1" using assms(2,3) r by (simp_all add: AddonRBAC_def Let_def)
    then show ?thesis using role Some by simp
  next
    case None
    then have b: "ensure NF (GetRoleBinding C cluster (rb_Name ?b)) (CreateRoleBinding C ?b) w1 = (e, w')"
      using assms(2,3) r by (simp add: AddonRBAC_def Let_def)
    from ensure_binding [OF assms(1) b n(4), unfolded n] role None show ?thesis by (cases e) auto
  qed
qed

text \<open>The controller's own rules, and its client.\<close>

lemma controller_client:
  "permits controller_rules (''create'', rbac_group, ''rolebindings'')" "\<not> permits controller_rules (''bind'', rbac_group, ''roles'')"
  "\<not> escalates controller_rules (role_Rules (agent_role cluster addon))"
  "GetRole (authorized_client controller_rules roles C) = GetRole C"
  "CreateRole (authorized_client controller_rules roles C) (agent_role cluster addon) = CreateRole C (agent_role cluster addon)"
  "GetRoleBinding (authorized_client controller_rules roles C) = GetRoleBinding C"
proof -
  have own: "permits controller_rules (''get'', rbac_group, ''roles'')" "permits controller_rules (''create'', rbac_group, ''roles'')"
    "permits controller_rules (''get'', rbac_group, ''rolebindings'')"
    by (simp_all add: permits_def controller_rules_def rbac_marker_def rbac_group_def)
  show "permits controller_rules (''create'', rbac_group, ''rolebindings'')" "\<not> permits controller_rules (''bind'', rbac_group, ''roles'')"
    by (simp_all add: permits_def controller_rules_def rbac_marker_def rbac_group_def)
  show esc: "\<not> escalates controller_rules (role_Rules (agent_role cluster addon))"
    by (simp add: escalates_def permits_def controller_rules_def rbac_marker_def agent_role_def)
  show "GetRole (authorized_client controller_rules roles C) = GetRole C"
    "CreateRole (authorized_client controller_rules roles C) (agent_role cluster addon) = CreateRole C (agent_role cluster addon)"
    "GetRoleBinding (authorized_client controller_rules roles C) = GetRoleBinding C"
    using own esc by (simp_all add: authorized_client_def Let_def)
qed

text \<open>
  Property C26: the permissions in the markers are enough for what the controller does on behalf of the agent, unless somebody else made a
  larger role of that name: if the role that is there under the agent's name, if one is, allows nothing that the markers do not,
  a client limited to them, with the API server's escalation checks on roles and on bindings, answers \<^verbatim>\<open>AddonRBAC\<close> exactly
  as an unlimited one, none of its calls being refused; in particular the role that the controller builds gives the agent nothing that the controller
  itself may not do.
\<close>

theorem controller_may_grant:
  assumes "rbac_doc NF C roles bindings"
    and "\<And>r. roles w (cluster, agent_role_name addon) = Some r \<Longrightarrow> \<not> escalates controller_rules (role_Rules r)"
  shows "AddonRBAC NF DefaultGroups (Inr (authorized_client controller_rules roles C)) cluster addon w =
     AddonRBAC NF DefaultGroups (Inr C) cluster addon w \<and>
   \<not> escalates controller_rules (role_Rules (agent_role cluster addon))"
proof -
  let ?C = "authorized_client controller_rules roles C" and ?r = "agent_role cluster addon" and ?n = "agent_role_name addon"
  note c = controller_client
  have n: "role_Name ?r = ?n" "role_Namespace ?r = cluster" by (simp_all add: agent_role_def)
  have bind: "ensure NF (GetRoleBinding ?C cluster (rb_Name b)) (CreateRoleBinding ?C b) w1 =
      ensure NF (GetRoleBinding C cluster (rb_Name b)) (CreateRoleBinding C b) w1"
    if r: "ensure NF (GetRole C cluster ?n) (CreateRole C ?r) w = (None, w1)" and b: "b = agent_binding cluster addon grp" for b grp w1
  proof -
    have "\<exists>x. roles w1 (cluster, ?n) = Some x \<and> \<not> escalates controller_rules (role_Rules x)"
      using ensure_role [OF assms(1) r [folded n(1)] n(2)] assms(2) c(3) by (auto simp: n split: option.split)
    moreover have "roles w2 = roles w1" if "GetRoleBinding C cluster (rb_Name b) w1 = (e, w2)" for e w2
      using assms(1) [unfolded rbac_doc_def, THEN conjunct2, THEN conjunct2, THEN conjunct1, rule_format, OF that] by simp
    ultimately have "CreateRoleBinding ?C b w2 = CreateRoleBinding C b w2" if "GetRoleBinding C cluster (rb_Name b) w1 = (e, w2)" for e w2
      using that c(1) by (auto simp: b authorized_client_def may_bind_def agent_binding_def Let_def)
    then show ?thesis by (auto simp: ensure_def c(6) split: prod.split option.split)
  qed
  have "AddonRBAC NF DefaultGroups (Inr ?C) cluster addon w = AddonRBAC NF DefaultGroups (Inr C) cluster addon w"
    using bind by (auto simp: AddonRBAC_def Let_def c(4,5) n split: prod.split option.split)
  with c(3) show ?thesis by blast
qed

text \<open>
  With a larger role of that name, and no binding yet, the binding is refused, and the agent gets no permission at all.
\<close>

lemma larger_role_refused:
  assumes "rbac_doc NF C roles bindings" "DefaultGroups cluster addon = grp # rest" "\<not> NF (Extern ''Forbidden'' '''')"
    and "roles w (cluster, agent_role_name addon) = Some r" "escalates controller_rules (role_Rules r)"
    and "GetRole C cluster (agent_role_name addon) w = (None, w1)" "GetRoleBinding C cluster (agent_role_name addon) w1 = (Some e, w2)" "NF e"
  shows "AddonRBAC NF DefaultGroups (Inr (authorized_client controller_rules roles C)) cluster addon w = Ret (Some (Extern ''Forbidden'' ''''), w2) \<and>
    bindings w2 = bindings w"
proof -
  note c = controller_client
  have 1: "roles w1 = roles w" "bindings w1 = bindings w"
    using assms(1) [unfolded rbac_doc_def, THEN conjunct1, rule_format, OF assms(6)] by simp_all
  have 2: "roles w2 = roles w1" "bindings w2 = bindings w1"
    using assms(1) [unfolded rbac_doc_def, THEN conjunct2, THEN conjunct2, THEN conjunct1, rule_format, OF assms(7)] by simp_all
  have n: "role_Name (agent_role cluster addon) = agent_role_name addon" "rb_Name (agent_binding cluster addon grp) = agent_role_name addon"
    by (simp_all add: agent_role_def agent_binding_def)
  have "CreateRoleBinding (authorized_client controller_rules roles C) (agent_binding cluster addon grp) w2 = (Some (Extern ''Forbidden'' ''''), w2)"
    using assms(4,5) 1 2 c(1,2) by (simp add: authorized_client_def may_bind_def agent_binding_def Let_def)
  then show ?thesis using assms(2,6-8) 1 2 by (simp add: AddonRBAC_def ensure_def Let_def c(4,6) n)
qed

text \<open>A store of roles and bindings that behaves as documented.\<close>

type_synonym rbac_store = "(string \<times> string, Role) fmap \<times> (string \<times> string, RoleBinding) fmap"

definition ex_rbac :: "rbac_store rbac_client" where
  "ex_rbac = \<lparr>
     GetRole = (\<lambda>ns n w. (if fmlookup (fst w) (ns, n) = None then Some (Extern ''NotFound'' n) else None, w)),
     CreateRole = (\<lambda>r w. (None, fmupd (role_Namespace r, role_Name r) r (fst w), snd w)),
     GetRoleBinding = (\<lambda>ns n w. (if fmlookup (snd w) (ns, n) = None then Some (Extern ''NotFound'' n) else None, w)),
     CreateRoleBinding = (\<lambda>b w. (None, fst w, fmupd (rb_Namespace b, rb_Name b) b (snd w)))\<rparr>"

lemma ex_rbac_doc: "rbac_doc (IsNotFound doc_lib) ex_rbac (\<lambda>w. fmlookup (fst w)) (\<lambda>w. fmlookup (snd w))"
  by (auto simp: rbac_doc_def ex_rbac_def doc_lib_def fun_eq_iff split: if_splits)

theorem AddonRBAC_grants_witness:
  "\<exists>w'. AddonRBAC (IsNotFound doc_lib) (\<lambda>c a. [''system:open-cluster-management:cluster:'' @ c @ '':addon:'' @ a]) (Inr ex_rbac)
      ''cluster1'' ''addon-status'' (fmempty, fmempty) = Ret (None, w') \<and>
    fmlookup (fst w') (''cluster1'', agent_role_name ''addon-status'') = Some (agent_role ''cluster1'' ''addon-status'')"
proof -
  let ?groups = "\<lambda>c a. [''system:open-cluster-management:cluster:'' @ c @ '':addon:'' @ a]"
  obtain w' where w': "AddonRBAC (IsNotFound doc_lib) ?groups (Inr ex_rbac) ''cluster1'' ''addon-status'' (fmempty, fmempty) = Ret (None, w')"
    by (simp add: AddonRBAC_def ensure_def ex_rbac_def doc_lib_def Let_def agent_role_def agent_binding_def)
  with AddonRBAC_grants [OF ex_rbac_doc refl w'] show ?thesis by simp
qed

theorem controller_may_grant_witness:
  "\<exists>w'. AddonRBAC (IsNotFound doc_lib) (\<lambda>c a. [c]) (Inr (authorized_client controller_rules (\<lambda>w. fmlookup (fst w)) ex_rbac))
      ''cluster1'' ''addon-status'' (fmempty, fmempty) = Ret (None, w')"
proof -
  have "AddonRBAC (IsNotFound doc_lib) (\<lambda>c a. [c]) (Inr (authorized_client controller_rules (\<lambda>w. fmlookup (fst w)) ex_rbac)) ''cluster1'' ''addon-status''
      (fmempty, fmempty) = AddonRBAC (IsNotFound doc_lib) (\<lambda>c a. [c]) (Inr ex_rbac) ''cluster1'' ''addon-status'' (fmempty, fmempty)"
    by (rule conjunct1, rule controller_may_grant [OF ex_rbac_doc]) simp
  moreover have "\<exists>w'. AddonRBAC (IsNotFound doc_lib) (\<lambda>c a. [c]) (Inr ex_rbac) ''cluster1'' ''addon-status'' (fmempty, fmempty) = Ret (None, w')"
    by (simp add: AddonRBAC_def ensure_def ex_rbac_def doc_lib_def Let_def agent_role_def agent_binding_def)
  ultimately show ?thesis by simp
qed

end
