(* ===== verification/Controller.thy ===== *)
theory Controller
  imports Rbac
begin

text \<open>
  pkg/controller/manager.go: the values the agent's manifests are rendered with, the registration
  options, and the health prober. The environment, the conversion of the values for the template
  engine and the functions of the addon framework are parameters.
\<close>

section \<open>Definitions\<close>

definition DefaultStatusAddOnImage :: string where
  "DefaultStatusAddOnImage = ''quay.io/pdettori/status-addon:0.1.0''"

definition AddonName :: string where "AddonName = ''addon-status''"

definition InstallationNamespace :: string where
  "InstallationNamespace = ''open-cluster-management-agent-addon''"

record ManagedClusterAddOn =
  ao_Name :: string
  ao_InstallNamespace :: string

record manifestConfig =
  KubeConfigSecret :: string
  ClusterName :: string
  AddonInstallNamespace :: string
  Image :: string

definition GetDefaultValues :: "(string \<Rightarrow> string) \<Rightarrow> (manifestConfig \<Rightarrow> 'v) \<Rightarrow> string \<Rightarrow> ManagedClusterAddOn \<Rightarrow> go_error + 'v" where
  "GetDefaultValues Getenv StructToValues cluster addon =
     (let installNamespace = ao_InstallNamespace addon;
          installNamespace = (if length installNamespace = 0 then InstallationNamespace else installNamespace);
          image = Getenv ''STATUS_ADDDON_IMAGE_NAME'';
          image = (if length image = 0 then DefaultStatusAddOnImage else image)
      in Inr (StructToValues \<lparr>KubeConfigSecret = ao_Name addon @ ''-hub-kubeconfig'', ClusterName = cluster,
           AddonInstallNamespace = installNamespace, Image = image\<rparr>))"

text \<open>The registration options; \<open>'c\<close>, \<open>'a\<close> and \<open>'p\<close> are the framework's values for the first three fields.\<close>

record ('c, 'a, 'p) RegistrationOption =
  CSRConfigurations :: 'c
  CSRApproveCheck :: 'a
  PermissionConfig :: 'p
  ro_Namespace :: string

definition NewRegistrationOption ::
    "(string \<Rightarrow> string \<Rightarrow> 'c) \<Rightarrow> (string \<Rightarrow> 'a) \<Rightarrow> (go_error \<Rightarrow> bool) \<Rightarrow> (string \<Rightarrow> string \<Rightarrow> string list) \<Rightarrow>
     (go_error + 'w rbac_client) \<Rightarrow> string \<Rightarrow> string \<Rightarrow>
     ('c, 'a, string \<Rightarrow> string \<Rightarrow> 'w \<Rightarrow> (go_error option \<times> 'w) outcome) RegistrationOption" where
  "NewRegistrationOption KubeClientSignerConfigurations DefaultCSRApprover NF DefaultGroups newClient addonName agent =
     \<lparr>CSRConfigurations = KubeClientSignerConfigurations addonName agent,
      CSRApproveCheck = DefaultCSRApprover agent,
      PermissionConfig = AddonRBAC NF DefaultGroups newClient,
      ro_Namespace = InstallationNamespace\<rparr>"

record ResourceIdentifier =
  ri_Group :: string
  ri_Resource :: string
  ri_Name :: string
  ri_Namespace :: string

text \<open>A feedback value: its name and, for an integer value, the integer (a pointer in the code).\<close>

record FeedbackValue =
  fv_Name :: string
  fv_Integer :: "int option"

text \<open>\<^verbatim>\<open>%d\<close> of an integer.\<close>

fun nat_digits :: "nat \<Rightarrow> string" where
  "nat_digits n = (if n < 10 then [char_of (48 + n)] else nat_digits (n div 10) @ [char_of (48 + n mod 10)])"

definition fmt_d :: "int \<Rightarrow> string" where
  "fmt_d i = (if i < 0 then ''-'' @ nat_digits (nat (- i)) else nat_digits (nat i))"

fun HealthCheck_loop :: "ResourceIdentifier \<Rightarrow> FeedbackValue list \<Rightarrow> go_error option outcome" where
  "HealthCheck_loop identifier [] = Ret (Some (Errorf ''readyReplica is not probed''))"
| "HealthCheck_loop identifier (value # values) =
     (if fv_Name value \<noteq> ''ReadyReplicas'' then HealthCheck_loop identifier values
      else
        (case fv_Integer value of
           None \<Rightarrow> Panic ''nil pointer dereference''
         | Some n \<Rightarrow>
             if n \<ge> 1 then Ret None
             else Ret (Some (Errorf (''readyReplica is '' @ fmt_d n @ '' for deployement '' @
                    ri_Namespace identifier @ ''/'' @ ri_Name identifier)))))"

definition HealthCheck :: "ResourceIdentifier \<Rightarrow> FeedbackValue list \<Rightarrow> go_error option outcome" where
  "HealthCheck identifier values =
     (if length values = 0
      then Ret (Some (Errorf (''no values are probed for deployment '' @ ri_Namespace identifier @ ''/'' @ ri_Name identifier)))
      else HealthCheck_loop identifier values)"

record ProbeField =
  pf_ResourceIdentifier :: ResourceIdentifier
  pf_ProbeRules :: "string list"

record WorkHealthProber =
  ProbeFields :: "ProbeField list"
  wp_HealthCheck :: "ResourceIdentifier \<Rightarrow> FeedbackValue list \<Rightarrow> go_error option outcome"

definition AgentHealthProber :: WorkHealthProber where
  "AgentHealthProber =
     \<lparr>ProbeFields = [\<lparr>pf_ResourceIdentifier = \<lparr>ri_Group = ''apps'', ri_Resource = ''deployments'', ri_Name = ''status-agent'',
                         ri_Namespace = InstallationNamespace\<rparr>, pf_ProbeRules = [''WellKnownStatus'']\<rparr>],
      wp_HealthCheck = HealthCheck\<rparr>"

section \<open>Properties\<close>

lemma HealthCheck_loop_find:
  "HealthCheck_loop ident vs =
     (case find (\<lambda>v. fv_Name v = ''ReadyReplicas'') vs of
        None \<Rightarrow> Ret (Some (Errorf ''readyReplica is not probed''))
      | Some v \<Rightarrow> HealthCheck_loop ident [v])"
  by (induction vs) (auto simp: find_Some_iff)

text \<open>
  Property C31: the agent is healthy exactly when the first value named \<open>ReadyReplicas\<close> is an integer
  of at least one; the check panics exactly when that value is not an integer; it fails with an error
  in all other cases, whatever other values are there.
\<close>

theorem HealthCheck_spec:
  "(HealthCheck ident vs = Ret None \<longleftrightarrow>
      (\<exists>v n. find (\<lambda>v. fv_Name v = ''ReadyReplicas'') vs = Some v \<and> fv_Integer v = Some n \<and> 1 \<le> n)) \<and>
   (\<not> returns (HealthCheck ident vs) \<longleftrightarrow>
      (\<exists>v. find (\<lambda>v. fv_Name v = ''ReadyReplicas'') vs = Some v \<and> fv_Integer v = None))"
proof (cases "find (\<lambda>v. fv_Name v = ''ReadyReplicas'') vs")
  case None
  then show ?thesis by (simp add: HealthCheck_def HealthCheck_loop_find [of ident vs])
next
  case (Some v)
  then have "vs \<noteq> []" "fv_Name v = ''ReadyReplicas''" by (auto simp: find_Some_iff)
  then show ?thesis
    using Some by (cases "fv_Integer v") (simp_all add: HealthCheck_def HealthCheck_loop_find [of ident vs])
qed

text \<open>
  The health prober watches a fixed namespace. An addon that is installed in another one, which the
  manifests' values support, has its deployment where the prober does not look.
\<close>

lemma prober_namespace_fixed:
  assumes "ao_InstallNamespace addon \<notin> {'''', InstallationNamespace}"
  shows "\<exists>c. GetDefaultValues Getenv (\<lambda>c. c) cluster addon = Inr c \<and>
    AddonInstallNamespace c \<notin> set (map (\<lambda>f. ri_Namespace (pf_ResourceIdentifier f)) (ProbeFields AgentHealthProber))"
  using assms by (simp add: GetDefaultValues_def AgentHealthProber_def Let_def)

end
