(* ===== verification/Command.thy ===== *)
theory Command
  imports Controller Complex_Main "HOL-Library.Multiset"
begin

text \<open>
  The flags of the two commands: pkg/client-options/client-options.go,
  pkg/observability/observability.go, the options of pkg/agent/manager.go, and the flags of the
  controller that are passed on to the agents (cmd/ocm-status-addon/main.go).

  A flag set is used through its methods only (the interface \<open>FlagSet\<close> of the code), whose effect is
  to define a flag: adding options to a flag set is the list of the definitions made. Pointers to the
  option fields are not part of it. The constants and constructors of client-go are parameters.
\<close>

section \<open>Definitions\<close>

datatype flag_value = FloatVal rat | IntVal int | StringVal string | BoolVal bool

record flag_def =
  fd_name :: string
  fd_value :: flag_value
  fd_usage :: string

definition Float64Var :: "string \<Rightarrow> rat \<Rightarrow> string \<Rightarrow> flag_def" where
  "Float64Var name value usage = \<lparr>fd_name = name, fd_value = FloatVal value, fd_usage = usage\<rparr>"

definition IntVar :: "string \<Rightarrow> int \<Rightarrow> string \<Rightarrow> flag_def" where
  "IntVar name value usage = \<lparr>fd_name = name, fd_value = IntVal value, fd_usage = usage\<rparr>"

definition StringVar :: "string \<Rightarrow> string \<Rightarrow> string \<Rightarrow> flag_def" where
  "StringVar name value usage = \<lparr>fd_name = name, fd_value = StringVal value, fd_usage = usage\<rparr>"

definition BoolVar :: "string \<Rightarrow> bool \<Rightarrow> string \<Rightarrow> flag_def" where
  "BoolVar name value usage = \<lparr>fd_name = name, fd_value = BoolVal value, fd_usage = usage\<rparr>"

subsection \<open>pkg/client-options\<close>

record ClientLimits =
  cl_name :: string
  cl_description :: string
  QPS :: rat
  Burst :: int

record ClientOptions =
  co_limits :: ClientLimits
  co_ExplicitPath :: string
  co_CurrentContext :: string
  co_AuthInfo :: string
  co_Cluster :: string

text \<open>\<open>DefaultQPS\<close> and \<open>DefaultBurst\<close> are client-go's constants.\<close>

definition NewClientLimits :: "rat \<Rightarrow> int \<Rightarrow> string \<Rightarrow> string \<Rightarrow> ClientLimits" where
  "NewClientLimits DefaultQPS DefaultBurst name description =
     \<lparr>cl_name = name, cl_description = description, QPS = DefaultQPS, Burst = DefaultBurst\<rparr>"

text \<open>The loading rules and overrides as the code constructs them; \<open>explicitPath\<close> is that of client-go's default rules.\<close>

definition NewClientOptions :: "rat \<Rightarrow> int \<Rightarrow> string \<Rightarrow> string \<Rightarrow> string \<Rightarrow> ClientOptions" where
  "NewClientOptions DefaultQPS DefaultBurst explicitPath name description =
     \<lparr>co_limits = NewClientLimits DefaultQPS DefaultBurst name description, co_ExplicitPath = explicitPath,
      co_CurrentContext = '''', co_AuthInfo = '''', co_Cluster = ''''\<rparr>"

definition ClientLimits_AddToFlagSet :: "ClientLimits \<Rightarrow> flag_def list" where
  "ClientLimits_AddToFlagSet opts =
     [Float64Var (cl_name opts @ ''-qps'') (QPS opts) (''Max average requests/sec for '' @ cl_description opts),
      IntVar (cl_name opts @ ''-burst'') (Burst opts) (''Allowed burst in requests/sec for '' @ cl_description opts)]"

definition ClientOptions_AddToFlagSet :: "ClientOptions \<Rightarrow> flag_def list" where
  "ClientOptions_AddToFlagSet opts =
     (let name = cl_name (co_limits opts); description = cl_description (co_limits opts) in
      ClientLimits_AddToFlagSet (co_limits opts) @
      [StringVar (name @ ''-kubeconfig'') (co_ExplicitPath opts) (''Path to the kubeconfig file to use for '' @ description),
       StringVar (name @ ''-context'') (co_CurrentContext opts) (''The name of the kubeconfig context to use for '' @ description),
       StringVar (name @ ''-user'') (co_AuthInfo opts) (''The name of the kubeconfig user to use for '' @ description),
       StringVar (name @ ''-cluster'') (co_Cluster opts) (''The name of the kubeconfig cluster to use for '' @ description)])"

text \<open>\<open>rest.Config\<close>: the rate limiter and everything else.\<close>

record ('l, 'r) Config =
  RateLimiter :: 'l
  cfg_rest :: 'r

definition LimitConfig :: "(rat \<Rightarrow> int \<Rightarrow> 'l) \<Rightarrow> (rat \<Rightarrow> rat) \<Rightarrow> ClientLimits \<Rightarrow> ('l, 'r) Config \<Rightarrow> ('l, 'r) Config" where
  "LimitConfig NewTokenBucketRateLimiter float32 opts base =
     base\<lparr>RateLimiter := NewTokenBucketRateLimiter (float32 (QPS opts)) (Burst opts)\<rparr>"

definition ToRESTConfig :: "(rat \<Rightarrow> int \<Rightarrow> 'l) \<Rightarrow> (rat \<Rightarrow> rat) \<Rightarrow> (ClientOptions \<Rightarrow> go_error + ('l, 'r) Config) \<Rightarrow>
    ClientOptions \<Rightarrow> go_error + ('l, 'r) Config" where
  "ToRESTConfig NewTokenBucketRateLimiter float32 ClientConfig opts =
     (case ClientConfig opts of
        Inl err \<Rightarrow> Inl err
      | Inr base \<Rightarrow> Inr (LimitConfig NewTokenBucketRateLimiter float32 (co_limits opts) base))"

subsection \<open>pkg/observability and the options of the agent\<close>

record ObservabilityOptions =
  MetricsBindAddr :: string
  PprofBindAddr :: string

definition Observability_AddToFlagSet :: "ObservabilityOptions \<Rightarrow> flag_def list" where
  "Observability_AddToFlagSet opts =
     [StringVar ''metrics-bind-addr'' (MetricsBindAddr opts)
        ''[host]:port at which to listen for HTTP requests for Prometheus /metrics requests'',
      StringVar ''pprof-bind-addr'' (PprofBindAddr opts)
        ''[host]:port at which to listen for HTTP requests for go /debug/pprof requests'']"

record AgentUserOptions =
  LocalLimits :: ClientLimits
  HubLimits :: ClientLimits

record AgentOptions =
  ag_Observability :: ObservabilityOptions
  EnableLeaderElection :: bool
  ProbeAddr :: string
  HubKubeconfigFile :: string
  SpokeClusterName :: string
  ag_AddonName :: string
  AddonNamespace :: string
  ag_User :: AgentUserOptions

definition NewObservabilityOptions :: ObservabilityOptions where
  "NewObservabilityOptions = \<lparr>MetricsBindAddr = '':8080'', PprofBindAddr = '':8082''\<rparr>"

definition NewAgentUserOptions :: "rat \<Rightarrow> int \<Rightarrow> AgentUserOptions" where
  "NewAgentUserOptions DefaultQPS DefaultBurst =
     \<lparr>LocalLimits = NewClientLimits DefaultQPS DefaultBurst ''local'' ''accessing the local cluster'',
      HubLimits = NewClientLimits DefaultQPS DefaultBurst ''hub'' ''accessing the hub''\<rparr>"

definition NewAgentOptions :: "rat \<Rightarrow> int \<Rightarrow> string \<Rightarrow> AgentOptions" where
  "NewAgentOptions DefaultQPS DefaultBurst addonName =
     \<lparr>ag_Observability = NewObservabilityOptions, EnableLeaderElection = False, ProbeAddr = '''', HubKubeconfigFile = '''',
      SpokeClusterName = '''', ag_AddonName = addonName, AddonNamespace = '''',
      ag_User = NewAgentUserOptions DefaultQPS DefaultBurst\<rparr>"

definition AgentUserOptions_AddToFlagSet :: "AgentUserOptions \<Rightarrow> flag_def list" where
  "AgentUserOptions_AddToFlagSet o' = ClientLimits_AddToFlagSet (LocalLimits o') @ ClientLimits_AddToFlagSet (HubLimits o')"

definition AddFlags :: "AgentOptions \<Rightarrow> flag_def list" where
  "AddFlags o' =
     Observability_AddToFlagSet (ag_Observability o') @
     [StringVar ''hub-kubeconfig'' (HubKubeconfigFile o') ''Location of kubeconfig file to connect to hub cluster.'',
      StringVar ''cluster-name'' (SpokeClusterName o') ''Name of spoke cluster.'',
      StringVar ''addon-namespace'' (AddonNamespace o') ''Installation namespace of addon.'',
      StringVar ''addon-name'' (ag_AddonName o') ''name of the addon.'',
      StringVar ''health-probe-bind-address'' '':8081'' ''The address the probe endpoint binds to.'',
      BoolVar ''leader-elect'' False
        (''Enable leader election for controller manager. '' @
         ''Enabling this will ensure there is only one active controller manager.'')] @
     AgentUserOptions_AddToFlagSet (ag_User o')"

subsection \<open>The controller's copies of the agent's flags\<close>

text \<open>A flag of pflag as the controller copies it: \<open>text\<close> is what \<^verbatim>\<open>Value.String()\<close> gives.\<close>

record Flag =
  fl_Name :: string
  fl_Usage :: string
  fl_Shorthand :: string
  fl_Changed :: bool
  fl_text :: string

definition wrap_flag :: "string \<Rightarrow> Flag \<Rightarrow> Flag" where
  "wrap_flag connector flag =
     flag\<lparr>fl_Name := ''agent-'' @ fl_Name flag, fl_Usage := fl_Usage flag @ '' '' @ connector @ '' the agent'', fl_Shorthand := ''''\<rparr>"

text \<open>\<open>getPropagatedSettings\<close> ranges over the recorded flags as they are when it is called.\<close>

fun settings_loop :: "(string, Flag) fmap \<Rightarrow> string list \<Rightarrow> string list \<Rightarrow> string list" where
  "settings_loop NameToWrapped [] settings = settings"
| "settings_loop NameToWrapped (flagName # names) settings =
     (case fmlookup NameToWrapped flagName of
        None \<Rightarrow> settings_loop NameToWrapped names settings
      | Some wrapped \<Rightarrow>
          if fl_Changed wrapped
          then settings_loop NameToWrapped names (settings @ [''--'' @ flagName @ ''='' @ fl_text wrapped])
          else settings_loop NameToWrapped names settings)"

definition getPropagatedSettings :: "range_fun \<Rightarrow> (string, Flag) fmap \<Rightarrow> (string \<times> string list) list" where
  "getPropagatedSettings ord NameToWrapped =
     [(''PropagatedSettings'', sort (settings_loop NameToWrapped (ord (fmdom NameToWrapped)) []))]"

section \<open>Lemmas\<close>

definition setting :: "(string, Flag) fmap \<Rightarrow> string \<Rightarrow> string" where
  "setting m name = (case fmlookup m name of Some w \<Rightarrow> ''--'' @ name @ ''='' @ fl_text w | None \<Rightarrow> '''')"

definition changed_names :: "(string, Flag) fmap \<Rightarrow> string set" where
  "changed_names m = {name. \<exists>w. fmlookup m name = Some w \<and> fl_Changed w}"

lemma settings_loop_eq:
  "settings_loop m names acc =
     acc @ map (setting m) (filter (\<lambda>n. n \<in> changed_names m) names)"
  by (induction m names acc rule: settings_loop.induct)
    (auto simp: setting_def changed_names_def split: option.splits)

lemma sort_range_independent:
  assumes "range_orders ord1" "range_orders ord2"
  shows "sort (map f (filter P (ord1 ks))) = sort (map f (filter P (ord2 ks)))"
proof -
  have "mset (ord1 ks) = mset (ord2 ks)"
    using range_orders_simps [OF assms(1)] range_orders_simps [OF assms(2)] by (metis set_eq_iff_mset_eq_distinct)
  then have "mset (map f (filter P (ord1 ks))) = mset (map f (filter P (ord2 ks)))" by (simp add: mset_filter)
  then show ?thesis by (metis properties_for_sort sorted_sort mset_sort)
qed

lemma agent_flags_distinct: "distinct (map fd_name (AddFlags (NewAgentOptions q b addon)))"
  by (simp add: AddFlags_def NewAgentOptions_def NewAgentUserOptions_def NewClientLimits_def Observability_AddToFlagSet_def
      AgentUserOptions_AddToFlagSet_def ClientLimits_AddToFlagSet_def StringVar_def BoolVar_def Float64Var_def IntVar_def)

section \<open>Properties\<close>

text \<open>
  Property C30: the settings passed on to the agents do not depend on the order the run time ranges over
  the flags in, are sorted, and are exactly \<open>--name=value\<close>, once each, of the flags that were set on the
  controller's command line, under their original names.
\<close>

theorem getPropagatedSettings_spec:
  assumes "range_orders ord"
  shows "\<exists>settings. getPropagatedSettings ord m = [(''PropagatedSettings'', settings)] \<and> sorted settings \<and>
    mset settings = image_mset (setting m) (mset_set (changed_names m)) \<and>
    (\<forall>ord'. range_orders ord' \<longrightarrow> getPropagatedSettings ord' m = getPropagatedSettings ord m)"
proof -
  let ?s = "sort (map (setting m) (filter (\<lambda>n. n \<in> changed_names m) (ord (fmdom m))))"
  have "changed_names m = set (filter (\<lambda>n. n \<in> changed_names m) (ord (fmdom m)))"
    using range_orders_set [OF assms, of "fmdom m"] by (auto simp: changed_names_def fmlookup_dom_iff)
  then have "mset (filter (\<lambda>n. n \<in> changed_names m) (ord (fmdom m))) = mset_set (changed_names m)"
    using mset_set_set [of "filter (\<lambda>n. n \<in> changed_names m) (ord (fmdom m))"] range_orders_distinct [OF assms] by simp
  then have "mset ?s = image_mset (setting m) (mset_set (changed_names m))" by simp
  moreover have "getPropagatedSettings ord' m = [(''PropagatedSettings'', ?s)]" if "range_orders ord'" for ord'
    using sort_range_independent [OF that assms, of "setting m"] by (simp add: getPropagatedSettings_def settings_loop_eq)
  ultimately show ?thesis using assms by simp
qed

definition ex_flags :: "(string, Flag) fmap" where
  "ex_flags = fmupd ''v'' \<lparr>fl_Name = ''agent-v'', fl_Usage = '''', fl_Shorthand = '''', fl_Changed = True, fl_text = ''4''\<rparr>
     (fmupd ''hub-qps'' \<lparr>fl_Name = ''agent-hub-qps'', fl_Usage = '''', fl_Shorthand = '''', fl_Changed = False, fl_text = ''5''\<rparr> fmempty)"

theorem getPropagatedSettings_spec_witness:
  "getPropagatedSettings sorted_order ex_flags = [(''PropagatedSettings'', [''--v=4''])]"
proof -
  have "changed_names ex_flags = {''v''}" by (auto simp: changed_names_def ex_flags_def)
  then have "image_mset (setting ex_flags) (mset_set (changed_names ex_flags)) = {#''--v=4''#}"
    by (simp add: setting_def ex_flags_def)
  then show ?thesis using getPropagatedSettings_spec [OF sorted_order_range, of ex_flags] by (auto simp: mset_single_iff)
qed

end
