(* ===== verification/Startup.thy ===== *)
theory Startup
  imports Command Agent
begin

text \<open>
  The start of the two processes: \<open>RunAgent\<close>, \<open>NewAgentCommand\<close> and the initialisation of
  pkg/agent/manager.go, \<open>StartServing\<close> of pkg/observability/observability.go, and \<open>main\<close>,
  \<open>newCommand\<close>, \<open>newControllerCommand\<close> and \<open>runController\<close> of cmd/ocm-status-addon/main.go.

  The code calls constructors of controller-runtime, client-go, cobra and the addon framework: those
  are parameters, functions of their arguments that give an error or a value. What the theory is about
  is which calls are made, with which arguments and in which order, and how each failure ends the
  process.
\<close>

section \<open>Processes\<close>

text \<open>How a function of the start ends: it returns, it calls \<^verbatim>\<open>os.Exit\<close> or \<^verbatim>\<open>klog.Fatal\<close>, or it panics.\<close>

datatype 'a process = Returned 'a | Exit int | Fatal go_error | Crash string

primrec bindP :: "'a process \<Rightarrow> ('a \<Rightarrow> 'b process) \<Rightarrow> 'b process" where
  "bindP (Returned x) f = f x"
| "bindP (Exit n) f = Exit n"
| "bindP (Fatal e) f = Fatal e"
| "bindP (Crash p) f = Crash p"

definition of_outcome :: "'a outcome \<Rightarrow> 'a process" where
  "of_outcome r = (case r of Ret x \<Rightarrow> Returned x | Panic p \<Rightarrow> Crash p)"

text \<open>\<^verbatim>\<open>if err != nil { setupLog.Error(...); os.Exit(1) }\<close>, and the same with a value.\<close>

definition or_exit :: "go_error option \<Rightarrow> unit process" where
  "or_exit e = (case e of None \<Rightarrow> Returned () | Some err \<Rightarrow> Exit 1)"

definition value_or_exit :: "go_error + 'a \<Rightarrow> 'a process" where
  "value_or_exit r = (case r of Inl err \<Rightarrow> Exit 1 | Inr x \<Rightarrow> Returned x)"

section \<open>The agent process\<close>

definition workers :: nat where "workers = 4"

record ManagerOptions =
  mo_MetricsBindAddress :: string
  mo_PprofBindAddress :: string
  mo_HealthProbeBindAddress :: string
  mo_LeaderElection :: bool
  mo_LeaderElectionID :: string

text \<open>
  What \<open>RunAgent\<close> calls. A constructor of a client is seen through its error only, as in \<open>NewAgent\<close>;
  \<open>mgr_Start\<close> returns when the process is told to stop. \<open>lib_synced\<close> tells how waiting for a cache ends, \<open>lib_timely\<close> whether
  an error of \<open>run\<close> comes within the time that \<open>Start\<close> waits for it.
\<close>

record ('l, 'r, 'g) agent_lib =
  GetConfigOrDie :: "('l, 'r) Config process"
  NewManager :: "('l, 'r) Config \<Rightarrow> ManagerOptions \<Rightarrow> go_error + 'g"
  AddHealthzCheck :: "'g \<Rightarrow> string \<Rightarrow> go_error option"
  AddReadyzCheck :: "'g \<Rightarrow> string \<Rightarrow> go_error option"
  BuildConfigFromFlags :: "string \<Rightarrow> string \<Rightarrow> go_error + ('l, 'r) Config"
  dynamic_NewForConfig :: "('l, 'r) Config \<Rightarrow> go_error option"
  lib_HTTPClientFor :: "('l, 'r) Config \<Rightarrow> go_error option"
  lib_NewDynamicRESTMapper :: "('l, 'r) Config \<Rightarrow> go_error option"
  clientgo_AddToScheme :: "go_error option"
  workv1_AddToScheme :: "go_error option"
  v1alpha1_AddToScheme :: "go_error option"
  lib_client_New :: "('l, 'r) Config \<Rightarrow> go_error option"
  kubernetes_NewForConfig :: "('l, 'r) Config \<Rightarrow> go_error option"
  mgr_Start :: "'g \<Rightarrow> go_error option"
  lib_synced :: "informer \<Rightarrow> cache_sync"
  lib_timely :: bool
  lib_RateLimiter :: "rat \<Rightarrow> int \<Rightarrow> 'l"
  lib_float32 :: "rat \<Rightarrow> rat"

text \<open>The package's \<^verbatim>\<open>init\<close>.\<close>

definition agent_init :: "('l, 'r, 'g) agent_lib \<Rightarrow> unit outcome" where
  "agent_init L = bindO (utilruntime_Must (clientgo_AddToScheme L)) (\<lambda>_. utilruntime_Must (v1alpha1_AddToScheme L))"

definition manager_options :: "AgentOptions \<Rightarrow> ManagerOptions" where
  "manager_options o' =
     \<lparr>mo_MetricsBindAddress = MetricsBindAddr (ag_Observability o'), mo_PprofBindAddress = PprofBindAddr (ag_Observability o'),
      mo_HealthProbeBindAddress = ProbeAddr o', mo_LeaderElection = EnableLeaderElection o',
      mo_LeaderElectionID = ''c6f71c85.kflex.kubestellar.org''\<rparr>"

definition lib_limit :: "('l, 'r, 'g) agent_lib \<Rightarrow> ClientLimits \<Rightarrow> ('l, 'r) Config \<Rightarrow> ('l, 'r) Config" where
  "lib_limit L opts base = LimitConfig (lib_RateLimiter L) (lib_float32 L) opts base"

definition lib_NewAgent :: "('l, 'r, 'g) agent_lib \<Rightarrow> ('w, 'm, 'd) env \<Rightarrow> ('l, 'r) Config \<Rightarrow> ('l, 'r) Config \<Rightarrow> string \<Rightarrow> string \<Rightarrow>
    'w \<Rightarrow> ((go_error + ('m, 'w) sys) \<times> 'w) outcome" where
  "lib_NewAgent L E managedConfig hubConfig cluster agent w =
     NewAgent E (dynamic_NewForConfig L managedConfig)
       (NewClient (lib_HTTPClientFor L hubConfig) (lib_NewDynamicRESTMapper L hubConfig) (clientgo_AddToScheme L)
          (workv1_AddToScheme L) (v1alpha1_AddToScheme L) (lib_client_New L hubConfig))
       (kubernetes_NewForConfig L managedConfig) cluster agent w"

text \<open>The result is the returned error, together with the agent as \<open>Start\<close> left it.\<close>

definition RunAgent :: "('l, 'r, 'g) agent_lib \<Rightarrow> ('w, 'm, 'd) env \<Rightarrow> AgentOptions \<Rightarrow> 'w \<Rightarrow> (go_error option \<times> ('m, 'w) sys) process" where
  "RunAgent L E o' w =
     bindP (GetConfigOrDie L) (\<lambda>managedConfig.
     let managedConfig = lib_limit L (LocalLimits (ag_User o')) managedConfig in
     bindP (value_or_exit (NewManager L managedConfig (manager_options o'))) (\<lambda>mgr.
     bindP (or_exit (AddHealthzCheck L mgr ''healthz'')) (\<lambda>_.
     bindP (or_exit (AddReadyzCheck L mgr ''readyz'')) (\<lambda>_.
     bindP (value_or_exit (BuildConfigFromFlags L '''' (HubKubeconfigFile o'))) (\<lambda>hubConfig.
     let hubConfig = lib_limit L (HubLimits (ag_User o')) hubConfig in
     bindP (of_outcome (lib_NewAgent L E managedConfig hubConfig (SpokeClusterName o') (ag_AddonName o') w)) (\<lambda>(r, w).
     bindP (value_or_exit r) (\<lambda>agent.
     case Start E (lib_synced L) (lib_timely L) workers agent of
       (err, agent) \<Rightarrow>
         bindP (or_exit err) (\<lambda>_.
         bindP (or_exit (mgr_Start L mgr)) (\<lambda>_.
         Returned (None, agent))))))))))"

text \<open>
  A flag set of pflag: adding a flag whose name it has panics. \<open>show_value\<close> is \<^verbatim>\<open>Value.String()\<close> of a
  defined value, and \<^verbatim>\<open>VisitAll\<close> visits the flags in the order of their names.
\<close>

definition AddFlag :: "Flag \<Rightarrow> Flag list \<Rightarrow> Flag list outcome" where
  "AddFlag f flags = (if fl_Name f \<in> set (map fl_Name flags) then Panic (''flag redefined: '' @ fl_Name f) else Ret (flags @ [f]))"

definition flag_of :: "(flag_value \<Rightarrow> string) \<Rightarrow> flag_def \<Rightarrow> Flag" where
  "flag_of show_value fd = \<lparr>fl_Name = fd_name fd, fl_Usage = fd_usage fd, fl_Shorthand = '''', fl_Changed = False, fl_text = show_value (fd_value fd)\<rparr>"

fun add_all :: "Flag list \<Rightarrow> Flag list \<Rightarrow> Flag list outcome" where
  "add_all [] flags = Ret flags"
| "add_all (f # fs) flags = bindO (AddFlag f flags) (add_all fs)"

text \<open>A command of cobra: its names and persistent flags, and what it runs.\<close>

record 'run command =
  cmd_Use :: string
  cmd_Short :: string
  cmd_Flags :: "Flag list"
  cmd_Run :: 'run

text \<open>
  \<open>NewAgentCommand\<close>: \<open>NewCommand\<close> is the addon framework's, from a component name and the function to run.
  The flags are bound to the options that \<open>RunAgent\<close> is a method of, so it runs with the options as the
  parsed flags leave them.
\<close>

definition NewAgentCommand :: "(string \<Rightarrow> (AgentOptions \<Rightarrow> 'b) \<Rightarrow> (AgentOptions \<Rightarrow> 'b) command) \<Rightarrow> (flag_value \<Rightarrow> string) \<Rightarrow> rat \<Rightarrow> int \<Rightarrow>
    (AgentOptions \<Rightarrow> 'b) \<Rightarrow> string \<Rightarrow> (AgentOptions \<Rightarrow> 'b) command outcome" where
  "NewAgentCommand NewCommand show_value DefaultQPS DefaultBurst runAgent addonName =
     (let o' = NewAgentOptions DefaultQPS DefaultBurst addonName;
          cmd = (NewCommand ''status-addon-agent'' runAgent)\<lparr>cmd_Use := ''agent'', cmd_Short := ''Start the addon agent''\<rparr>
      in bindO (add_all (map (flag_of show_value) (AddFlags o')) (cmd_Flags cmd)) (\<lambda>flags.
         Ret (cmd\<lparr>cmd_Flags := flags\<rparr>)))"

section \<open>Serving metrics and profiles\<close>

record http_Server =
  srv_Addr :: string
  srv_Handler :: string

text \<open>The two goroutines of \<open>StartServing\<close>, as the servers they run, and the body of each: it panics on an error.\<close>

definition StartServing :: "ObservabilityOptions \<Rightarrow> http_Server list" where
  "StartServing opts =
     [\<lparr>srv_Addr = MetricsBindAddr opts, srv_Handler = ''legacyregistry''\<rparr>,
      \<lparr>srv_Addr = PprofBindAddr opts, srv_Handler = ''transport-controller''\<rparr>]"

definition serve :: "(http_Server \<Rightarrow> go_error option) \<Rightarrow> http_Server \<Rightarrow> unit outcome" where
  "serve ListenAndServe server =
     (case ListenAndServe server of None \<Rightarrow> Ret () | Some err \<Rightarrow> Panic (Error_msg err))"

section \<open>The controller process\<close>

text \<open>What \<open>runController\<close> hands to the framework's factory, field by field of the chain of \<open>With\<close> calls.\<close>

record ('c, 'a, 'p, 'v, 'n) addon_spec =
  spec_Name :: string
  spec_Dir :: string
  spec_ConfigGVRs :: "GroupVersionResource list"
  spec_GetValues :: "(string \<Rightarrow> ManagedClusterAddOn \<Rightarrow> go_error + 'v) list"
  spec_Registration :: "('c, 'a, 'p) RegistrationOption"
  spec_RegistrationNamespace :: 'n
  spec_InstallNamespace :: "ManagedClusterAddOn \<Rightarrow> go_error + string"
  spec_Prober :: WorkHealthProber

type_synonym 'w permission_config = "string \<Rightarrow> string \<Rightarrow> 'w \<Rightarrow> (go_error option \<times> 'w) outcome"

text \<open>
  The functions it calls: \<open>'k\<close> is the configuration, \<open>'b\<close> the addon client, \<open>'m\<close> the manager, \<open>'x\<close> an
  addon. \<open>DeploymentConfigValues\<close> is the third source of values and \<open>NamespaceFromConfig\<close> the function set as
  \<open>AgentInstallNamespace\<close>; both come from the framework and use the addon client.
\<close>

record ('k, 'b, 'm, 'x, 'c, 'a, 'w, 'v, 'n) controller_lib =
  addon_NewForConfig :: "'k \<Rightarrow> go_error + 'b"
  addonmanager_New :: "'k \<Rightarrow> go_error + 'm"
  SignerConfigurations :: "string \<Rightarrow> string \<Rightarrow> 'c"
  CSRApprover :: "string \<Rightarrow> 'a"
  lib_IsNotFound :: "go_error \<Rightarrow> bool"
  lib_DefaultGroups :: "string \<Rightarrow> string \<Rightarrow> string list"
  rbac_NewForConfig :: "'k \<Rightarrow> go_error + 'w rbac_client"
  lib_Getenv :: "string \<Rightarrow> string"
  lib_StructToValues :: "manifestConfig \<Rightarrow> 'v"
  lib_Values :: "(string \<times> string list) list \<Rightarrow> 'v"
  AddOnDeploymentConfigGVR :: GroupVersionResource
  DeploymentConfigValues :: "'b \<Rightarrow> string \<Rightarrow> ManagedClusterAddOn \<Rightarrow> go_error + 'v"
  NamespaceFromConfig :: "'b \<Rightarrow> 'n"
  rand_String :: "nat \<Rightarrow> string"
  BuildTemplateAgentAddon :: "('c, 'a, 'w permission_config, 'v, 'n) addon_spec \<Rightarrow> go_error + 'x"
  AddAgent :: "'m \<Rightarrow> 'x \<Rightarrow> go_error option"
  addonmanager_Start :: "'m \<Rightarrow> go_error option"
  lib_range :: range_fun

record agentController =
  ac_Observability :: ObservabilityOptions
  NameToWrapped :: "(string, Flag) fmap"

definition controller_addon :: "('k, 'b, 'm, 'x, 'c, 'a, 'w, 'v, 'n) controller_lib \<Rightarrow> agentController \<Rightarrow> 'k \<Rightarrow> 'b \<Rightarrow>
    ('c, 'a, 'w permission_config, 'v, 'n) addon_spec" where
  "controller_addon L ac kubeConfig addonClient =
     \<lparr>spec_Name = AddonName, spec_Dir = ''manifests/templates'', spec_ConfigGVRs = [AddOnDeploymentConfigGVR L],
      spec_GetValues =
        [GetDefaultValues (lib_Getenv L) (lib_StructToValues L),
         \<lambda>cluster addon. Inr (lib_Values L (getPropagatedSettings (lib_range L) (NameToWrapped ac))),
         DeploymentConfigValues L addonClient],
      spec_Registration = NewRegistrationOption (SignerConfigurations L) (CSRApprover L) (lib_IsNotFound L)
        (lib_DefaultGroups L) (rbac_NewForConfig L kubeConfig) AddonName (rand_String L 5),
      spec_RegistrationNamespace = NamespaceFromConfig L addonClient,
      spec_InstallNamespace = (\<lambda>addon. Inr InstallationNamespace),
      spec_Prober = AgentHealthProber\<rparr>"

text \<open>\<open>runController\<close>: the servers it started, and how it ends; it waits for its context before it returns nil.\<close>

definition runController :: "('k, 'b, 'm, 'x, 'c, 'a, 'w, 'v, 'n) controller_lib \<Rightarrow> agentController \<Rightarrow> 'k \<Rightarrow>
    http_Server list \<times> go_error option process" where
  "runController L ac kubeConfig =
     (StartServing (ac_Observability ac),
      case addon_NewForConfig L kubeConfig of
        Inl err \<Rightarrow> Returned (Some err)
      | Inr addonClient \<Rightarrow>
          (case addonmanager_New L kubeConfig of
             Inl err \<Rightarrow> Returned (Some err)
           | Inr mgr \<Rightarrow>
               (case BuildTemplateAgentAddon L (controller_addon L ac kubeConfig addonClient) of
                  Inl err \<Rightarrow> Returned (Some err)
                | Inr agentAddon \<Rightarrow>
                    (case AddAgent L mgr agentAddon of
                       Some err \<Rightarrow> Fatal err
                     | None \<Rightarrow>
                         (case addonmanager_Start L mgr of
                            Some err \<Rightarrow> Fatal err
                          | None \<Rightarrow> Returned None)))))"

text \<open>The body of \<^verbatim>\<open>VisitAll\<close> and the loop over the two flag sets, on the command's flags and \<open>NameToWrapped\<close>.\<close>

fun wrap_all :: "string \<Rightarrow> Flag list \<Rightarrow> Flag list \<times> (string, Flag) fmap \<Rightarrow> (Flag list \<times> (string, Flag) fmap) outcome" where
  "wrap_all connector [] acc = Ret acc"
| "wrap_all connector (f # fs) acc =
     bindO (AddFlag (wrap_flag connector f) (fst acc)) (\<lambda>flags.
       wrap_all connector fs (flags, fmupd (fl_Name f) (wrap_flag connector f) (snd acc)))"

fun wrap_flag_sets :: "(string \<Rightarrow> Flag list) \<Rightarrow> string list \<Rightarrow> Flag list \<times> (string, Flag) fmap \<Rightarrow>
    (Flag list \<times> (string, Flag) fmap) outcome" where
  "wrap_flag_sets flagSets [] acc = Ret acc"
| "wrap_flag_sets flagSets (connector # cs) acc =
     bindO (wrap_all connector (sort_key fl_Name (flagSets connector)) acc) (wrap_flag_sets flagSets cs)"

text \<open>
  \<open>newControllerCommand\<close>: \<open>logFlags\<close> are those that \<^verbatim>\<open>logs.AddFlags\<close> adds. The result is the command and the
  controller that \<open>runController\<close> is a method of, which it reads when the command runs.
\<close>

definition newControllerCommand :: "(string \<Rightarrow> (agentController \<Rightarrow> 'b) \<Rightarrow> (agentController \<Rightarrow> 'b) command) \<Rightarrow> range_fun \<Rightarrow>
    (flag_value \<Rightarrow> string) \<Rightarrow> rat \<Rightarrow> int \<Rightarrow> Flag list \<Rightarrow> (agentController \<Rightarrow> 'b) \<Rightarrow>
    ((agentController \<Rightarrow> 'b) command \<times> agentController) outcome" where
  "newControllerCommand NewCommand ord show_value DefaultQPS DefaultBurst logFlags run_controller =
     (let obs = \<lparr>MetricsBindAddr = '':9280'', PprofBindAddr = '':9282''\<rparr> in
      bindO (add_all (map (flag_of show_value) (Observability_AddToFlagSet NewObservabilityOptions)) []) (\<lambda>onAgent.
      bindO (add_all logFlags onAgent) (\<lambda>onAgent.
      bindO (add_all (map (flag_of show_value) (AgentUserOptions_AddToFlagSet (NewAgentUserOptions DefaultQPS DefaultBurst))) []) (\<lambda>fromAgent.
      let cmd = (NewCommand ''status-addon-controller'' run_controller)\<lparr>cmd_Use := ''controller'', cmd_Short := ''Start the addon controller''\<rparr> in
      bindO (add_all (map (flag_of show_value) (Observability_AddToFlagSet obs)) (cmd_Flags cmd)) (\<lambda>flags.
      bindO (wrap_flag_sets (\<lambda>c. if c = ''on'' then onAgent else fromAgent) (ord {|''on'', ''from''|}) (flags, fmempty)) (\<lambda>(flags, wrapped).
      Ret (cmd\<lparr>cmd_Flags := flags\<rparr>, \<lparr>ac_Observability = obs, NameToWrapped = wrapped\<rparr>)))))))"

section \<open>The program\<close>

text \<open>
  \<open>newCommand\<close>: the root command has no work of its own and exits with status 1 after its help, an error
  of which is only printed; before any command runs, the logging configuration is validated and
  applied. The two constructors are arguments, since their commands run different functions.
\<close>

record 'c root_command =
  root_Use :: string
  root_Short :: string
  root_Version :: string
  root_PersistentPreRunE :: "go_error option"
  root_Run :: "unit process"
  root_Commands :: "'c list"

definition newCommand :: "go_error option \<Rightarrow> string \<Rightarrow> 'c outcome \<Rightarrow> (string \<Rightarrow> 'c outcome) \<Rightarrow> 'c root_command outcome" where
  "newCommand ValidateAndApply v controllerCommand agentCommand =
     bindO controllerCommand (\<lambda>controller.
     bindO (agentCommand ''status'') (\<lambda>agent.
     Ret \<lparr>root_Use = ''addon'', root_Short = ''status addon'', root_Version = (if length v = 0 then ''<unknown>'' else v),
      root_PersistentPreRunE = ValidateAndApply, root_Run = Exit 1, root_Commands = [controller, agent]\<rparr>))"

text \<open>\<open>main\<close>: \<open>execute\<close> is what \<^verbatim>\<open>command.Execute()\<close> does; a failed registration of the features panics.\<close>

definition main :: "go_error option \<Rightarrow> 'c root_command outcome \<Rightarrow> ('c root_command \<Rightarrow> go_error option process) \<Rightarrow> unit process" where
  "main features_Add newCmd execute =
     (case features_Add of
        Some err \<Rightarrow> Crash (Error_msg err)
      | None \<Rightarrow> bindP (of_outcome newCmd) (\<lambda>command. bindP (execute command) or_exit))"

section \<open>Lemmas\<close>

lemma bindP_Returned: "bindP p f = Returned y \<longleftrightarrow> (\<exists>x. p = Returned x \<and> f x = Returned y)"
  by (cases p) auto

lemma value_or_exit_Returned [simp]: "value_or_exit r = Returned x \<longleftrightarrow> r = Inr x"
  by (cases r) (auto simp: value_or_exit_def)

lemma or_exit_Returned [simp]: "or_exit e = Returned u \<longleftrightarrow> e = None"
  by (cases e) (auto simp: or_exit_def)

lemma of_outcome_Returned [simp]: "of_outcome r = Returned x \<longleftrightarrow> r = Ret x"
  by (cases r) (auto simp: of_outcome_def)









lemma add_all_distinct:
  "distinct (map fl_Name fs) \<Longrightarrow> fl_Name ` set fs \<inter> fl_Name ` set flags = {} \<Longrightarrow> add_all fs flags = Ret (flags @ fs)"
  by (induction fs arbitrary: flags) (auto simp: AddFlag_def)

lemma add_all_fresh: "distinct (map fl_Name fs) \<Longrightarrow> add_all fs [] = Ret fs"
  using add_all_distinct [of fs "[]"] by simp

lemma wrap_flag_name [simp]: "fl_Name (wrap_flag c f) = ''agent-'' @ fl_Name f"
  by (simp add: wrap_flag_def)

lemma wrap_all_distinct:
  "distinct (map fl_Name fs) \<Longrightarrow> (\<And>f g. f \<in> set fs \<Longrightarrow> g \<in> set flags \<Longrightarrow> fl_Name g \<noteq> ''agent-'' @ fl_Name f) \<Longrightarrow>
   wrap_all c fs (flags, wrapped) =
     Ret (flags @ map (wrap_flag c) fs, fold (\<lambda>f. fmupd (fl_Name f) (wrap_flag c f)) fs wrapped)"
proof (induction fs arbitrary: flags wrapped)
  case (Cons f fs)
  have "AddFlag (wrap_flag c f) flags = Ret (flags @ [wrap_flag c f])"
  proof -
    have "\<forall>g \<in> set flags. fl_Name g \<noteq> fl_Name (wrap_flag c f)" using Cons.prems(2) [of f] by simp
    then have "fl_Name (wrap_flag c f) \<notin> set (map fl_Name flags)" unfolding set_map by (metis imageE)
    then show ?thesis by (simp only: AddFlag_def if_False)
  qed
  moreover have "fl_Name g \<noteq> ''agent-'' @ fl_Name h" if "h \<in> set fs" "g \<in> set (flags @ [wrap_flag c f])" for g h
    using that Cons.prems by (auto simp: image_iff)
  ultimately show ?case using Cons.IH [of "flags @ [wrap_flag c f]"] Cons.prems(1) by simp
qed simp

lemma fold_fmupd_lookup:
  "distinct (map k fs) \<Longrightarrow> fmlookup (fold (\<lambda>f. fmupd (k f) (v f)) fs m) n = Some g \<longleftrightarrow>
     (\<exists>f \<in> set fs. k f = n \<and> g = v f) \<or> n \<notin> k ` set fs \<and> fmlookup m n = Some g"
  by (induction fs arbitrary: m) auto

lemma range_two:
  assumes "range_orders ord" "a \<noteq> b" shows "ord {|a, b|} = [a, b] \<or> ord {|a, b|} = [b, a]"
proof -
  have d: "distinct (ord {|a, b|})" "set (ord {|a, b|}) = {a, b}" using range_orders_simps [OF assms(1)] by simp_all
  then have "length (ord {|a, b|}) = 2" using assms(2) by (metis card_2_iff distinct_card)
  then obtain x y where "ord {|a, b|} = [x, y]" by (auto simp: numeral_2_eq_2 length_Suc_conv)
  with d assms(2) show ?thesis by (auto simp: doubleton_eq_iff)
qed

lemma wrap_two_sets:
  assumes "distinct (map fl_Name (A c1))" "distinct (map fl_Name (A c2))" "fl_Name ` set (A c1) \<inter> fl_Name ` set (A c2) = {}"
    and "\<And>f. f \<in> set flags \<Longrightarrow> \<not> prefix ''agent-'' (fl_Name f)"
  obtains flags' wrapped where "wrap_flag_sets A [c1, c2] (flags, fmempty) = Ret (flags', wrapped)"
    and "\<And>n g. fmlookup wrapped n = Some g \<longleftrightarrow>
      (\<exists>f \<in> set (A c1). fl_Name f = n \<and> g = wrap_flag c1 f) \<or> (\<exists>f \<in> set (A c2). fl_Name f = n \<and> g = wrap_flag c2 f)"
proof -
  have s: "distinct (map fl_Name (sort_key fl_Name (A c)))" if "distinct (map fl_Name (A c))" for c
    using that by (metis distinct_map distinct_sort mset_sort set_sort)
  have 1: "wrap_all c1 (sort_key fl_Name (A c1)) (flags, fmempty) =
      Ret (flags @ map (wrap_flag c1) (sort_key fl_Name (A c1)), fold (\<lambda>f. fmupd (fl_Name f) (wrap_flag c1 f)) (sort_key fl_Name (A c1)) fmempty)"
    using assms(4) by (intro wrap_all_distinct s assms(1)) (auto simp: prefix_def)
  have 2: "wrap_all c2 (sort_key fl_Name (A c2)) (flags @ map (wrap_flag c1) (sort_key fl_Name (A c1)), m) =
      Ret ((flags @ map (wrap_flag c1) (sort_key fl_Name (A c1))) @ map (wrap_flag c2) (sort_key fl_Name (A c2)),
           fold (\<lambda>f. fmupd (fl_Name f) (wrap_flag c2 f)) (sort_key fl_Name (A c2)) m)" for m
    using assms(3,4) by (intro wrap_all_distinct s assms(2)) (auto simp: prefix_def)
  let ?w = "fold (\<lambda>f. fmupd (fl_Name f) (wrap_flag c2 f)) (sort_key fl_Name (A c2))
      (fold (\<lambda>f. fmupd (fl_Name f) (wrap_flag c1 f)) (sort_key fl_Name (A c1)) fmempty)"
  have "fmlookup ?w n = Some g \<longleftrightarrow>
      (\<exists>f \<in> set (A c1). fl_Name f = n \<and> g = wrap_flag c1 f) \<or> (\<exists>f \<in> set (A c2). fl_Name f = n \<and> g = wrap_flag c2 f)" for n g
    unfolding fold_fmupd_lookup [OF s [OF assms(2)]] fold_fmupd_lookup [OF s [OF assms(1)]]
    using assms(3) by (simp add: disjoint_iff image_iff) blast
  then show thesis by (rule that [rotated]) (use 1 2 in simp)
qed

lemma wrap_any_order:
  assumes "range_orders ord" "c1 \<noteq> c2"
    and "distinct (map fl_Name (A c1))" "distinct (map fl_Name (A c2))" "fl_Name ` set (A c1) \<inter> fl_Name ` set (A c2) = {}"
    and "\<And>f. f \<in> set flags \<Longrightarrow> \<not> prefix ''agent-'' (fl_Name f)"
  shows "\<exists>flags' wrapped. wrap_flag_sets A (ord {|c1, c2|}) (flags, fmempty) = Ret (flags', wrapped) \<and>
    (\<forall>n g. fmlookup wrapped n = Some g \<longleftrightarrow>
      (\<exists>f \<in> set (A c1). fl_Name f = n \<and> g = wrap_flag c1 f) \<or> (\<exists>f \<in> set (A c2). fl_Name f = n \<and> g = wrap_flag c2 f))"
  using range_two [OF assms(1,2)]
proof
  assume o: "ord {|c1, c2|} = [c1, c2]"
  show ?thesis unfolding o by (rule wrap_two_sets [of A c1 c2 flags, OF assms(3-6)]) blast+
next
  assume o: "ord {|c1, c2|} = [c2, c1]"
  have "fl_Name ` set (A c2) \<inter> fl_Name ` set (A c1) = {}" using assms(5) by blast
  then show ?thesis unfolding o by (rule wrap_two_sets [of A c2 c1 flags, OF assms(4,3) _ assms(6)]) blast+
qed

lemma add_all_Ret: "add_all fs flags = Ret x \<Longrightarrow> x = flags @ fs"
  by (induction fs arbitrary: flags) (fastforce simp: AddFlag_def bindO_eq_Ret split: if_splits)+

lemma flag_of_names: "fl_Name ` set (map (flag_of v) fds) = fd_name ` set fds"
  by (simp add: flag_of_def image_image)

lemma wrap_all_keys: "wrap_all c fs acc = Ret (flags, m) \<Longrightarrow> fset (fmdom m) = fset (fmdom (snd acc)) \<union> fl_Name ` set fs"
  by (induction fs arbitrary: acc) (auto simp: bindO_eq_Ret)

lemma wrap_flag_sets_keys:
  "wrap_flag_sets A cs acc = Ret (flags, m) \<Longrightarrow> fset (fmdom m) = fset (fmdom (snd acc)) \<union> (\<Union>c \<in> set cs. fl_Name ` set (A c))"
proof (induction cs arbitrary: acc)
  case (Cons c cs)
  then obtain f1 m1 where "wrap_all c (sort_key fl_Name (A c)) acc = Ret (f1, m1)" "wrap_flag_sets A cs (f1, m1) = Ret (flags, m)"
    by (auto simp: bindO_eq_Ret)
  with Cons.IH [of "(f1, m1)"] wrap_all_keys [of c _ acc f1 m1] show ?case by auto
qed simp

text \<open>The names of the controller's table and of the agent's command.\<close>

lemma newControllerCommand_keys:
  assumes "newControllerCommand N ord v q b logFlags r = Ret (cmd, ac)"
  shows "fset (fmdom (NameToWrapped ac)) \<subseteq>
    fl_Name ` set (map (flag_of v) (Observability_AddToFlagSet NewObservabilityOptions) @ logFlags) \<union>
    fl_Name ` set (map (flag_of v) (AgentUserOptions_AddToFlagSet (NewAgentUserOptions q b)))"
proof -
  let ?on = "map (flag_of v) (Observability_AddToFlagSet NewObservabilityOptions) @ logFlags"
  let ?from = "map (flag_of v) (AgentUserOptions_AddToFlagSet (NewAgentUserOptions q b))"
  obtain flags flags' where "wrap_flag_sets (\<lambda>c. if c = ''on'' then ?on else ?from) (ord {|''on'', ''from''|}) (flags, fmempty) =
      Ret (flags', NameToWrapped ac)"
    using assms unfolding newControllerCommand_def Let_def bindO_eq_Ret by (auto dest!: add_all_Ret simp only: append_Nil agentController.select_convs prod.inject outcome.inject case_prod_conv)
  from wrap_flag_sets_keys [OF this] show ?thesis by (auto split: if_splits)
qed

lemma AddFlags_names:
  "fd_name ` set (Observability_AddToFlagSet NewObservabilityOptions) \<subseteq> fd_name ` set (AddFlags (NewAgentOptions q b addon))"
  "fd_name ` set (AgentUserOptions_AddToFlagSet (NewAgentUserOptions q b)) \<subseteq> fd_name ` set (AddFlags (NewAgentOptions q b addon))"
  unfolding AddFlags_def NewAgentOptions_def AgentOptions.select_convs set_append image_Un by blast+

lemma NewAgentCommand_names:
  assumes "NewAgentCommand N v q b r addon = Ret cmd"
  shows "fd_name ` set (AddFlags (NewAgentOptions q b addon)) \<subseteq> fl_Name ` set (cmd_Flags cmd)"
  using assms
  by (auto simp: NewAgentCommand_def Let_def bindO_eq_Ret image_Un flag_of_names [unfolded set_map] dest!: add_all_Ret)

section \<open>Properties\<close>

text \<open>The informer of a new agent that has run its first steps, and what its failure leaves.\<close>

definition amw_informer :: informer where
  "amw_informer = Informer 0 \<lparr>gvr_Group = workv1_Group, gvr_Version = workv1_Version, gvr_Resource = AppliedManifestWorkResource\<rparr>"

lemma range_single: "range_orders ord \<Longrightarrow> ord {|k|} = [k]"
proof -
  assume "range_orders ord"
  then have "distinct (ord {|k|})" "set (ord {|k|}) = {k}" by (simp_all add: range_orders_def)
  then show "ord {|k|} = [k]" by (metis distinct_length_2_or_more empty_set insert_not_empty list.set_intros(1,2) neq_Nil_conv singletonD)
qed

lemma open_stopper_new:
  fixes cluster agent :: string and m :: 'm and w :: 'w
  assumes "range_orders ord"
  defines "a \<equiv> new_agent cluster agent m w"
  defines "stopped \<equiv> (open_stopper a)\<lparr>closed_chans := next_chan a # closed_chans (open_stopper a)\<rparr>"
  shows "SafeMap_ListValues ord (informers (open_stopper a)) = [amw_informer]"
    and "live (open_stopper a) amw_key \<noteq> []"
    and "live (wq_log calls stopped) amw_key = []"
    and "workqueue (wq_log calls stopped) = calls"
proof -
  have i: "informers (open_stopper a) = SafeMap_Set amw_key amw_informer NewSafeMap"
    "running (open_stopper a) = [(amw_key, amw_informer, 0)]" "closed_chans (open_stopper a) = []" "next_chan a = 0"
    "workqueue a = []"
    by (simp_all add: open_stopper_def startAppliedManifestWorkInformer_def a_def new_agent_def amw_informer_def amw_key_eq amw_gvk_def Let_def)
  show "SafeMap_ListValues ord (informers (open_stopper a)) = [amw_informer]"
    using range_single [OF assms(1)] by (simp add: i SafeMap_ListValues_def SafeMap_Set_def NewSafeMap_def List.map_filter_def)
  show "live (open_stopper a) amw_key \<noteq> []" "live (wq_log calls stopped) amw_key = []" "workqueue (wq_log calls stopped) = calls"
    by (simp_all add: i live_def stopped_def wq_log_def)
qed

text \<open>
  Property C21: what it means that \<open>RunAgent\<close> returns. It returns nil, never an error, and it has started an agent that \<open>NewAgent\<close> made, for the cluster and with
  the name given by the flags. The manager and the clients of the managed cluster were made with the local limits,
  the client of the hub with the hub's limits and the given kubeconfig. What this agent does depends on the cache of its one
  informer at that time, that of the applied manifest works: if it syncs, the agent is in the state of a successful start, the one the other theorems are
  about, with its 4 workers; if it never does, \<open>Start\<close> returned nil after its three seconds all the same, with the informer started and no worker;
  and if the wait for it fails, then later than these three seconds, the informer is stopped, the work queue shut down, and there is no worker either.
\<close>

theorem RunAgent_serves:
  assumes "RunAgent L E o' w = Returned (r, s0)" "range_orders (go_range E)"
  shows "r = None \<and>
    (\<exists>managed hubConfig mgr a w'.
       GetConfigOrDie L = Returned managed \<and> BuildConfigFromFlags L '''' (HubKubeconfigFile o') = Inr hubConfig \<and>
       NewManager L (lib_limit L (LocalLimits (ag_User o')) managed) (manager_options o') = Inr mgr \<and>
       dynamic_NewForConfig L (lib_limit L (LocalLimits (ag_User o')) managed) = None \<and>
       kubernetes_NewForConfig L (lib_limit L (LocalLimits (ag_User o')) managed) = None \<and>
       lib_client_New L (lib_limit L (HubLimits (ag_User o')) hubConfig) = None \<and>
       lib_NewAgent L E (lib_limit L (LocalLimits (ag_User o')) managed) (lib_limit L (HubLimits (ag_User o')) hubConfig)
         (SpokeClusterName o') (ag_AddonName o') w = Ret (Inr a, w') \<and>
       clusterName a = SpokeClusterName o' \<and> agentName a = ag_AddonName o' \<and>
       (case lib_synced L amw_informer of
          Synced \<Rightarrow> run E (lib_synced L) workers a = (RunServing 4, s0) \<and> started E s0 \<and> live s0 amw_key \<noteq> []
        | Blocked \<Rightarrow> run E (lib_synced L) workers a = (RunBlocked, s0) \<and> live s0 amw_key \<noteq> []
        | NotSynced \<Rightarrow> \<not> lib_timely L \<and> (\<exists>err. run E (lib_synced L) workers a = (RunFailed err, s0)) \<and>
            workqueue s0 = [WQ_ShutDown] \<and> live s0 amw_key = []))"
proof -
  obtain managed mgr hubConfig w' a e where
    g: "GetConfigOrDie L = Returned managed" "BuildConfigFromFlags L '''' (HubKubeconfigFile o') = Inr hubConfig"
      "NewManager L (lib_limit L (LocalLimits (ag_User o')) managed) (manager_options o') = Inr mgr"
    and n: "lib_NewAgent L E (lib_limit L (LocalLimits (ag_User o')) managed) (lib_limit L (HubLimits (ag_User o')) hubConfig)
        (SpokeClusterName o') (ag_AddonName o') w = Ret (Inr a, w')"
    and st: "Start E (lib_synced L) (lib_timely L) workers a = (None, s0)" and r: "r = None"
    using assms(1) by (auto simp: RunAgent_def Let_def bindP_Returned case_prod_beta prod_eq_iff)
  obtain m where m: "a = new_agent (SpokeClusterName o') (ag_AddonName o') m w'"
    using NewAgent_state [OF n [unfolded lib_NewAgent_def]] by blast
  note one = open_stopper_new [OF assms(2), where cluster = "SpokeClusterName o'" and agent = "ag_AddonName o'" and m = m and w = w', folded m]
  have run: "case lib_synced L amw_informer of
          Synced \<Rightarrow> run E (lib_synced L) workers a = (RunServing 4, s0) \<and> started E s0 \<and> live s0 amw_key \<noteq> []
        | Blocked \<Rightarrow> run E (lib_synced L) workers a = (RunBlocked, s0) \<and> live s0 amw_key \<noteq> []
        | NotSynced \<Rightarrow> \<not> lib_timely L \<and> (\<exists>err. run E (lib_synced L) workers a = (RunFailed err, s0)) \<and>
            workqueue s0 = [WQ_ShutDown] \<and> live s0 amw_key = []"
  proof (cases "lib_synced L amw_informer")
    case Synced
    then have "run E (lib_synced L) workers a = (RunServing 4, s0)" "s0 = open_stopper a"
      using st one(1) by (auto simp: Start_def run_def Let_def workers_def)
    moreover from this have "started E s0" unfolding started_def workers_def using n unfolding lib_NewAgent_def workers_def by blast
    ultimately show ?thesis using Synced one(2) by simp
  next
    case Blocked
    then show ?thesis using st one by (auto simp: Start_def run_def Let_def)
  next
    case NotSynced
    then show ?thesis using st one by (auto simp: Start_def run_def Let_def split: if_splits)
  qed
  have "clusterName a = SpokeClusterName o'" "agentName a = ag_AddonName o'" by (simp_all add: m new_agent_def)
  moreover have "dynamic_NewForConfig L (lib_limit L (LocalLimits (ag_User o')) managed) = None"
    "kubernetes_NewForConfig L (lib_limit L (LocalLimits (ag_User o')) managed) = None"
    "lib_client_New L (lib_limit L (HubLimits (ag_User o')) hubConfig) = None"
    using n by (auto simp: lib_NewAgent_def NewAgent_def NewClient_def bindO_eq_Ret split: option.splits)
  ultimately show ?thesis using g n r run by blast
qed


text \<open>A library whose calls all succeed, but for the registration of one scheme where it is told so.\<close>

definition ex_agent_lib :: "go_error option \<Rightarrow> (rat \<times> int, string, unit) agent_lib" where
  "ex_agent_lib work =
     \<lparr>GetConfigOrDie = Returned \<lparr>RateLimiter = (0, 0), cfg_rest = ''managed''\<rparr>, NewManager = (\<lambda>c o'. Inr ()),
      AddHealthzCheck = (\<lambda>m n. None), AddReadyzCheck = (\<lambda>m n. None),
      BuildConfigFromFlags = (\<lambda>u f. Inr \<lparr>RateLimiter = (0, 0), cfg_rest = f\<rparr>), dynamic_NewForConfig = (\<lambda>c. None),
      lib_HTTPClientFor = (\<lambda>c. None), lib_NewDynamicRESTMapper = (\<lambda>c. None), clientgo_AddToScheme = None,
      workv1_AddToScheme = work, v1alpha1_AddToScheme = None,
      lib_client_New = (\<lambda>c. if c = \<lparr>RateLimiter = (5, 10), cfg_rest = ''hub''\<rparr> then None else Some (Errorf ''limits'')),
      kubernetes_NewForConfig = (\<lambda>c. None), mgr_Start = (\<lambda>m. None), lib_synced = (\<lambda>i. Synced), lib_timely = True,
      lib_RateLimiter = (\<lambda>q b. (q, b)), lib_float32 = (\<lambda>q. q)\<rparr>"

definition ex_options :: AgentOptions where
  "ex_options = (NewAgentOptions 5 10 ''status'')\<lparr>HubKubeconfigFile := ''hub'', SpokeClusterName := ''cluster1''\<rparr>"

lemma ex_RunAgent:
  "RunAgent (ex_agent_lib None) cl_env ex_options ex_world = Returned (None, ex_started)"
  "RunAgent ((ex_agent_lib None)\<lparr>lib_synced := \<lambda>i. Blocked\<rparr>) cl_env ex_options ex_world = Returned (None, ex_started)"
proof -
  have blocked: "await_caches (\<lambda>i. Blocked) (SafeMap_ListValues sorted_order (informers (open_stopper (new_agent c a () ex_world)))) = Blocked" for c a
    using open_stopper_new(1) [OF sorted_order_range, where cluster = c and agent = a and m = "()" and w = ex_world] by simp
  note defs = RunAgent_def ex_agent_lib_def ex_options_def NewAgentOptions_def NewAgentUserOptions_def NewClientLimits_def
      lib_limit_def LimitConfig_def lib_NewAgent_def NewAgent_def NewClient_def getRestMapper_def value_or_exit_def or_exit_def
      of_outcome_def Start_def run_def ex_started_def Let_def
  show "RunAgent (ex_agent_lib None) cl_env ex_options ex_world = Returned (None, ex_started)"
    by (simp add: defs await_all_synced)
  show "RunAgent ((ex_agent_lib None)\<lparr>lib_synced := \<lambda>i. Blocked\<rparr>) cl_env ex_options ex_world = Returned (None, ex_started)"
    by (simp add: defs blocked)
qed

theorem RunAgent_serves_witness:
  "(\<exists>a. run cl_env (lib_synced (ex_agent_lib None)) workers a = (RunServing 4, ex_started) \<and> clusterName a = ''cluster1'') \<and>
   (\<exists>a. run cl_env (\<lambda>i. Blocked) workers a = (RunBlocked, ex_started) \<and> clusterName a = ''cluster1'')"
proof -
  have s: "lib_synced (ex_agent_lib None) i = Synced" "SpokeClusterName ex_options = ''cluster1''" for i
    by (simp_all add: ex_agent_lib_def ex_options_def)
  show ?thesis
    using RunAgent_serves [OF ex_RunAgent(1) cl_env_laws(8)] RunAgent_serves [OF ex_RunAgent(2) cl_env_laws(8)] s by auto
qed


definition obs_flag_names :: "string list" where
  "obs_flag_names = [''metrics-bind-addr'', ''pprof-bind-addr'']"

definition user_flag_names :: "string list" where
  "user_flag_names = [''local-qps'', ''local-burst'', ''hub-qps'', ''hub-burst'']"

lemma obs_names: "map fl_Name (map (flag_of v) (Observability_AddToFlagSet x)) = obs_flag_names"
  by (simp add: Observability_AddToFlagSet_def StringVar_def flag_of_def obs_flag_names_def)

lemma user_names: "map fl_Name (map (flag_of v) (AgentUserOptions_AddToFlagSet (NewAgentUserOptions q b))) = user_flag_names"
  by (simp add: AgentUserOptions_AddToFlagSet_def NewAgentUserOptions_def NewClientLimits_def
      ClientLimits_AddToFlagSet_def Float64Var_def IntVar_def flag_of_def user_flag_names_def)

lemma flag_names_apart:
  "distinct obs_flag_names" "distinct user_flag_names" "set obs_flag_names \<inter> set user_flag_names = {}"
  "n \<in> set obs_flag_names \<Longrightarrow> \<not> prefix ''agent-'' n"
  by (auto simp: obs_flag_names_def user_flag_names_def)

text \<open>
  Property C24: the controller's command comes to the same, whatever order the run time ranges over its two
  flag sets in: no flag is redefined, which would panic, and \<open>NameToWrapped\<close> has exactly the agent's flags
  under their own names, with the wrapped copies of the command line. It needs that the names of the
  logging flags, and of those of the framework's command, are not among those the addon defines.
\<close>

theorem newControllerCommand_wraps:
  fixes show_value q b logFlags
  defines "onFlags \<equiv> map (flag_of show_value) (Observability_AddToFlagSet NewObservabilityOptions) @ logFlags"
    and "fromFlags \<equiv> map (flag_of show_value) (AgentUserOptions_AddToFlagSet (NewAgentUserOptions q b))"
  assumes "range_orders ord" "distinct (map fl_Name logFlags)"
    and logs: "fl_Name ` set logFlags \<inter> (set obs_flag_names \<union> set user_flag_names) = {}"
    and base: "\<forall>f \<in> set (cmd_Flags (NewCommand ''status-addon-controller'' run_controller)). fl_Name f \<notin> set obs_flag_names \<and> \<not> prefix ''agent-'' (fl_Name f)"
  shows "\<exists>cmd ac. newControllerCommand NewCommand ord show_value q b logFlags run_controller = Ret (cmd, ac) \<and>
    (\<forall>name f. fmlookup (NameToWrapped ac) name = Some f \<longleftrightarrow>
       (\<exists>g \<in> set onFlags. fl_Name g = name \<and> f = wrap_flag ''on'' g) \<or> (\<exists>g \<in> set fromFlags. fl_Name g = name \<and> f = wrap_flag ''from'' g))"
proof -
  let ?cmd = "NewCommand ''status-addon-controller'' run_controller"
  let ?agent_obs = "map (flag_of show_value) (Observability_AddToFlagSet NewObservabilityOptions)"
  let ?obs_flags = "map (flag_of show_value) (Observability_AddToFlagSet \<lparr>MetricsBindAddr = '':9280'', PprofBindAddr = '':9282''\<rparr>)"
  let ?A = "\<lambda>c. if c = ''on'' then onFlags else fromFlags"
  have obs: "distinct (map fl_Name (map (flag_of show_value) (Observability_AddToFlagSet x)))"
    "fl_Name ` set (map (flag_of show_value) (Observability_AddToFlagSet x)) = set obs_flag_names" for x
    using obs_names [of show_value x] flag_names_apart(1) by (simp_all only: set_map [symmetric])
  have user: "distinct (map fl_Name fromFlags)" "fl_Name ` set fromFlags = set user_flag_names"
    using user_names [of show_value q b] flag_names_apart(2) unfolding fromFlags_def by (simp_all only: set_map [symmetric])
  have d: "fl_Name ` set logFlags \<inter> fl_Name ` set ?agent_obs = {}" "fl_Name ` set ?obs_flags \<inter> fl_Name ` set (cmd_Flags ?cmd) = {}"
    unfolding obs(2) using logs base by blast+
  have steps: "add_all ?agent_obs [] = Ret ?agent_obs" "add_all logFlags ?agent_obs = Ret onFlags"
    "add_all fromFlags [] = Ret fromFlags" "add_all ?obs_flags (cmd_Flags ?cmd) = Ret (cmd_Flags ?cmd @ ?obs_flags)"
    unfolding onFlags_def
    by (rule add_all_fresh [OF obs(1)], rule add_all_distinct [OF assms(4) d(1)], rule add_all_fresh [OF user(1)],
      rule add_all_distinct [OF obs(1) d(2)])
  have names: "fl_Name ` set onFlags = set obs_flag_names \<union> fl_Name ` set logFlags"
    unfolding onFlags_def set_append image_Un obs(2) ..
  have on: "distinct (map fl_Name onFlags)"
    unfolding onFlags_def map_append distinct_append obs_names set_map using flag_names_apart(1) assms(4) logs by blast
  have apart: "fl_Name ` set onFlags \<inter> fl_Name ` set fromFlags = {}"
    unfolding names user(2) using logs flag_names_apart(3) by blast
  have "\<not> prefix ''agent-'' (fl_Name f)" if "f \<in> set ?obs_flags" for f
    by (rule flag_names_apart(4)) (use that obs(2) in blast)
  then have pre: "\<not> prefix ''agent-'' (fl_Name f)" if "f \<in> set (cmd_Flags ?cmd @ ?obs_flags)" for f
    using that base unfolding set_append by blast
  have ne: "''on'' \<noteq> ''from''" by simp
  have A: "?A ''on'' = onFlags" "?A ''from'' = fromFlags" by simp_all
  obtain flags' wrapped where w: "wrap_flag_sets ?A (ord {|''on'', ''from''|}) (cmd_Flags ?cmd @ ?obs_flags, fmempty) = Ret (flags', wrapped)"
    "\<And>n g. fmlookup wrapped n = Some g \<longleftrightarrow> (\<exists>f \<in> set onFlags. fl_Name f = n \<and> g = wrap_flag ''on'' f) \<or>
       (\<exists>f \<in> set fromFlags. fl_Name f = n \<and> g = wrap_flag ''from'' f)"
    using wrap_any_order [OF assms(3) ne, of ?A "cmd_Flags ?cmd @ ?obs_flags", unfolded A, OF on user(1) apart pre] by blast
  let ?ac = "\<lparr>ac_Observability = \<lparr>MetricsBindAddr = '':9280'', PprofBindAddr = '':9282''\<rparr>, NameToWrapped = wrapped\<rparr>"
  let ?c = "?cmd\<lparr>cmd_Use := ''controller'', cmd_Short := ''Start the addon controller''\<rparr>"
  have fl: "cmd_Flags ?c = cmd_Flags ?cmd" by simp
  have "newControllerCommand NewCommand ord show_value q b logFlags run_controller = Ret (?c\<lparr>cmd_Flags := flags'\<rparr>, ?ac)"
    unfolding newControllerCommand_def Let_def fromFlags_def [symmetric] steps(1-3) bindO.simps fl steps(4) w(1) case_prod_conv ..
  then show ?thesis by (intro exI conjI allI) (assumption, simp only: agentController.select_convs w(2))
qed

text \<open>One logging flag, and the framework's flag for the kubeconfig.\<close>

definition ex_flag :: "string \<Rightarrow> Flag" where
  "ex_flag n = \<lparr>fl_Name = n, fl_Usage = '''', fl_Shorthand = '''', fl_Changed = False, fl_text = ''''\<rparr>"

definition ex_command :: "string \<Rightarrow> 'run \<Rightarrow> 'run command" where
  "ex_command name r = \<lparr>cmd_Use = name, cmd_Short = '''', cmd_Flags = [ex_flag ''kubeconfig''], cmd_Run = r\<rparr>"

theorem newControllerCommand_wraps_witness:
  "\<exists>cmd ac. newControllerCommand ex_command sorted_order (\<lambda>v. '''') 5 10 [ex_flag ''v''] (\<lambda>ac. ()) = Ret (cmd, ac) \<and>
     fmlookup (NameToWrapped ac) ''v'' = Some (wrap_flag ''on'' (ex_flag ''v''))"
proof -
  have "distinct (map fl_Name [ex_flag ''v''])" "fl_Name ` set [ex_flag ''v''] \<inter> (set obs_flag_names \<union> set user_flag_names) = {}"
    "\<forall>f \<in> set (cmd_Flags (ex_command ''status-addon-controller'' (\<lambda>ac :: agentController. ()))).
       fl_Name f \<notin> set obs_flag_names \<and> \<not> prefix ''agent-'' (fl_Name f)"
    by (simp_all add: ex_flag_def ex_command_def obs_flag_names_def user_flag_names_def)
  from newControllerCommand_wraps [where show_value = "\<lambda>v. ''''" and q = 5 and b = 10 and NewCommand = ex_command and
      run_controller = "\<lambda>ac. ()", OF sorted_order_range this]
  obtain cmd ac where 1: "newControllerCommand ex_command sorted_order (\<lambda>v. '''') 5 10 [ex_flag ''v''] (\<lambda>ac. ()) = Ret (cmd, ac)"
    and 2: "\<exists>g \<in> set [ex_flag ''v'']. fl_Name g = ''v'' \<and> wrap_flag ''on'' (ex_flag ''v'') = wrap_flag ''on'' g \<Longrightarrow>
      fmlookup (NameToWrapped ac) ''v'' = Some (wrap_flag ''on'' (ex_flag ''v''))"
    unfolding set_append by blast
  have "\<exists>g \<in> set [ex_flag ''v'']. fl_Name g = ''v'' \<and> wrap_flag ''on'' (ex_flag ''v'') = wrap_flag ''on'' g" by (simp add: ex_flag_def)
  with 1 2 show ?thesis by blast
qed

text \<open>
  Property C23: the controller passes on only flags that the agent knows: however the command line has set the wrapped
  copies (which changes their values and their marks, not their names), every propagated setting is
  \<open>--name=value\<close> for a flag that the agent's command defines or that is one of the logging flags, which
  \<open>main\<close> defines for both commands; so no setting makes the agent's start fail for an unknown flag.
\<close>

theorem propagated_flags_known:
  assumes "newControllerCommand NC ord show_value q b logFlags run_controller = Ret (ctl, ac)"
    and "NewAgentCommand NA show_value q b runAgent addon = Ret agentCmd"
    and "fmdom parsed = fmdom (NameToWrapped ac)" "range_orders ord'"
    and "(''PropagatedSettings'', settings) \<in> set (getPropagatedSettings ord' parsed)" "x \<in> set settings"
  shows "\<exists>name text. x = ''--'' @ name @ ''='' @ text \<and> name \<in> fl_Name ` (set (cmd_Flags agentCmd) \<union> set logFlags)"
proof -
  let ?sent = "filter (\<lambda>n. n \<in> changed_names parsed) (ord' (fmdom parsed))"
  have "x \<in> setting parsed ` set ?sent"
    using assms(5,6) by (simp add: getPropagatedSettings_def settings_loop_eq)
  then obtain n where n: "x = setting parsed n" "n \<in> fset (fmdom parsed)" "n \<in> changed_names parsed"
    using range_orders_set [OF assms(4)] by auto
  from n(1,3) have "\<exists>text. x = ''--'' @ n @ ''='' @ text" unfolding setting_def changed_names_def by auto
  moreover have "n \<in> fl_Name ` (set (cmd_Flags agentCmd) \<union> set logFlags)"
    using n(2) newControllerCommand_keys [OF assms(1)] AddFlags_names [of q b addon] NewAgentCommand_names [OF assms(2)]
    unfolding assms(3) set_append image_Un flag_of_names by blast
  ultimately show ?thesis by blast
qed

lemma changed_sent:
  assumes "range_orders ord" "n \<in> changed_names m"
  shows "\<exists>settings. (''PropagatedSettings'', settings) \<in> set (getPropagatedSettings ord m) \<and> setting m n \<in> set settings"
proof -
  have "n \<in> set (ord (fmdom m))" using assms range_orders_set [OF assms(1)] by (auto simp: changed_names_def fmlookup_dom_iff)
  with assms(2) show ?thesis by (simp add: getPropagatedSettings_def settings_loop_eq)
qed

definition ex_parsed :: "(string, Flag) fmap \<Rightarrow> (string, Flag) fmap" where
  "ex_parsed m = fmmap (\<lambda>f. f\<lparr>fl_Changed := True, fl_text := ''4''\<rparr>) m"

lemma ex_controller:
  "case newControllerCommand ex_command sorted_order (\<lambda>v. '''') 5 10 [] (\<lambda>ac. ()) of
     Ret (ctl, ac) \<Rightarrow> fmlookup (NameToWrapped ac) ''hub-qps'' \<noteq> None | Panic p \<Rightarrow> False"
  by code_simp

lemma ex_agent_command: "case NewAgentCommand ex_command (\<lambda>v. '''') 5 10 (\<lambda>o'. ()) ''status'' of Ret cmd \<Rightarrow> True | Panic p \<Rightarrow> False"
  by code_simp

theorem propagated_flags_known_witness:
  "\<exists>ctl ac agentCmd. newControllerCommand ex_command sorted_order (\<lambda>v. '''') 5 10 [] (\<lambda>ac. ()) = Ret (ctl, ac) \<and>
     NewAgentCommand ex_command (\<lambda>v. '''') 5 10 (\<lambda>o'. ()) ''status'' = Ret agentCmd \<and>
     (\<exists>name text. ''--hub-qps=4'' = ''--'' @ name @ ''='' @ text \<and> name \<in> fl_Name ` (set (cmd_Flags agentCmd) \<union> set []))"
proof -
  obtain ctl ac f where c: "newControllerCommand ex_command sorted_order (\<lambda>v. '''') 5 10 [] (\<lambda>ac. ()) = Ret (ctl, ac)"
    and f: "fmlookup (NameToWrapped ac) ''hub-qps'' = Some f"
    using ex_controller by (auto split: outcome.splits)
  obtain cmd where a: "NewAgentCommand ex_command (\<lambda>v. '''') 5 10 (\<lambda>o'. ()) ''status'' = Ret cmd"
    using ex_agent_command by (auto split: outcome.splits)
  let ?m = "ex_parsed (NameToWrapped ac)"
  have dom: "fmdom ?m = fmdom (NameToWrapped ac)" by (simp add: ex_parsed_def)
  have sent: "''hub-qps'' \<in> changed_names ?m" "setting ?m ''hub-qps'' = ''--hub-qps=4''"
    using f by (simp_all add: changed_names_def setting_def ex_parsed_def)
  then obtain settings where g: "(''PropagatedSettings'', settings) \<in> set (getPropagatedSettings sorted_order ?m)" "''--hub-qps=4'' \<in> set settings"
    using changed_sent [OF sorted_order_range, of "''hub-qps''" ?m] by metis
  from propagated_flags_known [OF c a dom sorted_order_range g] c a show ?thesis by blast
qed

end
