(* ===== verification/Loaddriver.thy ===== *)
theory Loaddriver
  imports Recreation Startup
begin

text \<open>
  The load driver (test/e2e/load-driver.go), which creates, deletes and creates again a number of manifest works on the
  hub: the workload that the agent meets in the end-to-end tests. Each work has one pod and the labels that make the agent report it.

  The client of the manifest works, the construction of its configuration, the JSON form of a pod and the polling of apimachinery are parameters, as is what the
  environment gives (the home directory, the command line). A call of the client has an effect on a world \<open>'w\<close>. A driver that
  polls for ever has the result \<open>None\<close>; otherwise the result is how the function ended, with the world it left.
\<close>

section \<open>Definitions\<close>

subsection \<open>Standard library\<close>

text \<open>\<^verbatim>\<open>%d\<close> of \<^verbatim>\<open>fmt.Sprintf\<close>.\<close>

fun decimal :: "nat \<Rightarrow> string" where
  "decimal n = (if n < 10 then [char_of (48 + n)] else decimal (n div 10) @ [char_of (48 + n mod 10)])"

definition Sprintf_d :: "int \<Rightarrow> string" where
  "Sprintf_d i = (if i < 0 then ''-'' @ decimal (nat (- i)) else decimal (nat i))"

text \<open>
  \<^verbatim>\<open>filepath.Join\<close>: the elements from the first that is not empty, joined by slashes, then \<^verbatim>\<open>filepath.Clean\<close>: without empty
  elements and dots, and each double dot removed with the element before it.
\<close>

fun split_path :: "string \<Rightarrow> string list" where
  "split_path [] = [[]]"
| "split_path (c # p) = (if c = CHR ''/'' then [] # split_path p else (c # hd (split_path p)) # tl (split_path p))"

fun join_path :: "string list \<Rightarrow> string" where
  "join_path [] = ''''"
| "join_path [e] = e"
| "join_path (e # es) = e @ ''/'' @ join_path es"

definition clean_step :: "bool \<Rightarrow> string list \<Rightarrow> string \<Rightarrow> string list" where
  "clean_step rooted out e =
     (if e = '''' \<or> e = ''.'' then out
      else if e = ''..'' then
        (case out of [] \<Rightarrow> if rooted then [] else [e] | x # rest \<Rightarrow> if x = ''..'' then e # out else rest)
      else e # out)"

definition filepath_Clean :: "string \<Rightarrow> string" where
  "filepath_Clean path =
     (let rooted = strings_HasPrefix path ''/''; out = rev (foldl (clean_step rooted) [] (split_path path)) in
      if rooted then ''/'' @ join_path out else if out = [] then ''.'' else join_path out)"

definition filepath_Join :: "string list \<Rightarrow> string" where
  "filepath_Join elems =
     (case dropWhile (\<lambda>e. e = '''') elems of [] \<Rightarrow> '''' | es \<Rightarrow> filepath_Clean (join_path es))"

subsection \<open>Data\<close>

record Container =
  ct_Name :: string
  ct_Image :: string
  ct_Command :: "string list"

record Pod =
  pod_APIVersion :: string
  pod_Kind :: string
  pod_ObjectMeta :: ObjectMeta
  pod_Containers :: "Container list"
  pod_NodeSelector :: "string gomap"

text \<open>A manifest work with its workload: the raw manifests.\<close>

record load_work = ManifestWork +
  mw_Manifests :: "string list"

record driver_flags =
  kubeconfig :: string
  flag_namespace :: string
  numObjects :: int
  deleteOnly :: bool

text \<open>The client of the manifest works: of the object that create returns only the error is used.\<close>

record 'w work_client =
  mws_Create :: "string \<Rightarrow> load_work \<Rightarrow> 'w \<Rightarrow> go_error option \<times> 'w"
  mws_Delete :: "string \<Rightarrow> string \<Rightarrow> 'w \<Rightarrow> go_error option \<times> 'w"

text \<open>
  \<open>flag_Parse\<close> gives the values of the flags, from their defaults and the command line, or ends the process with a status;
  \<open>PollImmediateUntil\<close> has the interval in milliseconds and a condition with an effect, and gives the world in which it returned.
\<close>

record ('c, 'w) driver_lib =
  UserHomeDir :: "go_error + string"
  flag_Parse :: "driver_flags \<Rightarrow> int + driver_flags"
  drv_BuildConfigFromFlags :: "string \<Rightarrow> string \<Rightarrow> go_error + 'c"
  work_NewForConfig :: "'c \<Rightarrow> go_error + 'w work_client"
  pod_Marshal :: "Pod \<Rightarrow> go_error + string"
  drv_IsNotFound :: "go_error \<Rightarrow> bool"
  drv_IsAlreadyExists :: "go_error \<Rightarrow> bool"
  PollImmediateUntil :: "int \<Rightarrow> ('w \<Rightarrow> (bool \<times> go_error option) \<times> 'w) \<Rightarrow> 'w \<Rightarrow> 'w option"

subsection \<open>Operations\<close>

definition load_pod :: "string \<Rightarrow> string \<Rightarrow> Pod" where
  "load_pod name namespace =
     \<lparr>pod_APIVersion = ''v1'', pod_Kind = ''Pod'', pod_ObjectMeta = new_meta namespace name,
      pod_Containers = [\<lparr>ct_Name = ''busyb'', ct_Image = ''busybox:latest'', ct_Command = [''sleep'', ''inf'']\<rparr>],
      pod_NodeSelector = Some (fmap_of_list [(''node'', ''none'')])\<rparr>"

definition generatePodManifest :: "('c, 'w) driver_lib \<Rightarrow> string \<Rightarrow> string \<Rightarrow> string \<Rightarrow> load_work outcome" where
  "generatePodManifest L name namespace manifestNamespace =
     (case pod_Marshal L (load_pod name namespace) of
        Inl err \<Rightarrow> Panic (Error_msg err)
      | Inr podBytes \<Rightarrow> Ret
          \<lparr>mw_ObjectMeta = (new_meta manifestNamespace name)\<lparr>om_Labels :=
             Some (fmap_of_list [(''managed-by.kubestellar.io/something'', ''true''), (''transport.kubestellar.io'', ''true'')])\<rparr>,
           mw_Manifests = [podBytes]\<rparr>)"

definition generateNameFromIndex :: "int \<Rightarrow> string" where
  "generateNameFromIndex index = ''pod-'' @ Sprintf_d index"

text \<open>The loop of \<open>deleteAll\<close>, with the number of rounds left and \<open>i\<close>.\<close>

fun deleteAll_loop :: "('c, 'w) driver_lib \<Rightarrow> 'w work_client \<Rightarrow> string \<Rightarrow> nat \<Rightarrow> int \<Rightarrow> 'w \<Rightarrow> unit process \<times> 'w" where
  "deleteAll_loop L client namespace 0 i w = (Returned (), w)"
| "deleteAll_loop L client namespace (Suc rounds) i w =
     (case mws_Delete client namespace (generateNameFromIndex i) w of
        (None, w') \<Rightarrow> deleteAll_loop L client namespace rounds (i + 1) w'
      | (Some err, w') \<Rightarrow>
          if \<not> drv_IsNotFound L err then (Crash (Error_msg err), w') else deleteAll_loop L client namespace rounds (i + 1) w')"

definition deleteAll :: "('c, 'w) driver_lib \<Rightarrow> 'w work_client \<Rightarrow> string \<Rightarrow> int \<Rightarrow> 'w \<Rightarrow> unit process \<times> 'w" where
  "deleteAll L client namespace n = deleteAll_loop L client namespace (nat n) 0"

text \<open>The condition of the poll: create again; every error is dropped.\<close>

definition try_create :: "'w work_client \<Rightarrow> string \<Rightarrow> load_work \<Rightarrow> 'w \<Rightarrow> (bool \<times> go_error option) \<times> 'w" where
  "try_create client namespace manifest w =
     (case mws_Create client namespace manifest w of
        (None, w') \<Rightarrow> ((True, None), w')
      | (Some err, w') \<Rightarrow> ((False, None), w'))"

fun createAll_loop :: "('c, 'w) driver_lib \<Rightarrow> 'w work_client \<Rightarrow> string \<Rightarrow> nat \<Rightarrow> int \<Rightarrow> 'w \<Rightarrow> (unit process \<times> 'w) option" where
  "createAll_loop L client namespace 0 i w = Some (Returned (), w)"
| "createAll_loop L client namespace (Suc rounds) i w =
     (case generatePodManifest L (generateNameFromIndex i) ''default'' namespace of
        Panic p \<Rightarrow> Some (Crash p, w)
      | Ret manifest \<Rightarrow>
          (case mws_Create client namespace manifest w of
             (None, w') \<Rightarrow> createAll_loop L client namespace rounds (i + 1) w'
           | (Some err, w') \<Rightarrow>
               if drv_IsAlreadyExists L err then
                 (case PollImmediateUntil L 500 (try_create client namespace manifest) w' of
                    None \<Rightarrow> None
                  | Some w'' \<Rightarrow> createAll_loop L client namespace rounds (i + 1) w'')
               else createAll_loop L client namespace rounds (i + 1) w'))"

definition createAll :: "('c, 'w) driver_lib \<Rightarrow> 'w work_client \<Rightarrow> string \<Rightarrow> int \<Rightarrow> 'w \<Rightarrow> (unit process \<times> 'w) option" where
  "createAll L client namespace n = createAll_loop L client namespace (nat n) 0"

definition default_flags :: "string \<Rightarrow> driver_flags" where
  "default_flags homeDir = \<lparr>kubeconfig = filepath_Join [homeDir, ''.kube'', ''config''], flag_namespace = ''cluster1'', numObjects = 10, deleteOnly = False\<rparr>"

text \<open>One call after the other: the next is made only if the one before returned.\<close>

definition and_then :: "(unit process \<times> 'w) option \<Rightarrow> ('w \<Rightarrow> (unit process \<times> 'w) option) \<Rightarrow> (unit process \<times> 'w) option" where
  "and_then r f =
     (case r of
        None \<Rightarrow> None
      | Some (p, w) \<Rightarrow> (case p of Returned u \<Rightarrow> f w | _ \<Rightarrow> Some (p, w)))"

definition driver_main :: "('c, 'w) driver_lib \<Rightarrow> 'w \<Rightarrow> (unit process \<times> 'w) option" where
  "driver_main L w =
     (case UserHomeDir L of
        Inl err \<Rightarrow> Some (Crash (Error_msg err), w)
      | Inr homeDir \<Rightarrow>
     (case flag_Parse L (default_flags homeDir) of
        Inl status \<Rightarrow> Some (Exit status, w)
      | Inr f \<Rightarrow>
     (case drv_BuildConfigFromFlags L '''' (kubeconfig f) of
        Inl err \<Rightarrow> Some (Crash (Error_msg err), w)
      | Inr config \<Rightarrow>
     (case work_NewForConfig L config of
        Inl err \<Rightarrow> Some (Crash (Error_msg err), w)
      | Inr workClient \<Rightarrow>
          if deleteOnly f then
            and_then (Some (deleteAll L workClient (flag_namespace f) (numObjects f) w)) (\<lambda>w1. Some (Exit 0, w1))
          else
            and_then (createAll L workClient (flag_namespace f) (numObjects f) w) (\<lambda>w1.
            and_then (Some (deleteAll L workClient (flag_namespace f) (numObjects f) w1)) (\<lambda>w2.
            createAll L workClient (flag_namespace f) (numObjects f) w2))))))"

section \<open>What the driver relies on\<close>

text \<open>
  \<^verbatim>\<open>PollImmediateUntil\<close> with a context that is never cancelled: the condition is tried at once and then after each interval, until it
  holds or fails; \<open>pass\<close> is what happens to the world during an interval.
\<close>

partial_function (option) poll_loop :: "('w \<Rightarrow> 'w) \<Rightarrow> ('w \<Rightarrow> (bool \<times> go_error option) \<times> 'w) \<Rightarrow> 'w \<Rightarrow> 'w option" where
  "poll_loop pass condition w =
     (case condition w of ((ok, err), w') \<Rightarrow> if ok \<or> err \<noteq> None then Some w' else poll_loop pass condition (pass w'))"

definition poll_doc :: "('c, 'w) driver_lib \<Rightarrow> ('w \<Rightarrow> 'w) \<Rightarrow> bool" where
  "poll_doc L pass \<longleftrightarrow> (\<forall>ms condition w. PollImmediateUntil L ms condition w = poll_loop pass condition w)"

text \<open>
  The manifest works of the namespace: a work that was deleted may stay until its finalizers are done, which takes
  a number of intervals at most; the number is part of what \<open>works\<close> gives, \<open>None\<close> for a work that was not deleted.
\<close>

type_synonym 'w works = "'w \<Rightarrow> string \<rightharpoonup> load_work \<times> nat option"

definition same_work :: "load_work \<Rightarrow> load_work \<Rightarrow> bool" where
  "same_work mw mw' \<longleftrightarrow> om_Labels (mw_ObjectMeta mw') = om_Labels (mw_ObjectMeta mw) \<and> mw_Manifests mw' = mw_Manifests mw"

definition create_doc :: "('c, 'w) driver_lib \<Rightarrow> 'w work_client \<Rightarrow> string \<Rightarrow> 'w works \<Rightarrow> bool" where
  "create_doc L C ns works \<longleftrightarrow> (\<forall>mw w.
     (case works w (om_Name (mw_ObjectMeta mw)) of
        None \<Rightarrow> \<exists>w' mw'. mws_Create C ns mw w = (None, w') \<and> same_work mw mw' \<and> works w' = (works w)(om_Name (mw_ObjectMeta mw) \<mapsto> (mw', None))
      | Some x \<Rightarrow> \<exists>e w'. mws_Create C ns mw w = (Some e, w') \<and> drv_IsAlreadyExists L e \<and> works w' = works w))"

definition delete_doc :: "('c, 'w) driver_lib \<Rightarrow> 'w work_client \<Rightarrow> string \<Rightarrow> 'w works \<Rightarrow> bool" where
  "delete_doc L C ns works \<longleftrightarrow> (\<forall>n w.
     (case works w n of
        None \<Rightarrow> \<exists>e w'. mws_Delete C ns n w = (Some e, w') \<and> drv_IsNotFound L e \<and> works w' = works w
      | Some (mw, left) \<Rightarrow> \<exists>w' x. mws_Delete C ns n w = (None, w') \<and> works w' = (works w)(n := x) \<and> (x = None \<or> (\<exists>k. x = Some (mw, Some k)))))"

definition finalizers_doc :: "('w \<Rightarrow> 'w) \<Rightarrow> 'w works \<Rightarrow> bool" where
  "finalizers_doc pass works \<longleftrightarrow> (\<forall>w n.
     (case works w n of
        None \<Rightarrow> works (pass w) n = None
      | Some (mw, None) \<Rightarrow> works (pass w) n = Some (mw, None)
      | Some (mw, Some k) \<Rightarrow> works (pass w) n = None \<or> (\<exists>k' < k. works (pass w) n = Some (mw, Some k'))))"

text \<open>A work that is absent or on its way out.\<close>

definition going :: "'w works \<Rightarrow> 'w \<Rightarrow> string \<Rightarrow> bool" where
  "going works w n \<longleftrightarrow> (\<forall>mw left. works w n = Some (mw, left) \<longrightarrow> left \<noteq> None)"

section \<open>Names\<close>

declare decimal.simps [simp del]

lemma decimal_not_Nil [simp]: "decimal n \<noteq> []"
  by (subst decimal.simps) simp

lemma digit_inject: "a < 10 \<Longrightarrow> b < 10 \<Longrightarrow> (char_of (48 + a) = (char_of (48 + b) :: char)) = (a = b)" for a b :: nat
  using inj_on_eq_iff [OF inj_on_char_of_nat, of "48 + a" "48 + b"] by simp

lemma decimal_inject: "decimal m = decimal n \<Longrightarrow> m = n"
proof (induction m arbitrary: n rule: less_induct)
  case (less m)
  have l: "(length (decimal k) = 1) = (k < 10)" for k by (subst decimal.simps) simp
  show ?case
  proof (cases "m < 10")
    case True
    then have "n < 10" using l [of m] l [of n] less.prems by simp
    then show ?thesis using True less.prems by (simp add: digit_inject decimal.simps [of m] decimal.simps [of n])
  next
    case False
    then have n: "\<not> n < 10" using l [of m] l [of n] less.prems by simp
    have "decimal (m div 10) @ [char_of (48 + m mod 10)] = decimal (n div 10) @ [char_of (48 + n mod 10)]"
      using less.prems False n by (simp add: decimal.simps [of m] decimal.simps [of n])
    then have "decimal (m div 10) = decimal (n div 10)" "m mod 10 = n mod 10" by (auto simp: digit_inject)
    then have "m div 10 = n div 10" using less.IH [of "m div 10" "n div 10"] False by simp
    with \<open>m mod 10 = n mod 10\<close> show ?thesis by (metis div_mult_mod_eq)
  qed
qed

lemma generateNameFromIndex_inject: "0 \<le> i \<Longrightarrow> 0 \<le> j \<Longrightarrow> generateNameFromIndex i = generateNameFromIndex j \<Longrightarrow> i = j"
  using decimal_inject [of "nat i" "nat j"] by (simp add: generateNameFromIndex_def Sprintf_d_def)

section \<open>Creating and deleting\<close>

text \<open>The work that the driver makes for an index, and that it is there, not deleted, with KubeStellar's label.\<close>

definition loaded :: "('c, 'w) driver_lib \<Rightarrow> 'w works \<Rightarrow> 'w \<Rightarrow> int \<Rightarrow> bool" where
  "loaded L works w i \<longleftrightarrow> (\<exists>mw raw. works w (generateNameFromIndex i) = Some (mw, None) \<and> ks_labelled (ManifestWork.truncate mw) \<and>
     pod_Marshal L (load_pod (generateNameFromIndex i) ''default'') = Inr raw \<and> mw_Manifests mw = [raw])"

lemma generatePodManifest_labelled:
  "generatePodManifest L name ns mns = Ret mw \<Longrightarrow> same_work mw mw' \<Longrightarrow> ks_labelled (ManifestWork.truncate mw')"
  by (auto simp: generatePodManifest_def same_work_def ks_labelled_def ManifestWork.truncate_def gomap_get_def fmlookup_of_list
      TransportLabelPrefix_def strings_HasPrefix_def split: sum.splits)

lemma generatePodManifest_name: "generatePodManifest L name ns mns = Ret mw \<Longrightarrow> om_Name (mw_ObjectMeta mw) = name"
  by (auto simp: generatePodManifest_def new_meta_def split: sum.splits)

text \<open>Polling for the end of a work that is on its way out creates it again; for one that stays, it never returns.\<close>

definition recreated :: "'w works \<Rightarrow> load_work \<Rightarrow> 'w \<Rightarrow> 'w \<Rightarrow> bool" where
  "recreated works mw w w' \<longleftrightarrow> (\<exists>mw'. same_work mw mw' \<and> works w' (om_Name (mw_ObjectMeta mw)) = Some (mw', None)) \<and>
     (\<forall>n. n \<noteq> om_Name (mw_ObjectMeta mw) \<longrightarrow> (going works w n \<longrightarrow> going works w' n) \<and> (\<forall>m. works w n = Some (m, None) \<longrightarrow> works w' n = Some (m, None)))"

lemma recreated_others:
  "recreated works mw w w' \<Longrightarrow> (\<And>n. n \<noteq> om_Name (mw_ObjectMeta mw) \<Longrightarrow> (going works v n \<longrightarrow> going works w n) \<and> (\<forall>m. works v n = Some (m, None) \<longrightarrow> works w n = Some (m, None))) \<Longrightarrow>
    recreated works mw v w'"
  by (auto simp: recreated_def)

lemma try_create_free:
  assumes "create_doc L C ns works" "works w (om_Name (mw_ObjectMeta mw)) = None"
  obtains w' where "mws_Create C ns mw w = (None, w')" "recreated works mw w w'"
proof -
  obtain w' mw' where "mws_Create C ns mw w = (None, w')" "same_work mw mw'" "works w' = (works w)(om_Name (mw_ObjectMeta mw) \<mapsto> (mw', None))"
    using assms(1) [unfolded create_doc_def, rule_format, of mw w] assms(2) by auto
  then show thesis by (intro that) (auto simp: recreated_def going_def)
qed

lemma try_create_taken:
  assumes "create_doc L C ns works" "works w (om_Name (mw_ObjectMeta mw)) = Some x"
  shows "\<exists>e w'. mws_Create C ns mw w = (Some e, w') \<and> drv_IsAlreadyExists L e \<and> works w' = works w"
  using assms(1) [unfolded create_doc_def, rule_format, of mw w] assms(2) by simp

lemma pass_others:
  assumes "finalizers_doc pass works"
  shows "(going works w n \<longrightarrow> going works (pass w) n) \<and> (\<forall>m. works w n = Some (m, None) \<longrightarrow> works (pass w) n = Some (m, None))"
  using assms [unfolded finalizers_doc_def, rule_format, of w n] by (auto simp: going_def split: option.splits)

lemma poll_creates:
  assumes "create_doc L C ns works" "finalizers_doc pass works" "works w (om_Name (mw_ObjectMeta mw)) = Some (m, Some k)"
  shows "\<exists>w'. poll_loop pass (try_create C ns mw) w = Some w' \<and> recreated works mw w w'"
  using assms(3)
proof (induction k arbitrary: w rule: less_induct)
  case (less k)
  let ?n = "om_Name (mw_ObjectMeta mw)"
  obtain e v where v: "mws_Create C ns mw w = (Some e, v)" "works v = works w" using try_create_taken [OF assms(1) less.prems] by blast
  have "\<exists>w'. poll_loop pass (try_create C ns mw) (pass v) = Some w' \<and> recreated works mw (pass v) w'"
  proof (cases "works (pass v) ?n")
    case None
    obtain w' where "mws_Create C ns mw (pass v) = (None, w')" "recreated works mw (pass v) w'" by (rule try_create_free [OF assms(1) None])
    then show ?thesis by (subst poll_loop.simps) (simp add: try_create_def)
  next
    case (Some x)
    then obtain k' where "k' < k" "works (pass v) ?n = Some (m, Some k')"
      using assms(2) [unfolded finalizers_doc_def, rule_format, of v ?n] less.prems v(2) by auto
    then show ?thesis by (rule less.IH)
  qed
  then obtain w' where w': "poll_loop pass (try_create C ns mw) (pass v) = Some w'" "recreated works mw (pass v) w'" by blast
  have "recreated works mw w w'"
    using recreated_others [OF w'(2)] pass_others [OF assms(2), of v] v(2) by (simp add: going_def)
  moreover have "poll_loop pass (try_create C ns mw) w = Some w'" using v(1) w'(1) by (subst poll_loop.simps) (simp add: try_create_def)
  ultimately show ?case by blast
qed

lemma poll_hangs:
  assumes "create_doc L C ns works" "finalizers_doc pass works" "works w (om_Name (mw_ObjectMeta mw)) = Some (m, None)"
  shows "poll_loop pass (try_create C ns mw) w = None"
proof -
  let ?P = "\<lambda>p c w (y :: 'b). p = pass \<longrightarrow> c = try_create C ns mw \<longrightarrow> works w (om_Name (mw_ObjectMeta mw)) \<noteq> Some (m, None)"
  have "?P pass (try_create C ns mw) w y" if "poll_loop pass (try_create C ns mw) w = Some y" for y
  proof (rule poll_loop.raw_induct [of ?P, OF _ that])
    fix poll p c w y
    assume IH: "\<And>p c w y. poll p c w = Some y \<Longrightarrow> ?P p c w y"
      and eq: "(case c w of ((ok, err), w') \<Rightarrow> if ok \<or> err \<noteq> None then Some w' else poll p c (p w')) = Some y"
    have False if c: "p = pass" "c = try_create C ns mw" and w: "works w (om_Name (mw_ObjectMeta mw)) = Some (m, None)"
    proof -
      obtain e v where v: "mws_Create C ns mw w = (Some e, v)" "works v = works w" using try_create_taken [OF assms(1) w] by blast
      have "works (pass v) (om_Name (mw_ObjectMeta mw)) = Some (m, None)" using pass_others [OF assms(2), of v] v(2) w by simp
      then show False using IH [of pass c "pass v" y] eq c v(1) by (simp add: try_create_def)
    qed
    then show "?P p c w y" by blast
  qed
  then show ?thesis using assms(3) by (cases "poll_loop pass (try_create C ns mw) w") auto
qed

lemma create_one:
  assumes "create_doc L C ns works" "finalizers_doc pass works" "poll_doc L pass" "\<And>p. \<exists>raw. pod_Marshal L p = Inr raw"
    and "going works w (generateNameFromIndex i)"
  obtains w' where "createAll_loop L C ns (Suc rounds) i w = createAll_loop L C ns rounds (i + 1) w'" "loaded L works w' i"
    "\<And>n. n \<noteq> generateNameFromIndex i \<Longrightarrow> going works w n \<Longrightarrow> going works w' n"
    "\<And>n m. n \<noteq> generateNameFromIndex i \<Longrightarrow> works w n = Some (m, None) \<Longrightarrow> works w' n = Some (m, None)"
proof -
  let ?n = "generateNameFromIndex i"
  obtain raw where raw: "pod_Marshal L (load_pod ?n ''default'') = Inr raw" using assms(4) by blast
  then obtain mw where mw: "generatePodManifest L ?n ''default'' ns = Ret mw" "mw_Manifests mw = [raw]" by (simp add: generatePodManifest_def)
  note name = generatePodManifest_name [OF mw(1)]
  have "\<exists>w'. createAll_loop L C ns (Suc rounds) i w = createAll_loop L C ns rounds (i + 1) w' \<and> recreated works mw w w'"
  proof (cases "works w ?n")
    case None
    obtain w' where "mws_Create C ns mw w = (None, w')" "recreated works mw w w'"
      by (rule try_create_free [OF assms(1), of w mw]) (use None name in simp_all)
    then show ?thesis using mw(1) by auto
  next
    case (Some x)
    then obtain m k where x: "works w ?n = Some (m, Some k)" using assms(5) by (cases x) (auto simp: going_def)
    obtain e v where v: "mws_Create C ns mw w = (Some e, v)" "drv_IsAlreadyExists L e" "works v = works w"
      using try_create_taken [OF assms(1), of w mw "(m, Some k)"] x name by auto
    obtain w' where w': "poll_loop pass (try_create C ns mw) v = Some w'" "recreated works mw v w'"
      using poll_creates [OF assms(1,2), of v mw m k] x v(3) name by auto
    have "recreated works mw w w'" using recreated_others [OF w'(2)] v(3) by (simp add: going_def)
    then show ?thesis using mw(1) v(1,2) w'(1) assms(3) by (auto simp: poll_doc_def)
  qed
  then obtain w' where w': "createAll_loop L C ns (Suc rounds) i w = createAll_loop L C ns rounds (i + 1) w'" "recreated works mw w w'" by blast
  have "loaded L works w' i"
    using w'(2) generatePodManifest_labelled [OF mw(1)] mw(2) raw name by (auto simp: recreated_def loaded_def same_work_def)
  moreover have "going works w' n" if "n \<noteq> generateNameFromIndex i" "going works w n" for n using w'(2) name that by (simp add: recreated_def)
  moreover have "works w' n = Some (m, None)" if "n \<noteq> generateNameFromIndex i" "works w n = Some (m, None)" for n m using w'(2) name that by (simp add: recreated_def)
  ultimately show thesis using that [OF w'(1)] by blast
qed

lemma createAll_loop_loads:
  assumes "create_doc L C ns works" "finalizers_doc pass works" "poll_doc L pass" "\<And>p. \<exists>raw. pod_Marshal L p = Inr raw" "0 \<le> i"
    and "\<And>j. i \<le> j \<Longrightarrow> j < i + int rounds \<Longrightarrow> going works w (generateNameFromIndex j)"
    and "\<And>j. 0 \<le> j \<Longrightarrow> j < i \<Longrightarrow> loaded L works w j"
  shows "\<exists>w'. createAll_loop L C ns rounds i w = Some (Returned (), w') \<and> (\<forall>j. 0 \<le> j \<and> j < i + int rounds \<longrightarrow> loaded L works w' j)"
  using assms(5-7)
proof (induction rounds arbitrary: i w)
  case (Suc rounds)
  have "going works w (generateNameFromIndex i)" using Suc.prems(2) [of i] by simp
  then obtain w1 where w1: "createAll_loop L C ns (Suc rounds) i w = createAll_loop L C ns rounds (i + 1) w1" "loaded L works w1 i"
    "\<And>n. n \<noteq> generateNameFromIndex i \<Longrightarrow> going works w n \<Longrightarrow> going works w1 n"
    "\<And>n m. n \<noteq> generateNameFromIndex i \<Longrightarrow> works w n = Some (m, None) \<Longrightarrow> works w1 n = Some (m, None)"
    using create_one [OF assms(1-4)] by metis
  have other: "generateNameFromIndex j \<noteq> generateNameFromIndex i" if "0 \<le> j" "j \<noteq> i" for j
    using generateNameFromIndex_inject that Suc.prems(1) by blast
  have "going works w1 (generateNameFromIndex j)" if "i + 1 \<le> j" "j < i + 1 + int rounds" for j
    using w1(3) [OF other] Suc.prems(1,2) that by simp
  moreover have "loaded L works w1 j" if "0 \<le> j" "j < i + 1" for j
  proof (cases "j = i")
    case False
    then have "loaded L works w j" using Suc.prems(3) that by simp
    then show ?thesis using w1(4) [OF other [OF that(1) False]] by (auto simp: loaded_def)
  qed (use w1(2) in simp)
  ultimately show ?case using Suc.IH [of "i + 1" w1] Suc.prems(1) w1(1) by (simp add: algebra_simps)
qed simp

lemma createAll_loads:
  assumes "create_doc L C ns works" "finalizers_doc pass works" "poll_doc L pass" "\<And>p. \<exists>raw. pod_Marshal L p = Inr raw"
    and "\<And>i. 0 \<le> i \<Longrightarrow> i < n \<Longrightarrow> going works w (generateNameFromIndex i)"
  obtains w' where "createAll L C ns n w = Some (Returned (), w')" "\<And>i. 0 \<le> i \<Longrightarrow> i < n \<Longrightarrow> loaded L works w' i"
proof -
  have "\<exists>w'. createAll_loop L C ns (nat n) 0 w = Some (Returned (), w') \<and> (\<forall>j. 0 \<le> j \<and> j < 0 + int (nat n) \<longrightarrow> loaded L works w' j)"
    by (rule createAll_loop_loads [OF assms(1-4)]) (use assms(5) in \<open>auto split: if_splits\<close>)
  then show thesis using that by (auto simp: createAll_def)
qed

lemma createAll_hangs:
  assumes "create_doc L C ns works" "finalizers_doc pass works" "poll_doc L pass" "loaded L works w 0" "0 < n"
  shows "createAll L C ns n w = None"
proof -
  obtain m raw where m: "works w (generateNameFromIndex 0) = Some (m, None)" "pod_Marshal L (load_pod (generateNameFromIndex 0) ''default'') = Inr raw"
    using assms(4) by (auto simp: loaded_def)
  then obtain mw where mw: "generatePodManifest L (generateNameFromIndex 0) ''default'' ns = Ret mw" by (simp add: generatePodManifest_def)
  note name = generatePodManifest_name [OF mw]
  obtain e v where v: "mws_Create C ns mw w = (Some e, v)" "drv_IsAlreadyExists L e" "works v = works w"
    using try_create_taken [OF assms(1), of w mw "(m, None)"] m(1) name by auto
  have "poll_loop pass (try_create C ns mw) v = None" using poll_hangs [OF assms(1,2)] m(1) v(3) name by metis
  moreover obtain r where "nat n = Suc r" using assms(5) by (cases "nat n") auto
  ultimately show ?thesis using mw v(1,2) assms(3) by (simp add: createAll_def poll_doc_def)
qed

lemma deleteAll_loop_going:
  assumes "delete_doc L C ns works"
  shows "\<exists>w'. deleteAll_loop L C ns rounds i w = (Returned (), w') \<and>
    (\<forall>n. going works w n \<or> (\<exists>j. i \<le> j \<and> j < i + int rounds \<and> n = generateNameFromIndex j) \<longrightarrow> going works w' n)"
proof (induction rounds arbitrary: i w)
  case (Suc rounds)
  let ?n = "generateNameFromIndex i"
  have "\<exists>err v. mws_Delete C ns ?n w = (err, v) \<and> (\<forall>e. err = Some e \<longrightarrow> drv_IsNotFound L e) \<and> going works v ?n \<and> (\<forall>n. going works w n \<longrightarrow> going works v n)"
    using assms [unfolded delete_doc_def, rule_format, of ?n w] by (auto simp: going_def split: option.splits prod.splits)
  then obtain err v where v: "mws_Delete C ns ?n w = (err, v)" "\<forall>e. err = Some e \<longrightarrow> drv_IsNotFound L e" "going works v ?n"
    "\<And>n. going works w n \<Longrightarrow> going works v n" by blast
  obtain w' where w': "deleteAll_loop L C ns rounds (i + 1) v = (Returned (), w')"
    "\<And>n. going works v n \<or> (\<exists>j. i + 1 \<le> j \<and> j < i + 1 + int rounds \<and> n = generateNameFromIndex j) \<Longrightarrow> going works w' n"
    using Suc.IH [of "i + 1" v] by blast
  have "deleteAll_loop L C ns (Suc rounds) i w = (Returned (), w')" using v(1,2) w'(1) by (cases err) auto
  moreover have "going works w' n" if "going works w n \<or> (\<exists>j. i \<le> j \<and> j < i + int (Suc rounds) \<and> n = generateNameFromIndex j)" for n
  proof -
    from that have "going works w n \<or> n = ?n \<or> (\<exists>j. i + 1 \<le> j \<and> j < i + 1 + int rounds \<and> n = generateNameFromIndex j)"
      by (metis add.assoc add.commute add1_zle_eq of_nat_Suc order_le_less)
    then show ?thesis using v(3,4) w'(2) by blast
  qed
  ultimately show ?case by blast
qed auto

lemma deleteAll_going:
  assumes "delete_doc L C ns works"
  obtains w' where "deleteAll L C ns n w = (Returned (), w')" "\<And>i. 0 \<le> i \<Longrightarrow> i < n \<Longrightarrow> going works w' (generateNameFromIndex i)"
proof -
  obtain w' where "deleteAll_loop L C ns (nat n) 0 w = (Returned (), w')"
    "\<And>m. going works w m \<or> (\<exists>j. 0 \<le> j \<and> j < 0 + int (nat n) \<and> m = generateNameFromIndex j) \<Longrightarrow> going works w' m"
    using deleteAll_loop_going [OF assms, of "nat n" 0 w] by blast
  then show thesis by (intro that) (auto simp: deleteAll_def)
qed

section \<open>Properties\<close>

text \<open>
  Property C33: the load driver, on an API server that answers and takes a number of polling intervals to finish a deletion, in a namespace
  where the works it makes are absent or on their way out, returns, and then all of them are there, with their pods and with KubeStellar's label,
  so that the agent reports them. It waits for its own deletions. Started again in the world it left, it does not
  return: it polls for the end of works that nobody deletes.
\<close>

theorem driver_main_reloads:
  assumes docs: "create_doc L client ns works" "delete_doc L client ns works" "finalizers_doc pass works" "poll_doc L pass"
      "\<And>p. \<exists>raw. pod_Marshal L p = Inr raw"
    and given: "UserHomeDir L = Inr homeDir" "flag_Parse L (default_flags homeDir) = Inr f" "drv_BuildConfigFromFlags L '''' (kubeconfig f) = Inr config"
      "work_NewForConfig L config = Inr client" "flag_namespace f = ns" "\<not> deleteOnly f" "0 < numObjects f"
    and start: "\<And>i. 0 \<le> i \<Longrightarrow> i < numObjects f \<Longrightarrow> going works w (generateNameFromIndex i)"
  shows "\<exists>w'. driver_main L w = Some (Returned (), w') \<and> (\<forall>i. 0 \<le> i \<and> i < numObjects f \<longrightarrow> loaded L works w' i) \<and> driver_main L w' = None"
proof -
  let ?n = "numObjects f"
  have main: "driver_main L v = and_then (createAll L client ns ?n v) (\<lambda>w1. and_then (Some (deleteAll L client ns ?n w1)) (createAll L client ns ?n))" for v
    using given by (simp add: driver_main_def)
  obtain w1 where w1: "createAll L client ns ?n w = Some (Returned (), w1)"
    using createAll_loads [OF docs(1,3,4,5) start] by blast
  obtain w2 where w2: "deleteAll L client ns ?n w1 = (Returned (), w2)" "\<And>i. 0 \<le> i \<Longrightarrow> i < ?n \<Longrightarrow> going works w2 (generateNameFromIndex i)"
    using deleteAll_going [OF docs(2)] by blast
  obtain w' where w': "createAll L client ns ?n w2 = Some (Returned (), w')" "\<And>i. 0 \<le> i \<Longrightarrow> i < ?n \<Longrightarrow> loaded L works w' i"
    using createAll_loads [OF docs(1,3,4,5) w2(2)] by blast
  have "createAll L client ns ?n w' = None" using createAll_hangs [OF docs(1,3,4)] w'(2) given(7) by simp
  then show ?thesis using w1 w2(1) w' by (intro exI [of _ w']) (simp add: main and_then_def)
qed

subsection \<open>Examples\<close>

text \<open>A namespace whose deletions take three intervals.\<close>

type_synonym namespace_works = "string \<rightharpoonup> load_work \<times> nat option"

definition ns_client :: "namespace_works work_client" where
  "ns_client = \<lparr>mws_Create = \<lambda>ns mw w. let n = om_Name (mw_ObjectMeta mw) in
        if w n = None then (None, w(n \<mapsto> (mw, None))) else (Some (Extern ''AlreadyExists'' n), w),
      mws_Delete = \<lambda>ns n w. case w n of None \<Rightarrow> (Some (Extern ''NotFound'' n), w) | Some (mw, left) \<Rightarrow> (None, w(n \<mapsto> (mw, Some 2)))\<rparr>"

definition ns_pass :: "namespace_works \<Rightarrow> namespace_works" where
  "ns_pass w n = (case w n of
       Some (mw, Some left) \<Rightarrow> if left = 0 then None else Some (mw, Some (left - 1))
     | x \<Rightarrow> x)"

definition ns_lib :: "(unit, namespace_works) driver_lib" where
  "ns_lib = \<lparr>UserHomeDir = Inr ''/root'', flag_Parse = Inr, drv_BuildConfigFromFlags = \<lambda>m k. Inr (), work_NewForConfig = \<lambda>c. Inr ns_client,
      pod_Marshal = \<lambda>p. Inr (om_Name (pod_ObjectMeta p)), drv_IsNotFound = \<lambda>e. case e of Extern r n \<Rightarrow> r = ''NotFound'' | _ \<Rightarrow> False,
      drv_IsAlreadyExists = \<lambda>e. case e of Extern r n \<Rightarrow> r = ''AlreadyExists'' | _ \<Rightarrow> False, PollImmediateUntil = \<lambda>ms. poll_loop ns_pass\<rparr>"

lemma default_kubeconfig: "kubeconfig (default_flags ''/root'') = ''/root/.kube/config''"
  by (simp add: default_flags_def) code_simp

lemma generateNameFromIndex_12: "generateNameFromIndex 12 = ''pod-12''"
  by code_simp

lemma ns_docs:
  "create_doc ns_lib ns_client ns (\<lambda>w. w)" "delete_doc ns_lib ns_client ns (\<lambda>w. w)" "finalizers_doc ns_pass (\<lambda>w. w)" "poll_doc ns_lib ns_pass"
  by (auto simp: create_doc_def delete_doc_def finalizers_doc_def poll_doc_def ns_lib_def ns_client_def ns_pass_def same_work_def Let_def split: option.split)

theorem driver_main_reloads_witness:
  "\<exists>w'. driver_main ns_lib Map.empty = Some (Returned (), w') \<and> (\<forall>i. 0 \<le> i \<and> i < 10 \<longrightarrow> loaded ns_lib (\<lambda>w. w) w' i) \<and> driver_main ns_lib w' = None"
proof -
  have n: "numObjects (default_flags ''/root'') = 10" by (simp add: default_flags_def)
  show ?thesis unfolding n [symmetric]
    by (rule driver_main_reloads [OF ns_docs(1-4), where ns = "''cluster1''"])
      (auto simp: ns_lib_def default_flags_def going_def)
qed

end
