(* ===== verification/Spec2Isabelle.thy ===== *)
theory Spec2Isabelle
  imports Residents Deepcopy Loaddriver
begin

text \<open>
  The KubeStellar status addon for Open Cluster Management (OCM), verified.

  \<^bold>\<open>The program.\<close> OCM delivers the objects of a ManifestWork on a hub to a managed cluster and
  records there, in an AppliedManifestWork, which objects it created. The addon has two commands. The
  \<^emph>\<open>controller\<close>, on the hub, installs the agent on the managed clusters with the values of its
  manifests, a role and role binding in the cluster's namespace, and a health check. The
  \<^emph>\<open>agent\<close>, on a managed cluster, watches the AppliedManifestWorks; for each kind of object they
  list it starts one informer and, when an object of an AppliedManifestWork changes or goes, it
  creates, updates or deletes a WorkStatus object on the hub that carries the object's status.
  Informer events put keys on a work queue; workers take a key and reconcile it: an
  AppliedManifestWork starts and stops informers, any other object is reported.

  \<^bold>\<open>Theories and sources\<close>, in the order of their imports:

  \<^item> \<open>Prelude\<close>: results of Go functions (\<open>'a outcome\<close>: return or panic; errors as values,
    \<open>go_error + 'a\<close>), strings, ranges over maps in an arbitrary order, shared lemmas.
  \<^item> \<open>K8s\<close>: the data the code uses of the Kubernetes and OCM libraries and of api/v1alpha1
    (\<open>ObjectMeta\<close>, \<open>runtime_object\<close>, \<open>AppliedManifestWork\<close>, \<open>WorkStatus\<close>), and \<open>k8slib\<close>, the record
    of library functions that the code calls, with their documented behaviour as predicates.
  \<^item> \<open>Safemaps\<close> (pkg/util/safemaps.go): the thread-safe maps, one operation per method. The locales
    \<open>keyed_store\<close>, \<open>store_pair\<close> and \<open>uid_index\<close> state what the agent relies on.
  \<^item> \<open>Keys\<close> (pkg/util/keys.go): the keys of kinds and of objects. The locale \<open>kind_registry\<close> is a
    store addressed by kinds; interpreted on SafeMap, it says when kinds do not share a key.
  \<^item> \<open>Unstructured_Objects\<close> (pkg/util/unstructured.go): status, kind and conversions of objects,
    lookups in listers.
  \<^item> \<open>Utils\<close> (pkg/util/utils.go): what an update of a work adds and removes, the range of a map, the
    names of WorkStatus objects.
  \<^item> \<open>Ocm\<close> (pkg/ocm): the calls to the hub. A hub client is a record of functions on an abstract
    world; every call is also recorded, in order.
  \<^item> \<open>Informers\<close> (pkg/agent/informers.go): the agent's state \<open>sys\<close> (the fields of the struct
    \<open>Agent\<close>; the running informers with their channels, the goroutines not run yet, the calls on
    the work queue and to the hub, and the world) and the start and stop of informers.
  \<^item> \<open>Reconcilers\<close> (pkg/agent/reconcilers.go): \<open>reconcile\<close>, \<open>handleAppliedManifestWork\<close>,
    \<open>handleWorkStatus\<close>, and the invariant \<open>sys_inv\<close>.
  \<^item> \<open>Hub\<close>: the contract of the hub's API server (\<open>hub_doc\<close>: what get, create, delete, patch and update
    of the status do and leave alone; \<open>hub_up\<close>: calls on well-formed objects, and updates of the current resource version,
    succeed while the world is in a given set, so that a hub can fail and recover; \<open>work_there\<close>: the hub has a given manifest work
    during that time; \<open>owner_accept_doc\<close>: when an object can be made the controller of another) and a concrete cluster and hub that satisfies it, on which the examples run.
  \<^item> \<open>Reporting\<close>: what \<open>handleWorkStatus\<close> achieves against that contract.
  \<^item> \<open>Interference\<close>: the same on a hub that others change before each of its calls.
  \<^item> \<open>Agent\<close> (pkg/agent/agent.go): construction, start, event handlers, workers, and the
    transition system \<open>agent_step\<close>. The locale \<open>step_invariant\<close> carries invariants along its runs.
  \<^item> \<open>Delivery\<close>: agent.go and reconcilers.go together, from an event to the hub; \<open>Workqueue\<close>: the queue between
    them. Whether an item is dirty and whether it is being processed are functions of the calls made on the queue (\<^verbatim>\<open>Add\<close>, \<^verbatim>\<open>Get\<close>,
    \<^verbatim>\<open>AddRateLimited\<close>, \<^verbatim>\<open>Forget\<close>, \<^verbatim>\<open>Done\<close>); an item waits if it is dirty and not being processed. The locale \<open>item_queue\<close> (an
    extension of \<open>step_invariant\<close>) says that an item waits until it is settled, and is interpreted on \<open>agent_step\<close>.
    \<open>Recreation\<close>: two workers on one object.
  \<^item> \<open>Tracking\<close>: the abstract specification of reconcilers.go and informers.go together, a map of
    tracked works, and the refinement; \<open>serial_step\<close>, the runs in which each item is followed by its goroutine.
  \<^item> \<open>Tasks\<close>: startInformers and stopInformers (pkg/agent/informers.go) once more, as threads: \<open>task_step\<close>
    is one access to a shared map or field, \<open>conc_step\<close> lets any of several threads make its next step.
  \<^item> \<open>Interleaving\<close>: what holds of every interleaving of such threads on different kinds, and what does
    not hold on the same kind; \<open>Residents\<close>: what does hold on the same kind.
  \<^item> \<open>Rbac\<close> (pkg/rbac/rbac.go, and the controller's own permissions in pkg/internal),
    \<open>Controller\<close> (pkg/controller/manager.go), \<open>Command\<close> (pkg/client-options, the options and flags of
    pkg/observability and pkg/agent/manager.go, the propagated settings of cmd/ocm-status-addon/main.go).
  \<^item> \<open>Startup\<close>: how the two processes start and fail: RunAgent and NewAgentCommand (pkg/agent/manager.go),
    StartServing (pkg/observability), and main, newCommand, newControllerCommand and runController
    (cmd/ocm-status-addon/main.go). A \<open>process\<close> returns, exits with a status, ends fatally or panics.
  \<^item> \<open>Loaddriver\<close> (test/e2e/load-driver.go): the program that puts load on a test cluster, which ends or polls for
    ever.
  \<^item> \<open>Deepcopy\<close> (api/v1alpha1): the API types as they lie in memory, their generated methods DeepCopyInto,
    DeepCopy and DeepCopyObject, and the registration of the types. Memory is a map from addresses to
    cells; the locale \<open>deep_copy\<close> is the contract of a copy method. The other theories treat objects as
    values, which is what this contract permits.
  \<^item> this theory: the agent's calls against the role that the controller creates.

  \<^bold>\<open>What is shown.\<close>

  \<^item> Tracking: in every state that runs without overlapping operations reach, the registries of informers, listers and stoppers agree, and no
    stopper is shared or closed (\<open>agent_invariant\<close>); processing admissible works one after the other, each with its goroutine and with one REST mapper,
    implements the map of tracked works (\<open>settle_refines\<close>) and keeps exactly one informer per listed kind, after every step of
    such a run (\<open>settled_informers\<close>), which rests on the difference of object lists (\<open>GetAddedRemovedInfo_correct\<close>).
  \<^item> Concurrency: a thread that runs alone does what the atomic function does (the lemma \<open>tasks_alone\<close>); every
    interleaving ends, with a bound on its steps (the lemma \<open>interleavings_end\<close>); threads on different kinds do not
    panic and end as in a sequential order (\<open>different_kinds_safe\<close>); on the same kind two threads can
    crash the agent or lose an informer (\<open>concurrent_stops_panic\<close>,
    \<open>concurrent_starts_lose_informer\<close>). The invariant behind \<open>different_kinds_safe\<close> assigns each
    kind to the thread whose object has it and says how far that thread has got. Both failures are at the
    first or the last object of a kind: while the kind keeps an object that no thread touches, threads
    on it are safe, too (\<open>resident_kinds_safe\<close>, with the invariant \<open>res_inv\<close>).
  \<^item> Reporting: an object with a status, an applied manifest work and a known kind is reported when the hub works and has its
    manifest work, with KubeStellar's label (\<open>handleWorkStatus_total\<close>); a
    nil result means the report is on the hub, or, if deletes fail only on absent objects, that of a deleted object is not, whatever calls failed before
    (the lemmas \<open>handleWorkStatus_spec\<close> and \<open>handleWorkStatus_delete_spec\<close>), even if others change the hub between the
    calls (\<open>handleWorkStatus_interference\<close>); a second run on a reported object only repeats the status
    (\<open>handleWorkStatus_idempotent\<close>); other reports are untouched, and the calls follow a fixed protocol
    (\<open>handleWorkStatus_confined\<close>).
  \<^item> Memory: a deep copy denotes what the original denotes, lies in new memory and keeps the old
    (\<open>WorkStatusList_DeepCopy_separate\<close>), so later writes to one leave the other
    (\<open>WorkStatus_DeepCopy_independent\<close>); memory stays typed (\<open>DeepCopyObject_typed\<close>).
  \<^item> Events and queue: a key that an event queued leads back to the object, and a worker drops it only
    when the hub has the report of the version then cached (\<open>existing_object_delivered\<close>); the key of a deleted object is dropped when the hub has
    no report of it any more, or its kind no lister, and retried while its work is not cached (\<open>deleted_object_delivered\<close>); each item taken from the
    queue is finished once (\<open>processNextWorkItem_protocol\<close>), and the queue has a key that an event added to hand out until it is settled
    (\<open>event_key_not_lost\<close>). If the queue is fair and the hub, after any failures, works from some time on, an
    object that stays as it is is reported in the end (\<open>reported_in_the_end\<close>). Not so when the object was deleted and
    created again: two workers may have its two keys, and the report may be lost (\<open>recreated_report_lost\<close>).
  \<^item> Panics: none while discovery succeeds, the caches hold unstructured objects and operations do not overlap
    (\<open>agent_no_panic\<close>).
  \<^item> Rights: every call in a run is allowed by the role (\<open>agent_calls_authorized\<close>), which AddonRBAC
    creates (\<open>AddonRBAC_grants\<close>) and which allows little else (the lemma \<open>role_least_privilege\<close>); the
    controller's own permissions are enough to create it and its binding (\<open>controller_may_grant\<close>), unless a larger role of its name is
    there already (the lemma \<open>larger_role_refused\<close>).
  \<^item> Start: when RunAgent returns, it has started the agent these theorems are about, with the limits and the cluster of its
    flags, or one without workers, when the first cache did not sync (\<open>RunAgent_serves\<close>); any failure of a constructor ends the process (\<open>RunAgent_failures\<close>).
  \<^item> Names: WorkStatus names are bounded, and injective under stated conditions
    (\<open>BuildWorkstatusName_length\<close>, \<open>_other_work\<close>, \<open>_inject\<close>).
  \<^item> Load: the driver waits for its own deletions and ends with all its works there, labelled so that the agent reports them,
    but a second run waits for ever (\<open>driver_main_reloads\<close>).
  \<^item> Flags: the controller's command never defines a flag twice and records the agent's flags under their
    names (\<open>newControllerCommand_wraps\<close>); the settings it passes on are sorted
    (\<open>getPropagatedSettings_spec\<close>) and name flags that the agent knows (\<open>propagated_flags_known\<close>).
  \<^item> Limits of the code, as theorems about it: panics after a failed discovery and on tombstones, lost
    delete errors, a second informer for an object listed twice, a work deleted before its goroutine
    ran, a resource that the mapper does not know, colliding WorkStatus names, an update that keeps
    UIDs, keys retried without end after their work has gone, and the namespace of the health prober.

  \<^bold>\<open>Parameters.\<close> Code of other modules is an argument: \<open>k8slib\<close> and its extension \<open>env\<close> (string forms
  of kinds, meta namespace keys, nested fields, conversions, discovery and REST mapper, caches, the
  hub client, and \<open>go_range\<close>, the order in which Go ranges over a map), \<open>rbac_client\<close>, client-go's
  constants and constructors in \<open>Command\<close>, and in \<open>Startup\<close> the constructors of controller-runtime,
  cobra and the addon framework (\<open>agent_lib\<close>, \<open>controller_lib\<close>), each giving an error or a value; in
  \<open>Deepcopy\<close> the copy methods of apimachinery's types (\<open>deep_lib\<close>, with the contract \<open>lib_copies\<close>) and the
  builder of schemes (\<open>scheme_lib\<close>, with \<open>builder_doc\<close>); in \<open>Loaddriver\<close> the client of the manifest works and the polling
  (\<open>driver_lib\<close>, with \<open>create_doc\<close>, \<open>delete_doc\<close>, \<open>finalizers_doc\<close> and \<open>poll_doc\<close>). The work queue is client-go's: what its calls do to an
  item is \<open>item_after\<close> of \<open>Workqueue\<close>; that it hands
  out every waiting item in the end is a hypothesis of \<open>reported_in_the_end\<close> and of no other theorem. The predicates \<open>gv_string_doc\<close>, \<open>gvk_string_doc\<close>,
  \<open>meta_key_doc\<close>, \<open>split_key_doc\<close>, \<open>nested_field_doc\<close>, \<open>not_found_doc\<close>, \<open>owner_ref_doc\<close>,
  \<open>owner_accept_doc\<close>, \<open>hub_names_doc\<close>, \<open>hub_doc\<close>, \<open>hub_up\<close> and \<open>rbac_doc\<close> state their documented behaviour;
  \<open>doc_lib\<close> and the cluster of \<open>Hub\<close> satisfy those the theorems about the agent assume.

  \<^bold>\<open>Choices.\<close> Every definition is total; no fuel is used, since all loops of the modelled code run over
  finite lists or maps (the endless worker loop is the repetition of \<open>agent_step\<close>), except the poll of the load driver,
  which is a parameter that gives \<open>None\<close> if it does not return. A nil
  dereference, a failed type assertion and an index out of range are \<open>Panic\<close>. Log output is left
  out. The steps of \<open>agent_step\<close> are atomic: an event, the taking and processing of one item, one goroutine
  \<^verbatim>\<open>go a.startInformers\<close>, a change of the world outside; its runs are those in which no two operations overlap, and the events, workers and pending goroutines may
  take their steps in any order. \<open>agent_invariant\<close>, \<open>agent_no_panic\<close>, \<open>agent_calls_authorized\<close>, \<open>event_key_not_lost\<close> and \<open>reported_in_the_end\<close> are about these runs; that operations
  can also overlap is the subject of \<open>Tasks\<close> and \<open>Interleaving\<close>, where the accesses to the shared maps
  interleave and the theorems say how far the atomic view is right. The hub may change between steps of
  \<open>agent_step\<close>; that it changes between the calls of one step is the subject of \<open>Interference\<close> and
  \<open>Delivery\<close>. \<open>agent_invariant\<close> and \<open>agent_no_panic\<close> assume nothing of the hub's client, so they
  hold on such a hub, too. A struct is a
  value in all theories but \<open>Deepcopy\<close>, so items of the work queue are compared by the values of their keys; in the code a key of a deletion has a
  pointer to a copy of the object and differs from every other key, which can only add items. In \<open>Deepcopy\<close> \<^verbatim>\<open>*out\<close> is a value that a method receives and gives back,
  since the caller always passes new memory, and an int64 that is only copied is an \<open>int\<close>.

  \<^bold>\<open>Not modelled.\<close> What the libraries do behind their calls (leader election, HTTP serving, command line parsing, template
  rendering, the scheme, the work queue's rate limits) is theirs. Fields of objects that no code of the repository reads are left out of
  the values; log messages are left out. Every function of the repository's Go code has a definition; what remains of the files is package
  clauses, imports and constants that nothing uses.
\<close>

section \<open>The agent's calls and its role\<close>

text \<open>The calls that name WorkStatus objects are on the group under which the type is registered.\<close>

lemma hub_access_group: "hub_access c = (verb, grp, resource) \<Longrightarrow> resource \<noteq> ''manifestworks'' \<Longrightarrow> grp = gv_Group GroupVersion"
  by (cases c) (auto simp: GroupVersion_def)

text \<open>The namespace of the object a call to the hub names.\<close>

fun call_namespace :: "hub_call \<Rightarrow> string" where
  "call_namespace (Get_WorkStatus ns n) = ns"
| "call_namespace (Get_ManifestWork ns n) = ns"
| "call_namespace (Create_WorkStatus ws) = ws_namespace ws"
| "call_namespace (Delete_WorkStatus ns n) = ns"
| "call_namespace (Patch_WorkStatus ns n p) = ns"
| "call_namespace (Update_WorkStatus_status ws) = ws_namespace ws"

definition hub_home :: "('w, 'm, 'g) env \<Rightarrow> ('m, 'w) sys \<Rightarrow> bool" where
  "hub_home E s \<longleftrightarrow> agent_ok E s \<and>
     (hub_names_doc (hub E) \<longrightarrow> owner_ref_doc E \<longrightarrow> list_all (\<lambda>c. call_namespace c = clusterName s) (hub_log s))"

lemma call_on_namespace: "call_on ns n mw c \<Longrightarrow> call_namespace c = ns"
  by (cases c) simp_all

lemma handleWorkStatus_home:
  assumes "handleWorkStatus E obj del s = Ret (err, t)" "hub_names_doc (hub E)" "owner_ref_doc E"
    and "list_all (\<lambda>c. call_namespace c = clusterName s) (hub_log s)"
  shows "list_all (\<lambda>c. call_namespace c = clusterName t) (hub_log t)"
proof -
  have cl: "clusterName t = clusterName s" using handleWorkStatus_state [OF assms(1)] by (auto simp: put_io_def)
  obtain a where a: "GetAppliedManifestWork E (cache_view E (world s)) obj (listers s) = Ret a"
    using assms(1) by (auto simp: handleWorkStatus_def bindO_eq_Ret)
  show ?thesis
  proof (cases a)
    case (Inl e)
    then have "t = s" using assms(1) a by (simp add: handleWorkStatus_def)
    then show ?thesis using assms(4) by simp
  next
    case (Inr aWork)
    from handleWorkStatus_logs [OF assms(1) a [unfolded Inr]] assms(2-4) cl show ?thesis
      by (auto simp: logs_def confined_def list_all_iff dest: call_on_namespace)
  qed
qed

lemma reconcile_home:
  assumes "sys_inv s" "reconcile E key s = Ret ((rq, err), t)" "hub_names_doc (hub E)" "owner_ref_doc E"
    and "list_all (\<lambda>c. call_namespace c = clusterName s) (hub_log s)"
  shows "list_all (\<lambda>c. call_namespace c = clusterName t) (hub_log t)"
proof -
  have "list_all (\<lambda>c. call_namespace c = clusterName t) (hub_log t)"
    if "handleAppliedManifestWork E obj del s = Ret ((rq, err), t)" for obj del
    using handleAMW_frame [OF assms(1) that] assms(5) by simp
  moreover have "list_all (\<lambda>c. call_namespace c = clusterName t) (hub_log t)"
    if "handleWorkStatus E obj del s = Ret (err, t)" for obj del err
    using handleWorkStatus_home [OF that assms(3-5)] .
  ultimately show ?thesis
    using assms(2,5) unfolding reconcile_def Let_def
    by (auto simp: bindO_eq_Ret split: sum.splits if_splits option.splits)
qed

interpretation home: step_invariant "agent_step E" "hub_home E" for E
proof unfold_locales
  fix s t assume h: "hub_home E s" and step: "agent_step E s t"
  have ok: "agent_ok E t" "sys_inv s" using agent.preserved [OF _ step] h by (auto simp: hub_home_def agent_ok_def)
  have "list_all (\<lambda>c. call_namespace c = clusterName t) (hub_log t)"
    if docs: "hub_names_doc (hub E)" "owner_ref_doc E"
  proof -
    have l: "list_all (\<lambda>c. call_namespace c = clusterName s) (hub_log s)" using h docs by (simp add: hub_home_def)
    show ?thesis
      using step
    proof cases
      case (event ev)
      with on_event_log [OF event(2,1)] l show ?thesis by auto
    next
      case (work item ord b)
      have d: "hub_names_doc (hub (E\<lparr>go_range := ord\<rparr>))" "owner_ref_doc (E\<lparr>go_range := ord\<rparr>)"
        using docs by (simp_all add: owner_ref_doc_def)
      have s: "sys_inv (wq_log [WQ_Get item] s)" using ok(2) by simp
      from work(3) show ?thesis
        by (cases rule: processNextWorkItem_cases) (use l reconcile_home [OF s _ d] in auto)
    next
      case (goroutine xs gvrs uids ys)
      from startInformers_frame [OF goroutine(2)] l show ?thesis by simp
    next
      case (outside w)
      with l show ?thesis by simp
    qed
  qed
  with ok(1) show "hub_home E t" by (simp add: hub_home_def)
qed

text \<open>
  Property C7: in every state the agent can reach, each call it has made to the hub is authorized: the
  role that the controller creates for the agent's cluster allows its verb and resource, and the
  object is in the role's namespace. The agent never needs, and never uses, rights outside it.
\<close>

theorem agent_calls_authorized:
  assumes "started E s0" "(agent_step E)\<^sup>*\<^sup>* s0 s" "hub_names_doc (hub E)" "owner_ref_doc E" "call \<in> set (hub_log s)"
  shows "permits (role_Rules (agent_role (clusterName s) addon)) (hub_access call) \<and>
    call_namespace call = role_Namespace (agent_role (clusterName s) addon)"
proof
  show "permits (role_Rules (agent_role (clusterName s) addon)) (hub_access call)"
    by (rule role_permits_call)
  have "hub_log s0 = []" using assms(1)
    by (elim started_state) (simp add: open_stopper_def startAppliedManifestWorkInformer_def new_agent_def Let_def)
  then have "hub_home E s0" using started_agent_ok [OF assms(1)] by (simp add: hub_home_def)
  from home.reach [OF assms(2) this] assms(3-5)
  show "call_namespace call = role_Namespace (agent_role (clusterName s) addon)"
    by (auto simp: hub_home_def list_all_iff agent_role_def)
qed

subsection \<open>A run of the agent\<close>

text \<open>
  From the start to the first report: the run to \<open>ex_watching\<close>, in which the informer of the deployments was started; then the deployment is seen and queued, and a
  worker reports it.
\<close>

lemma ex_watching_facts:
  "world ex_watching = ex_world" "hub_log ex_watching = []" "restMapper ex_watching = Some ()" "clusterName ex_watching = ''cluster1''"
  "cached cl_env ex_deployment ex_watching = Inr ex_deployment"
proof -
  have w: "world ex_recorded = ex_world" "hub_log ex_recorded = []" "restMapper ex_recorded = Some ()" "clusterName ex_recorded = ''cluster1''"
    by (simp_all add: ex_recorded_def Let_def ex_started_def new_agent_def open_stopper_def startAppliedManifestWorkInformer_def)
  show f: "world ex_watching = ex_world" "hub_log ex_watching = []" "restMapper ex_watching = Some ()" "clusterName ex_watching = ''cluster1''"
    by (simp_all add: ex_watching_eq w)
  obtain l l' where l: "SafeMap_Get (listers ex_watching) (gvk_key (obj_gvk ex_deployment)) = Some l'" "lst_Resource l' = ''deployments''"
    by (rule ex_watching_listers)
  then show "cached cl_env ex_deployment ex_watching = Inr ex_deployment"
    by (simp add: cached_def f getObject_def cl_find_def) (simp add: ex_world_def ex_amw_object_def ex_deployment_def new_meta_def AppliedManifestWorkResource_def)
qed

lemma ex_step_reported:
  "\<exists>t call. (agent_step cl_env)\<^sup>*\<^sup>* ex_watching t \<and> call \<in> set (hub_log t) \<and> clusterName t = ''cluster1''"
proof -
  let ?i = "ItemKey (key_of ex_deployment)"
  let ?a = "wq_log [WQ_Add (key_of ex_deployment)] ex_watching" and ?s = "wq_log [WQ_Add (key_of ex_deployment), WQ_Get ?i] ex_watching"
  note f = ex_watching_facts
  have 1: "agent_step cl_env ex_watching ?a"
    using handleObject_documented [OF ex_docs(1,3), of ex_watching] f(5)
    by (intro agent_step.event [of "Added (AnyObject ex_deployment)"]) (simp_all, simp add: ex_deployment_def)
  obtain l l' where w: "SafeMap_Get (listers ex_watching) amw_key = Some l" and r: "lst_Resource l = AppliedManifestWorkResource"
    by (rule ex_watching_listers)
  from w have l: "SafeMap_Get (listers ?s) amw_key = Some l" by simp
  have a: "GetAppliedManifestWork cl_env (cache_view cl_env (world ?s)) ex_deployment (listers ?s) = Ret (Inr ex_aWork)"
    using ex_GetAMW_listers [OF l r] f(1) by simp
  obtain t where t: "handleWorkStatus cl_env ex_deployment False ?s = Ret (None, t)"
    using ex_up [OF _ _ a] f(1,3) by auto
  have log: "hub_log t \<noteq> []" "clusterName t = ''cluster1''"
    using handleWorkStatus_logs [OF t a] handleWorkStatus_state [OF t] f(2,4)
    by (auto simp: logs_def handler_shapes_def report_shapes_def Let_def put_io_def)
  have "\<not> IsAppliedManifestWork (AnyObject ex_deployment)" "IsManagedByAppliedManifestWork ex_deployment"
    by (simp_all add: ex_kind)
  then have "reconcile cl_env (key_of ex_deployment) ?s = Ret ((False, None), t)"
    using reconcile_key_of [OF ex_docs(1,3), of ?s ex_deployment] f(5) t by simp
  then have "processNextWorkItem (cl_env\<lparr>go_range := sorted_order\<rparr>) (Some ?i) (wq_log [WQ_Get ?i] ?a) = Ret (True, wq_log [WQ_Forget ?i, WQ_Done ?i] t)"
    by (simp add: processNextWorkItem_def cl_order)
  then have 2: "agent_step cl_env ?a (wq_log [WQ_Forget ?i, WQ_Done ?i] t)"
    by (intro agent_step.work [OF _ sorted_order_range]) (simp_all add: offered_def)
  from 1 2 have "(agent_step cl_env)\<^sup>*\<^sup>* ex_watching (wq_log [WQ_Forget ?i, WQ_Done ?i] t)" by simp
  then show ?thesis using log by (metis hd_in_set wq_log_fields(8,9))
qed

theorem agent_calls_authorized_witness:
  "\<exists>t call. (agent_step cl_env)\<^sup>*\<^sup>* ex_started t \<and> call \<in> set (hub_log t) \<and>
     permits (role_Rules (agent_role ''cluster1'' AddonName)) (hub_access call) \<and> call_namespace call = ''cluster1''"
proof -
  obtain t call where t: "(agent_step cl_env)\<^sup>*\<^sup>* ex_watching t" "call \<in> set (hub_log t)" "clusterName t = ''cluster1''"
    using ex_step_reported by blast
  have "(agent_step cl_env)\<^sup>*\<^sup>* ex_started t"
    using ex_added ex_step_recorded ex_step_watching t(1)
    by (meson converse_rtranclp_into_rtranclp rtranclp_trans)
  with agent_calls_authorized [OF ex_started this cl_hub_names cl_env_laws(7) t(2), of AddonName] t(2,3)
  show ?thesis by (auto simp: agent_role_def)
qed

end
